(* ===== verification/Mls_Prelude.thy ===== *)
theory Mls_Prelude
  imports Main
begin

text \<open>
  Shared vocabulary of the development: 32-bit unsigned arithmetic on \<^typ>\<open>nat\<close> with the
  wrap-around of a release build written out, results as sums (the error on the left),
  vectors with checked access, the \<open>Default\<close> instance of \<open>Option\<close>, and the generic list
  lemmas the components share.
\<close>

named_theorems u32_simps \<open>equations that remove a wrap-around when the value fits in 32 bits\<close>

section \<open>Unsigned 32-bit arithmetic\<close>

text \<open>
  A \<open>u32\<close> is a natural number below \<open>2 ^ 32\<close>. Arithmetic wraps and shift amounts are taken
  modulo 32, as in a release build of the program.
\<close>

definition wrap32 :: "nat \<Rightarrow> nat" where
  "wrap32 n = n mod 2 ^ 32"

definition sub32 :: "nat \<Rightarrow> nat \<Rightarrow> nat" where
  "sub32 a b = wrap32 (a + 2 ^ 32 - b)"

definition shl32 :: "nat \<Rightarrow> nat \<Rightarrow> nat" where
  "shl32 a k = wrap32 (a * 2 ^ (k mod 32))"

definition shr32 :: "nat \<Rightarrow> nat \<Rightarrow> nat" where
  "shr32 a k = a div 2 ^ (k mod 32)"

text \<open>Arithmetic on \<open>usize\<close>, 64 bits wide.\<close>

definition usize_add :: "nat \<Rightarrow> nat \<Rightarrow> nat" where
  "usize_add a b = (a + b) mod 2 ^ 64"

definition usize_sub :: "nat \<Rightarrow> nat \<Rightarrow> nat" where
  "usize_sub a b = (a + 2 ^ 64 - b) mod 2 ^ 64"

lemma usize_add_id [u32_simps]: "a + b < 2 ^ 64 \<Longrightarrow> usize_add a b = a + b"
  by (simp add: usize_add_def)

lemma usize_sub_id [u32_simps]: "b \<le> a \<Longrightarrow> a < 2 ^ 64 \<Longrightarrow> usize_sub a b = a - b"
  by (simp add: usize_sub_def mod_if)

lemma wrap32_id [simp, u32_simps]: "n < 2 ^ 32 \<Longrightarrow> wrap32 n = n"
  by (simp add: wrap32_def)

lemma wrap32_less [simp]: "wrap32 n < 4294967296"
  by (simp add: wrap32_def)

lemma sub32_id [u32_simps]: "b \<le> a \<Longrightarrow> a < 2 ^ 32 \<Longrightarrow> sub32 a b = a - b"
  by (simp add: sub32_def wrap32_def mod_if)

lemma sub32_less [simp]: "sub32 a b < 4294967296"
  by (simp add: sub32_def)

lemma shl32_one [u32_simps]: "k < 32 \<Longrightarrow> shl32 (Suc 0) k = 2 ^ k"
proof -
  assume "k < 32"
  then have "(2::nat) ^ k < 2 ^ 32" by (rule power_strict_increasing) simp
  with \<open>k < 32\<close> show ?thesis by (simp add: shl32_def)
qed

lemma shl32_id [u32_simps]: "k < 32 \<Longrightarrow> a * 2 ^ k < 2 ^ 32 \<Longrightarrow> shl32 a k = a * 2 ^ k"
  by (simp add: shl32_def)

lemma shr32_id [u32_simps]: "k < 32 \<Longrightarrow> shr32 a k = a div 2 ^ k"
  by (simp add: shr32_def)

text \<open>The number of leading zero bits of a \<open>u32\<close>, read off its 32 binary digits.\<close>

definition leading_zeros32 :: "nat \<Rightarrow> nat" where
  "leading_zeros32 x = length (takeWhile Not (map (bit x) (rev [0..<32])))"

lemma bit_above: "x < 2 ^ n \<Longrightarrow> \<not> bit x n" for x :: nat
  by (simp add: bit_iff_odd)

lemma bit_top: "2 ^ n \<le> x \<Longrightarrow> x < 2 ^ Suc n \<Longrightarrow> bit x n" for x :: nat
proof -
  assume "2 ^ n \<le> x" and "x < 2 ^ Suc n"
  then have "x div 2 ^ n = 1" by (intro div_nat_eqI) simp_all
  then show ?thesis by (simp add: bit_iff_odd)
qed

lemma leading_zeros32_eq:
  assumes "2 ^ d \<le> x" and "x < 2 ^ Suc d" and "d < 32"
  shows "leading_zeros32 x = 31 - d"
proof -
  have "[0..<32] = [0..<d] @ d # [Suc d..<32]"
    using assms(3) upt_add_eq_append [of 0 d "32 - d"] by (simp add: upt_conv_Cons)
  moreover have "\<not> bit x n" if "Suc d \<le> n" for n
  proof (rule bit_above)
    have "(2::nat) ^ Suc d \<le> 2 ^ n" using that by (rule power_increasing) simp
    with assms(2) show "x < 2 ^ n" by linarith
  qed
  moreover have "bit x d" using assms(1,2) by (rule bit_top)
  ultimately have "takeWhile Not (map (bit x) (rev [0..<32])) = map (bit x) (rev [Suc d..<32])"
    by (simp add: takeWhile_append)
  then show ?thesis by (simp add: leading_zeros32_def)
qed

section \<open>Results\<close>

text \<open>\<open>LibraryError\<close>: an error the library does not expect to see.\<close>

datatype library_error = MissingBoundCheck | UnexpectedCryptoError | CustomError string

text \<open>Sequencing of fallible steps, Rust's \<open>?\<close> operator: the first error is returned.\<close>

fun try_bind :: "'e + 'a \<Rightarrow> ('a \<Rightarrow> 'e + 'b) \<Rightarrow> 'e + 'b" where
  "try_bind (Inl e) f = Inl e"
| "try_bind (Inr x) f = f x"

lemma try_bind_eq_Inr:
  "try_bind m f = Inr y \<longleftrightarrow> (\<exists>x. m = Inr x \<and> f x = Inr y)"
  by (cases m) auto

lemma try_bind_eq_Inl:
  "try_bind m f = Inl e \<longleftrightarrow> m = Inl e \<or> (\<exists>x. m = Inr x \<and> f x = Inl e)"
  by (cases m) auto

lemma try_bind_split:
  "P (try_bind m f) \<longleftrightarrow> (\<forall>e. m = Inl e \<longrightarrow> P (Inl e)) \<and> (\<forall>x. m = Inr x \<longrightarrow> P (f x))"
  by (cases m) auto

text \<open>
  A recursion that may also not return has a result of type \<open>('e + 'a) option\<close>, where \<open>None\<close>
  means that it does not return.
\<close>

definition ret_bind ::
  "('e + 'a) option \<Rightarrow> ('a \<Rightarrow> ('e + 'b) option) \<Rightarrow> ('e + 'b) option" where
  "ret_bind m f = Option.bind m (\<lambda>r. case r of Inl e \<Rightarrow> Some (Inl e) | Inr x \<Rightarrow> f x)"

lemma ret_bind_simps [simp]:
  "ret_bind None f = None"
  "ret_bind (Some (Inl e)) f = Some (Inl e)"
  "ret_bind (Some (Inr x)) f = f x"
  by (simp_all add: ret_bind_def)

lemma ret_bind_mono [partial_function_mono]:
  assumes "mono_option B" and "\<And>y. mono_option (\<lambda>f. C y f)"
  shows "mono_option (\<lambda>f. ret_bind (B f) (\<lambda>y. C y f))"
  unfolding ret_bind_def
proof (rule bind_mono [OF assms(1)])
  show "mono_option (\<lambda>f. case r of Inl e \<Rightarrow> Some (Inl e) | Inr x \<Rightarrow> C x f)" for r
    using assms(2) by (cases r) (simp_all add: monotone_def option.leq_refl)
qed

section \<open>Vectors\<close>

text \<open>\<open>Vec::get\<close>: the element at an index, or nothing out of range.\<close>

definition vec_get :: "'a list \<Rightarrow> nat \<Rightarrow> 'a option" where
  "vec_get xs i = (if i < length xs then Some (xs ! i) else None)"

text \<open>\<open>Vec::resize\<close>: truncate, or pad on the right with a value.\<close>

definition vec_resize :: "'a list \<Rightarrow> nat \<Rightarrow> 'a \<Rightarrow> 'a list" where
  "vec_resize xs n x = take n xs @ replicate (n - length xs) x"

lemma length_vec_resize [simp]: "length (vec_resize xs n x) = n"
  by (simp add: vec_resize_def)

lemma nth_vec_resize:
  "i < n \<Longrightarrow> vec_resize xs n x ! i = (if i < length xs then xs ! i else x)"
  by (auto simp: vec_resize_def nth_append)

lemma vec_resize_same [simp]: "vec_resize xs (length xs) x = xs"
  by (simp add: vec_resize_def)

instantiation option :: (type) default
begin

definition default_option :: "'a option" where
  "default_option = None"

instance ..

end

section \<open>Numbers and lists\<close>

lemma exp2_Suc: obtains p where "(2::nat) ^ k = Suc p"
  by (cases "(2::nat) ^ k") auto

lemma pred_double_div_2 [simp]: "(2 * p - Suc 0) div 2 = p - 1"
  by arith

lemma filter_eq_NilI: "(\<And>x. x \<in> set xs \<Longrightarrow> \<not> P x) \<Longrightarrow> filter P xs = []"
  by (simp add: filter_empty_conv)

lemma sorted_wrt_less_nth_ge:
  assumes "sorted_wrt (<) (ks :: nat list)" and "i < length ks"
  shows "i \<le> ks ! i"
  using assms
proof (induction i)
  case 0
  then show ?case by simp
next
  case (Suc i)
  then have "ks ! i < ks ! Suc i" by (simp add: sorted_wrt_nth_less)
  moreover from Suc have "i \<le> ks ! i" by simp
  ultimately show ?case by simp
qed

end
