(* ===== verification/Ciphersuites.thy ===== *)
theory Ciphersuites
  imports Mls_Prelude "HOL-Library.Word"
begin

text \<open>
  The ciphersuites and the algorithms they stand for (\<open>traits/src/types.rs\<close>), and the
  operations on secrets built on them: key derivation with labels (\<open>ciphersuite/secret.rs\<close>,
  \<open>ciphersuite/kdf_label.rs\<close>), authenticated encryption (\<open>ciphersuite/aead.rs\<close>), message
  authentication codes (\<open>ciphersuite/mac.rs\<close>), the comparison of byte strings
  (\<open>equal_ct\<close> of \<open>ciphersuite/mod.rs\<close>) and hash references (\<open>ciphersuite/hash_ref.rs\<close>). The
  primitives (HKDF, AEAD, hashing) and the TLS encoding are arguments, collected in a record.
\<close>

unbundle bit_operations_syntax

type_synonym bytes = "8 word list"

section \<open>Algorithms\<close>

datatype aead_type = Aes128Gcm | Aes256Gcm | ChaCha20Poly1305

fun tag_size :: "aead_type \<Rightarrow> nat" where
  "tag_size Aes128Gcm = 16"
| "tag_size Aes256Gcm = 16"
| "tag_size ChaCha20Poly1305 = 16"

fun key_size :: "aead_type \<Rightarrow> nat" where
  "key_size Aes128Gcm = 16"
| "key_size Aes256Gcm = 32"
| "key_size ChaCha20Poly1305 = 32"

fun nonce_size :: "aead_type \<Rightarrow> nat" where
  "nonce_size Aes128Gcm = 12"
| "nonce_size Aes256Gcm = 12"
| "nonce_size ChaCha20Poly1305 = 12"

datatype hash_type = Sha2_256 | Sha2_384 | Sha2_512

fun hash_size :: "hash_type \<Rightarrow> nat" where
  "hash_size Sha2_256 = 32"
| "hash_size Sha2_384 = 48"
| "hash_size Sha2_512 = 64"

datatype signature_scheme =
    ECDSA_SECP256R1_SHA256
  | ECDSA_SECP384R1_SHA384
  | ECDSA_SECP521R1_SHA512
  | ED25519
  | ED448

definition signature_scheme_try_from :: "16 word \<Rightarrow> signature_scheme option" where
  "signature_scheme_try_from v =
     (if v = 0x0403 then Some ECDSA_SECP256R1_SHA256
      else if v = 0x0503 then Some ECDSA_SECP384R1_SHA384
      else if v = 0x0603 then Some ECDSA_SECP521R1_SHA512
      else if v = 0x0807 then Some ED25519
      else if v = 0x0808 then Some ED448
      else None)"

fun signature_scheme_into :: "signature_scheme \<Rightarrow> 16 word" where
  "signature_scheme_into ECDSA_SECP256R1_SHA256 = 0x0403"
| "signature_scheme_into ECDSA_SECP384R1_SHA384 = 0x0503"
| "signature_scheme_into ECDSA_SECP521R1_SHA512 = 0x0603"
| "signature_scheme_into ED25519 = 0x0807"
| "signature_scheme_into ED448 = 0x0808"

datatype crypto_error =
    CryptoLibraryError
  | AeadDecryptionError
  | HpkeDecryptionError
  | HpkeEncryptionError
  | UnsupportedSignatureScheme
  | KdfLabelTooLarge
  | KdfSerializationError
  | HkdfOutputLengthInvalid
  | InsufficientRandomness
  | InvalidSignature
  | UnsupportedAeadAlgorithm
  | UnsupportedKdf
  | InvalidLength
  | UnsupportedHashAlgorithm
  | SignatureEncodingError
  | SignatureDecodingError
  | SenderSetupError
  | ReceiverSetupError
  | ExporterError
  | UnsupportedCiphersuite
  | TlsSerializationError
  | TooMuchData
  | SigningError
  | InvalidPublicKey

datatype hpke_kem_type = DhKemP256 | DhKemP384 | DhKemP521 | DhKem25519 | DhKem448 | XWingKemDraft2

datatype hpke_kdf_type = HkdfSha256 | HkdfSha384 | HkdfSha512

datatype hpke_aead_type = AesGcm128 | AesGcm256 | HpkeChaCha20Poly1305 | ExportOnly

section \<open>Ciphersuites\<close>

datatype ciphersuite =
    MLS_128_DHKEMX25519_AES128GCM_SHA256_Ed25519
  | MLS_128_DHKEMP256_AES128GCM_SHA256_P256
  | MLS_128_DHKEMX25519_CHACHA20POLY1305_SHA256_Ed25519
  | MLS_256_DHKEMX448_AES256GCM_SHA512_Ed448
  | MLS_256_DHKEMP521_AES256GCM_SHA512_P521
  | MLS_256_DHKEMX448_CHACHA20POLY1305_SHA512_Ed448
  | MLS_256_DHKEMP384_AES256GCM_SHA384_P384
  | MLS_256_XWING_CHACHA20POLY1305_SHA256_Ed25519

fun ciphersuite_into :: "ciphersuite \<Rightarrow> 16 word" where
  "ciphersuite_into MLS_128_DHKEMX25519_AES128GCM_SHA256_Ed25519 = 0x0001"
| "ciphersuite_into MLS_128_DHKEMP256_AES128GCM_SHA256_P256 = 0x0002"
| "ciphersuite_into MLS_128_DHKEMX25519_CHACHA20POLY1305_SHA256_Ed25519 = 0x0003"
| "ciphersuite_into MLS_256_DHKEMX448_AES256GCM_SHA512_Ed448 = 0x0004"
| "ciphersuite_into MLS_256_DHKEMP521_AES256GCM_SHA512_P521 = 0x0005"
| "ciphersuite_into MLS_256_DHKEMX448_CHACHA20POLY1305_SHA512_Ed448 = 0x0006"
| "ciphersuite_into MLS_256_DHKEMP384_AES256GCM_SHA384_P384 = 0x0007"
| "ciphersuite_into MLS_256_XWING_CHACHA20POLY1305_SHA256_Ed25519 = 0x004D"

definition ciphersuite_try_from :: "16 word \<Rightarrow> ciphersuite option" where
  "ciphersuite_try_from v =
     (if v = 0x0001 then Some MLS_128_DHKEMX25519_AES128GCM_SHA256_Ed25519
      else if v = 0x0002 then Some MLS_128_DHKEMP256_AES128GCM_SHA256_P256
      else if v = 0x0003 then Some MLS_128_DHKEMX25519_CHACHA20POLY1305_SHA256_Ed25519
      else if v = 0x0004 then Some MLS_256_DHKEMX448_AES256GCM_SHA512_Ed448
      else if v = 0x0005 then Some MLS_256_DHKEMP521_AES256GCM_SHA512_P521
      else if v = 0x0006 then Some MLS_256_DHKEMX448_CHACHA20POLY1305_SHA512_Ed448
      else if v = 0x0007 then Some MLS_256_DHKEMP384_AES256GCM_SHA384_P384
      else if v = 0x004D then Some MLS_256_XWING_CHACHA20POLY1305_SHA256_Ed25519
      else None)"

fun hash_algorithm :: "ciphersuite \<Rightarrow> hash_type" where
  "hash_algorithm MLS_128_DHKEMX25519_AES128GCM_SHA256_Ed25519 = Sha2_256"
| "hash_algorithm MLS_128_DHKEMP256_AES128GCM_SHA256_P256 = Sha2_256"
| "hash_algorithm MLS_128_DHKEMX25519_CHACHA20POLY1305_SHA256_Ed25519 = Sha2_256"
| "hash_algorithm MLS_256_XWING_CHACHA20POLY1305_SHA256_Ed25519 = Sha2_256"
| "hash_algorithm MLS_256_DHKEMP384_AES256GCM_SHA384_P384 = Sha2_384"
| "hash_algorithm MLS_256_DHKEMX448_AES256GCM_SHA512_Ed448 = Sha2_512"
| "hash_algorithm MLS_256_DHKEMP521_AES256GCM_SHA512_P521 = Sha2_512"
| "hash_algorithm MLS_256_DHKEMX448_CHACHA20POLY1305_SHA512_Ed448 = Sha2_512"

fun signature_algorithm :: "ciphersuite \<Rightarrow> signature_scheme" where
  "signature_algorithm MLS_128_DHKEMX25519_AES128GCM_SHA256_Ed25519 = ED25519"
| "signature_algorithm MLS_128_DHKEMX25519_CHACHA20POLY1305_SHA256_Ed25519 = ED25519"
| "signature_algorithm MLS_256_XWING_CHACHA20POLY1305_SHA256_Ed25519 = ED25519"
| "signature_algorithm MLS_128_DHKEMP256_AES128GCM_SHA256_P256 = ECDSA_SECP256R1_SHA256"
| "signature_algorithm MLS_256_DHKEMP521_AES256GCM_SHA512_P521 = ECDSA_SECP521R1_SHA512"
| "signature_algorithm MLS_256_DHKEMX448_AES256GCM_SHA512_Ed448 = ED448"
| "signature_algorithm MLS_256_DHKEMX448_CHACHA20POLY1305_SHA512_Ed448 = ED448"
| "signature_algorithm MLS_256_DHKEMP384_AES256GCM_SHA384_P384 = ECDSA_SECP384R1_SHA384"

fun aead_algorithm :: "ciphersuite \<Rightarrow> aead_type" where
  "aead_algorithm MLS_128_DHKEMX25519_AES128GCM_SHA256_Ed25519 = Aes128Gcm"
| "aead_algorithm MLS_128_DHKEMP256_AES128GCM_SHA256_P256 = Aes128Gcm"
| "aead_algorithm MLS_128_DHKEMX25519_CHACHA20POLY1305_SHA256_Ed25519 = ChaCha20Poly1305"
| "aead_algorithm MLS_256_DHKEMX448_CHACHA20POLY1305_SHA512_Ed448 = ChaCha20Poly1305"
| "aead_algorithm MLS_256_XWING_CHACHA20POLY1305_SHA256_Ed25519 = ChaCha20Poly1305"
| "aead_algorithm MLS_256_DHKEMX448_AES256GCM_SHA512_Ed448 = Aes256Gcm"
| "aead_algorithm MLS_256_DHKEMP521_AES256GCM_SHA512_P521 = Aes256Gcm"
| "aead_algorithm MLS_256_DHKEMP384_AES256GCM_SHA384_P384 = Aes256Gcm"

fun hpke_kdf_algorithm :: "ciphersuite \<Rightarrow> hpke_kdf_type" where
  "hpke_kdf_algorithm MLS_128_DHKEMX25519_AES128GCM_SHA256_Ed25519 = HkdfSha256"
| "hpke_kdf_algorithm MLS_128_DHKEMP256_AES128GCM_SHA256_P256 = HkdfSha256"
| "hpke_kdf_algorithm MLS_128_DHKEMX25519_CHACHA20POLY1305_SHA256_Ed25519 = HkdfSha256"
| "hpke_kdf_algorithm MLS_256_XWING_CHACHA20POLY1305_SHA256_Ed25519 = HkdfSha256"
| "hpke_kdf_algorithm MLS_256_DHKEMP384_AES256GCM_SHA384_P384 = HkdfSha384"
| "hpke_kdf_algorithm MLS_256_DHKEMX448_AES256GCM_SHA512_Ed448 = HkdfSha512"
| "hpke_kdf_algorithm MLS_256_DHKEMP521_AES256GCM_SHA512_P521 = HkdfSha512"
| "hpke_kdf_algorithm MLS_256_DHKEMX448_CHACHA20POLY1305_SHA512_Ed448 = HkdfSha512"

fun hpke_kem_algorithm :: "ciphersuite \<Rightarrow> hpke_kem_type" where
  "hpke_kem_algorithm MLS_128_DHKEMX25519_AES128GCM_SHA256_Ed25519 = DhKem25519"
| "hpke_kem_algorithm MLS_128_DHKEMX25519_CHACHA20POLY1305_SHA256_Ed25519 = DhKem25519"
| "hpke_kem_algorithm MLS_128_DHKEMP256_AES128GCM_SHA256_P256 = DhKemP256"
| "hpke_kem_algorithm MLS_256_DHKEMX448_AES256GCM_SHA512_Ed448 = DhKem448"
| "hpke_kem_algorithm MLS_256_DHKEMX448_CHACHA20POLY1305_SHA512_Ed448 = DhKem448"
| "hpke_kem_algorithm MLS_256_DHKEMP384_AES256GCM_SHA384_P384 = DhKemP384"
| "hpke_kem_algorithm MLS_256_DHKEMP521_AES256GCM_SHA512_P521 = DhKemP521"
| "hpke_kem_algorithm MLS_256_XWING_CHACHA20POLY1305_SHA256_Ed25519 = XWingKemDraft2"

fun hpke_aead_algorithm :: "ciphersuite \<Rightarrow> hpke_aead_type" where
  "hpke_aead_algorithm MLS_128_DHKEMX25519_AES128GCM_SHA256_Ed25519 = AesGcm128"
| "hpke_aead_algorithm MLS_128_DHKEMP256_AES128GCM_SHA256_P256 = AesGcm128"
| "hpke_aead_algorithm MLS_128_DHKEMX25519_CHACHA20POLY1305_SHA256_Ed25519 = HpkeChaCha20Poly1305"
| "hpke_aead_algorithm MLS_256_XWING_CHACHA20POLY1305_SHA256_Ed25519 = HpkeChaCha20Poly1305"
| "hpke_aead_algorithm MLS_256_DHKEMX448_AES256GCM_SHA512_Ed448 = AesGcm256"
| "hpke_aead_algorithm MLS_256_DHKEMP384_AES256GCM_SHA384_P384 = AesGcm256"
| "hpke_aead_algorithm MLS_256_DHKEMP521_AES256GCM_SHA512_P521 = AesGcm256"
| "hpke_aead_algorithm MLS_256_DHKEMX448_CHACHA20POLY1305_SHA512_Ed448 = HpkeChaCha20Poly1305"

definition hpke_config :: "ciphersuite \<Rightarrow> hpke_kem_type \<times> hpke_kdf_type \<times> hpke_aead_type" where
  "hpke_config cs = (hpke_kem_algorithm cs, hpke_kdf_algorithm cs, hpke_aead_algorithm cs)"

definition hash_length :: "ciphersuite \<Rightarrow> nat" where
  "hash_length cs = hash_size (hash_algorithm cs)"

definition mac_length :: "ciphersuite \<Rightarrow> nat" where
  "mac_length cs = tag_size (aead_algorithm cs)"

definition aead_key_length :: "ciphersuite \<Rightarrow> nat" where
  "aead_key_length cs = key_size (aead_algorithm cs)"

definition aead_nonce_length :: "ciphersuite \<Rightarrow> nat" where
  "aead_nonce_length cs = nonce_size (aead_algorithm cs)"

section \<open>Secrets\<close>

text \<open>
  The crypto provider and the TLS encoding of key derivation labels and hash reference inputs.
\<close>

record crypto_provider =
  hkdf_extract_prim :: "hash_type \<Rightarrow> bytes \<Rightarrow> bytes \<Rightarrow> crypto_error + bytes"
  hkdf_expand_prim :: "hash_type \<Rightarrow> bytes \<Rightarrow> bytes \<Rightarrow> nat \<Rightarrow> crypto_error + bytes"
  aead_encrypt_prim :: "aead_type \<Rightarrow> bytes \<Rightarrow> bytes \<Rightarrow> bytes \<Rightarrow> bytes \<Rightarrow> crypto_error + bytes"
  aead_decrypt_prim :: "aead_type \<Rightarrow> bytes \<Rightarrow> bytes \<Rightarrow> bytes \<Rightarrow> bytes \<Rightarrow> crypto_error + bytes"
  hash_prim :: "hash_type \<Rightarrow> bytes \<Rightarrow> crypto_error + bytes"
  serialize_kdf_label :: "16 word \<Rightarrow> bytes \<Rightarrow> bytes \<Rightarrow> bytes option"
  serialize_hash_reference_input :: "bytes \<Rightarrow> bytes \<Rightarrow> bytes option"

definition str_bytes :: "string \<Rightarrow> bytes" where
  "str_bytes s = map (\<lambda>c. of_nat (of_char c)) s"

definition map_err :: "('e \<Rightarrow> 'f) \<Rightarrow> 'e + 'a \<Rightarrow> 'f + 'a" where
  "map_err f r = (case r of Inl e \<Rightarrow> Inl (f e) | Inr x \<Rightarrow> Inr x)"

lemma map_err_simps [simp]: "map_err f (Inl e) = Inl (f e)" "map_err f (Inr x) = Inr x"
  by (simp_all add: map_err_def)

lemma map_err_eq_Inr [simp]: "map_err f r = Inr x \<longleftrightarrow> r = Inr x"
  by (cases r) auto

definition secret_zero :: "ciphersuite \<Rightarrow> bytes" where
  "secret_zero cs = replicate (hash_length cs) 0"

definition hkdf_extract ::
  "crypto_provider \<Rightarrow> ciphersuite \<Rightarrow> bytes \<Rightarrow> bytes option \<Rightarrow> crypto_error + bytes" where
  "hkdf_extract P cs salt ikm_option =
     hkdf_extract_prim P (hash_algorithm cs) salt
       (case ikm_option of Some ikm \<Rightarrow> ikm | None \<Rightarrow> secret_zero cs)"

definition hkdf_expand ::
  "crypto_provider \<Rightarrow> ciphersuite \<Rightarrow> bytes \<Rightarrow> bytes \<Rightarrow> nat \<Rightarrow> crypto_error + bytes" where
  "hkdf_expand P cs prk info okm_len =
     try_bind (map_err (\<lambda>_. CryptoLibraryError) (hkdf_expand_prim P (hash_algorithm cs) prk info okm_len))
       (\<lambda>key. if key = [] then Inl InvalidLength else Inr key)"

definition serialized_label :: "crypto_provider \<Rightarrow> bytes \<Rightarrow> string \<Rightarrow> nat \<Rightarrow> crypto_error + bytes" where
  "serialized_label P context label len =
     (if len > 2 ^ 16 - 1 then Inl KdfLabelTooLarge
      else case serialize_kdf_label P (of_nat len) (str_bytes label) context of
             Some info \<Rightarrow> Inr info
           | None \<Rightarrow> Inl KdfSerializationError)"

definition kdf_expand_label ::
  "crypto_provider \<Rightarrow> ciphersuite \<Rightarrow> bytes \<Rightarrow> string \<Rightarrow> bytes \<Rightarrow> nat \<Rightarrow> crypto_error + bytes" where
  "kdf_expand_label P cs secret label context len =
     try_bind (serialized_label P context (''MLS 1.0 '' @ label) len)
       (\<lambda>info. hkdf_expand P cs secret info len)"

definition derive_secret ::
  "crypto_provider \<Rightarrow> ciphersuite \<Rightarrow> bytes \<Rightarrow> string \<Rightarrow> crypto_error + bytes" where
  "derive_secret P cs secret label = kdf_expand_label P cs secret label [] (hash_length cs)"

section \<open>Comparison and message authentication codes\<close>

fun equal_ct_loop :: "8 word \<Rightarrow> bytes \<Rightarrow> bytes \<Rightarrow> 8 word" where
  "equal_ct_loop diff (l # ls) (r # rs) = equal_ct_loop (diff OR (l XOR r)) ls rs"
| "equal_ct_loop diff _ _ = diff"

definition equal_ct :: "bytes \<Rightarrow> bytes \<Rightarrow> bool" where
  "equal_ct a b \<longleftrightarrow> equal_ct_loop 0 a b = 0"

definition secret_eq :: "bytes \<Rightarrow> bytes \<Rightarrow> bool" where
  "secret_eq a b = (if length a \<noteq> length b then False else equal_ct a b)"

definition mac_eq :: "bytes \<Rightarrow> bytes \<Rightarrow> bool" where
  "mac_eq a b = equal_ct a b"

definition mac_new :: "crypto_provider \<Rightarrow> ciphersuite \<Rightarrow> bytes \<Rightarrow> bytes \<Rightarrow> crypto_error + bytes" where
  "mac_new P cs salt ikm = hkdf_extract P cs salt (Some ikm)"

section \<open>Authenticated encryption\<close>

definition nonce_bytes :: nat where
  "nonce_bytes = 12"

definition reuse_guard_bytes :: nat where
  "reuse_guard_bytes = 4"

record aead_key =
  aead_mode :: aead_type
  aead_value :: bytes

definition aead_key_from_secret :: "ciphersuite \<Rightarrow> bytes \<Rightarrow> aead_key" where
  "aead_key_from_secret cs secret = \<lparr>aead_mode = aead_algorithm cs, aead_value = secret\<rparr>"

text \<open>\<open>clone_from_slice\<close> panics unless the secret has the length of a nonce.\<close>

definition nonce_from_secret :: "bytes \<Rightarrow> bytes option" where
  "nonce_from_secret secret = (if length secret = nonce_bytes then Some secret else None)"

definition aead_seal ::
  "crypto_provider \<Rightarrow> aead_key \<Rightarrow> bytes \<Rightarrow> bytes \<Rightarrow> bytes \<Rightarrow> crypto_error + bytes" where
  "aead_seal P key msg aad nonce =
     map_err (\<lambda>_. CryptoLibraryError)
       (aead_encrypt_prim P (aead_mode key) (aead_value key) msg nonce aad)"

definition aead_open ::
  "crypto_provider \<Rightarrow> aead_key \<Rightarrow> bytes \<Rightarrow> bytes \<Rightarrow> bytes \<Rightarrow> crypto_error + bytes" where
  "aead_open P key ciphertext aad nonce =
     map_err (\<lambda>_. AeadDecryptionError)
       (aead_decrypt_prim P (aead_mode key) (aead_value key) ciphertext nonce aad)"

text \<open>The nonce and the reuse guard are arrays of 12 and 4 bytes.\<close>

definition xor_with_reuse_guard :: "bytes \<Rightarrow> bytes \<Rightarrow> bytes" where
  "xor_with_reuse_guard nonce guard =
     fold (\<lambda>i n. n[i := n ! i XOR guard ! i]) [0..<reuse_guard_bytes] nonce"

section \<open>Hash references\<close>

definition key_package_ref_label :: string where
  "key_package_ref_label = ''MLS 1.0 KeyPackage Reference''"

definition proposal_ref_label :: string where
  "proposal_ref_label = ''MLS 1.0 Proposal Reference''"

definition hash_reference_new ::
  "crypto_provider \<Rightarrow> ciphersuite \<Rightarrow> bytes \<Rightarrow> string \<Rightarrow> crypto_error + bytes" where
  "hash_reference_new P cs value label =
     (case serialize_hash_reference_input P (str_bytes label) value of
        None \<Rightarrow> Inl TlsSerializationError
      | Some payload \<Rightarrow> hash_prim P (hash_algorithm cs) payload)"

definition make_proposal_ref :: "crypto_provider \<Rightarrow> ciphersuite \<Rightarrow> bytes \<Rightarrow> crypto_error + bytes" where
  "make_proposal_ref P cs value = hash_reference_new P cs value proposal_ref_label"

definition make_key_package_ref :: "crypto_provider \<Rightarrow> ciphersuite \<Rightarrow> bytes \<Rightarrow> crypto_error + bytes" where
  "make_key_package_ref P cs value = hash_reference_new P cs value key_package_ref_label"

section \<open>Properties\<close>

lemma ciphersuite_try_from_into [simp]: "ciphersuite_try_from (ciphersuite_into cs) = Some cs"
  by (cases cs) (simp_all add: ciphersuite_try_from_def)

lemma ciphersuite_into_try_from: "ciphersuite_try_from v = Some cs \<Longrightarrow> ciphersuite_into cs = v"
  by (auto simp: ciphersuite_try_from_def split: if_splits)

lemma ciphersuite_lengths:
  "0 < hash_length cs" "hash_length cs \<le> 64" "aead_nonce_length cs = nonce_bytes"
  "0 < aead_key_length cs" "aead_key_length cs \<le> 32"
  by (cases cs; simp add: hash_length_def aead_nonce_length_def nonce_bytes_def aead_key_length_def)+

lemma or_eq_0_iff: "a OR b = 0 \<longleftrightarrow> a = 0 \<and> b = 0" for a b :: "8 word"
  by (auto simp: bit_eq_iff bit_simps)

lemma xor_eq_0_iff: "a XOR b = 0 \<longleftrightarrow> a = b" for a b :: "8 word"
  by (auto simp: bit_eq_iff bit_simps)

lemma equal_ct_loop_eq_0:
  "equal_ct_loop diff a b = 0 \<longleftrightarrow>
     diff = 0 \<and> take (min (length a) (length b)) a = take (min (length a) (length b)) b"
  by (induction diff a b rule: equal_ct_loop.induct) (auto simp: or_eq_0_iff xor_eq_0_iff)

text \<open>The comparison looks at the common prefix only.\<close>

lemma equal_ct_iff:
  "equal_ct a b \<longleftrightarrow> take (min (length a) (length b)) a = take (min (length a) (length b)) b"
  by (simp add: equal_ct_def equal_ct_loop_eq_0)

lemma equal_ct_same_length: "length a = length b \<Longrightarrow> equal_ct a b \<longleftrightarrow> a = b"
  by (simp add: equal_ct_iff)

lemma secret_eq_iff: "secret_eq a b \<longleftrightarrow> a = b"
  by (auto simp: secret_eq_def equal_ct_same_length)

lemma xor_with_reuse_guard_eq:
  assumes "length nonce = nonce_bytes" and "length guard = reuse_guard_bytes"
  shows "xor_with_reuse_guard nonce guard = map2 (XOR) (take 4 nonce) guard @ drop 4 nonce"
proof -
  obtain n0 n1 n2 n3 rest where n: "nonce = n0 # n1 # n2 # n3 # rest"
    using assms(1) by (auto simp: nonce_bytes_def length_Suc_conv numeral_eq_Suc)
  obtain g0 g1 g2 g3 where g: "guard = [g0, g1, g2, g3]"
    using assms(2) by (auto simp: reuse_guard_bytes_def length_Suc_conv numeral_eq_Suc)
  have "[0..<reuse_guard_bytes] = [0, 1, 2, 3]"
    by (simp add: reuse_guard_bytes_def upt_rec)
  then show ?thesis by (simp add: xor_with_reuse_guard_def n g numeral_eq_Suc)
qed

lemma length_xor_with_reuse_guard [simp]:
  "length nonce = nonce_bytes \<Longrightarrow> length guard = reuse_guard_bytes \<Longrightarrow>
     length (xor_with_reuse_guard nonce guard) = nonce_bytes"
  by (simp add: xor_with_reuse_guard_eq) (simp add: nonce_bytes_def reuse_guard_bytes_def)

end
