(* ===== verification/Leaf_Node.thy ===== *)
theory Leaf_Node
  imports Ciphersuites
begin

text \<open>
  Leaf nodes and what they carry: protocol versions (\<open>versions.rs\<close>), extension types and
  extension lists (\<open>extensions/mod.rs\<close>), credentials (\<open>credentials/mod.rs\<close>), proposal types
  (\<open>messages/proposals.rs\<close>), capabilities (\<open>leaf_node/capabilities.rs\<close>), lifetimes
  (\<open>key_packages/lifetime.rs\<close>) and the leaf node itself (\<open>treesync/node/leaf_node.rs\<close>) with the
  checks it passes without group context. Code points are 16-bit words and timestamps
  64-bit words.
\<close>


section \<open>Code points\<close>

datatype protocol_version = Mls10 | OtherVersion "16 word"

definition protocol_version_from :: "16 word \<Rightarrow> protocol_version" where
  "protocol_version_from v = (if v = 1 then Mls10 else OtherVersion v)"

fun protocol_version_into :: "protocol_version \<Rightarrow> 16 word" where
  "protocol_version_into Mls10 = 1"
| "protocol_version_into (OtherVersion v) = v"

datatype extension_type =
    ApplicationId
  | RatchetTreeType
  | RequiredCapabilities
  | ExternalPub
  | ExternalSenders
  | LastResort
  | UnknownType "16 word"

definition extension_type_from :: "16 word \<Rightarrow> extension_type" where
  "extension_type_from a =
     (if a = 1 then ApplicationId
      else if a = 2 then RatchetTreeType
      else if a = 3 then RequiredCapabilities
      else if a = 4 then ExternalPub
      else if a = 5 then ExternalSenders
      else if a = 10 then LastResort
      else UnknownType a)"

fun extension_type_into :: "extension_type \<Rightarrow> 16 word" where
  "extension_type_into ApplicationId = 1"
| "extension_type_into RatchetTreeType = 2"
| "extension_type_into RequiredCapabilities = 3"
| "extension_type_into ExternalPub = 4"
| "extension_type_into ExternalSenders = 5"
| "extension_type_into LastResort = 10"
| "extension_type_into (UnknownType unknown) = unknown"

fun extension_type_is_default :: "extension_type \<Rightarrow> bool" where
  "extension_type_is_default (UnknownType _) = False"
| "extension_type_is_default _ = True"

fun is_valid_in_leaf_node :: "extension_type \<Rightarrow> bool option" where
  "is_valid_in_leaf_node ApplicationId = Some False"
| "is_valid_in_leaf_node RatchetTreeType = Some False"
| "is_valid_in_leaf_node RequiredCapabilities = Some False"
| "is_valid_in_leaf_node ExternalPub = Some False"
| "is_valid_in_leaf_node ExternalSenders = Some False"
| "is_valid_in_leaf_node LastResort = Some True"
| "is_valid_in_leaf_node (UnknownType _) = None"

datatype credential_type = Basic | X509 | OtherCredential "16 word"

definition credential_type_from :: "16 word \<Rightarrow> credential_type" where
  "credential_type_from value =
     (if value = 1 then Basic else if value = 2 then X509 else OtherCredential value)"

fun credential_type_into :: "credential_type \<Rightarrow> 16 word" where
  "credential_type_into Basic = 1"
| "credential_type_into X509 = 2"
| "credential_type_into (OtherCredential other) = other"

datatype proposal_type =
    AddType
  | UpdateType
  | RemoveType
  | PreSharedKeyType
  | ReinitType
  | ExternalInitType
  | GroupContextExtensionsType
  | AppAckType
  | CustomType "16 word"

fun proposal_type_is_default :: "proposal_type \<Rightarrow> bool" where
  "proposal_type_is_default AppAckType = False"
| "proposal_type_is_default (CustomType _) = False"
| "proposal_type_is_default _ = True"

fun proposal_type_is_path_required :: "proposal_type \<Rightarrow> bool" where
  "proposal_type_is_path_required AddType = True"
| "proposal_type_is_path_required UpdateType = True"
| "proposal_type_is_path_required RemoveType = True"
| "proposal_type_is_path_required ExternalInitType = True"
| "proposal_type_is_path_required GroupContextExtensionsType = True"
| "proposal_type_is_path_required _ = False"

definition proposal_type_from :: "16 word \<Rightarrow> proposal_type" where
  "proposal_type_from value =
     (if value = 1 then AddType
      else if value = 2 then UpdateType
      else if value = 3 then RemoveType
      else if value = 4 then PreSharedKeyType
      else if value = 5 then ReinitType
      else if value = 6 then ExternalInitType
      else if value = 7 then GroupContextExtensionsType
      else if value = 8 then AppAckType
      else CustomType value)"

fun proposal_type_into :: "proposal_type \<Rightarrow> 16 word" where
  "proposal_type_into AddType = 1"
| "proposal_type_into UpdateType = 2"
| "proposal_type_into RemoveType = 3"
| "proposal_type_into PreSharedKeyType = 4"
| "proposal_type_into ReinitType = 5"
| "proposal_type_into ExternalInitType = 6"
| "proposal_type_into GroupContextExtensionsType = 7"
| "proposal_type_into AppAckType = 8"
| "proposal_type_into (CustomType other) = other"

section \<open>Extension lists\<close>

record credential =
  cred_type :: credential_type
  serialized_content :: bytes

record external_sender =
  external_signature_key :: bytes
  external_credential :: credential

record required_capabilities_extension =
  extension_types :: "extension_type list"
  proposal_types :: "proposal_type list"
  credential_types :: "credential_type list"

text \<open>
  The content of the extensions that the modelled code hands on without reading it is kept in
  its encoded form.
\<close>

datatype extension =
    ApplicationIdExtension bytes
  | RatchetTreeExtension bytes
  | RequiredCapabilitiesExtension required_capabilities_extension
  | ExternalPubExtension bytes
  | ExternalSendersExtension "external_sender list"
  | LastResortExtension
  | UnknownExtension "16 word" bytes

fun extension_type_of :: "extension \<Rightarrow> extension_type" where
  "extension_type_of (ApplicationIdExtension _) = ApplicationId"
| "extension_type_of (RatchetTreeExtension _) = RatchetTreeType"
| "extension_type_of (RequiredCapabilitiesExtension _) = RequiredCapabilities"
| "extension_type_of (ExternalPubExtension _) = ExternalPub"
| "extension_type_of (ExternalSendersExtension _) = ExternalSenders"
| "extension_type_of LastResortExtension = LastResort"
| "extension_type_of (UnknownExtension kind _) = UnknownType kind"

datatype invalid_extension_error = Duplicate | NotFound | IllegalInGroupContext | IllegalInLeafNodes

type_synonym extensions = "extension list"

definition extensions_contains :: "extensions \<Rightarrow> extension_type \<Rightarrow> bool" where
  "extensions_contains unique ty = list_ex (\<lambda>ext. extension_type_of ext = ty) unique"

definition extensions_add :: "extensions \<Rightarrow> extension \<Rightarrow> invalid_extension_error + extensions" where
  "extensions_add unique ext =
     (if extensions_contains unique (extension_type_of ext) then Inl Duplicate
      else Inr (unique @ [ext]))"

text \<open>The first extension of the type is taken out and returned.\<close>

fun extensions_remove :: "extensions \<Rightarrow> extension_type \<Rightarrow> extension option \<times> extensions" where
  "extensions_remove [] ty = (None, [])"
| "extensions_remove (ext # unique) ty =
     (if extension_type_of ext = ty then (Some ext, unique)
      else (let (removed, rest) = extensions_remove unique ty in (removed, ext # rest)))"

definition extensions_add_or_replace :: "extensions \<Rightarrow> extension \<Rightarrow> extension option \<times> extensions" where
  "extensions_add_or_replace unique ext =
     (let (replaced, rest) = extensions_remove unique (extension_type_of ext)
      in (replaced, rest @ [ext]))"

fun extensions_try_from_loop ::
  "extension list \<Rightarrow> extensions \<Rightarrow> invalid_extension_error + extensions" where
  "extensions_try_from_loop [] unique = Inr unique"
| "extensions_try_from_loop (ext # candidate) unique =
     (if list_ex (\<lambda>e. extension_type_of e = extension_type_of ext) unique then Inl Duplicate
      else extensions_try_from_loop candidate (unique @ [ext]))"

definition extensions_try_from :: "extension list \<Rightarrow> invalid_extension_error + extensions" where
  "extensions_try_from candidate = extensions_try_from_loop candidate []"

definition find_by_type :: "extensions \<Rightarrow> extension_type \<Rightarrow> extension option" where
  "find_by_type unique ty = find (\<lambda>ext. extension_type_of ext = ty) unique"

definition extensions_required_capabilities ::
  "extensions \<Rightarrow> required_capabilities_extension option" where
  "extensions_required_capabilities unique =
     (case find_by_type unique RequiredCapabilities of
        Some (RequiredCapabilitiesExtension e) \<Rightarrow> Some e
      | _ \<Rightarrow> None)"

definition extensions_external_senders :: "extensions \<Rightarrow> external_sender list option" where
  "extensions_external_senders unique =
     (case find_by_type unique ExternalSenders of
        Some (ExternalSendersExtension e) \<Rightarrow> Some e
      | _ \<Rightarrow> None)"

definition extensions_external_pub :: "extensions \<Rightarrow> bytes option" where
  "extensions_external_pub unique =
     (case find_by_type unique ExternalPub of
        Some (ExternalPubExtension e) \<Rightarrow> Some e
      | _ \<Rightarrow> None)"

definition extensions_ratchet_tree :: "extensions \<Rightarrow> bytes option" where
  "extensions_ratchet_tree unique =
     (case find_by_type unique RatchetTreeType of
        Some (RatchetTreeExtension e) \<Rightarrow> Some e
      | _ \<Rightarrow> None)"

definition extensions_unknown :: "extensions \<Rightarrow> 16 word \<Rightarrow> bytes option" where
  "extensions_unknown unique type_id =
     (case extension_type_from type_id of
        UnknownType _ \<Rightarrow>
          (case find_by_type unique (extension_type_from type_id) of
             Some (UnknownExtension _ e) \<Rightarrow> Some e
           | _ \<Rightarrow> None)
      | _ \<Rightarrow> None)"

section \<open>Capabilities\<close>

text \<open>A verifiable ciphersuite is the code point of a suite the client may not know.\<close>

record capabilities =
  cap_versions :: "protocol_version list"
  cap_ciphersuites :: "16 word list"
  cap_extensions :: "extension_type list"
  cap_proposals :: "proposal_type list"
  cap_credentials :: "credential_type list"

datatype lifetime_error = RangeTooBig | NotCurrent

datatype leaf_node_validation_error =
    LifetimeNotAcceptable lifetime_error
  | UnsupportedExtensions
  | UnsupportedProposals
  | UnsupportedCredentials
  | CredentialNotInCapabilities
  | ExtensionsNotInCapabilities
  | CiphersuiteNotInCapabilities
  | SignatureKeyAlreadyInUse
  | EncryptionKeyAlreadyInUse
  | InvalidLeafNodeSource
  | LeafNodeCredentialNotSupportedByMember
  | MemberCredentialNotSupportedByLeafNode

definition default_versions :: "protocol_version list" where
  "default_versions = [Mls10]"

text \<open>The code points of the four suites \<open>default_ciphersuites\<close> names.\<close>

definition default_ciphersuites :: "16 word list" where
  "default_ciphersuites = [0x0001, 0x0002, 0x0003, 0x004D]"

definition default_credentials :: "credential_type list" where
  "default_credentials = [Basic]"

definition capabilities_new ::
  "protocol_version list option \<Rightarrow> 16 word list option \<Rightarrow> extension_type list option \<Rightarrow>
   proposal_type list option \<Rightarrow> credential_type list option \<Rightarrow> capabilities" where
  "capabilities_new versions ciphersuites exts proposals creds =
     \<lparr>cap_versions = (case versions of Some v \<Rightarrow> v | None \<Rightarrow> default_versions),
      cap_ciphersuites = (case ciphersuites of Some c \<Rightarrow> c | None \<Rightarrow> default_ciphersuites),
      cap_extensions = (case exts of Some e \<Rightarrow> e | None \<Rightarrow> []),
      cap_proposals = (case proposals of Some p \<Rightarrow> p | None \<Rightarrow> []),
      cap_credentials = (case creds of Some c \<Rightarrow> c | None \<Rightarrow> default_credentials)\<rparr>"

definition capabilities_empty :: capabilities where
  "capabilities_empty =
     \<lparr>cap_versions = [], cap_ciphersuites = [], cap_extensions = [], cap_proposals = [],
      cap_credentials = []\<rparr>"

definition contains_extensions :: "capabilities \<Rightarrow> extensions \<Rightarrow> bool" where
  "contains_extensions caps exts =
     list_all (\<lambda>e. extension_type_is_default e \<or> e \<in> set (cap_extensions caps))
       (map extension_type_of exts)"

definition contains_credential :: "capabilities \<Rightarrow> credential_type \<Rightarrow> bool" where
  "contains_credential caps ty = (ty \<in> set (cap_credentials caps))"

definition contains_extension :: "capabilities \<Rightarrow> extension_type \<Rightarrow> bool" where
  "contains_extension caps ty = (extension_type_is_default ty \<or> ty \<in> set (cap_extensions caps))"

definition contains_proposal :: "capabilities \<Rightarrow> proposal_type \<Rightarrow> bool" where
  "contains_proposal caps ty = (proposal_type_is_default ty \<or> ty \<in> set (cap_proposals caps))"

definition contains_version :: "capabilities \<Rightarrow> protocol_version \<Rightarrow> bool" where
  "contains_version caps v = (v \<in> set (cap_versions caps))"

definition contains_ciphersuite :: "capabilities \<Rightarrow> 16 word \<Rightarrow> bool" where
  "contains_ciphersuite caps c = (c \<in> set (cap_ciphersuites caps))"

definition supports_required_capabilities ::
  "capabilities \<Rightarrow> required_capabilities_extension \<Rightarrow> leaf_node_validation_error + unit" where
  "supports_required_capabilities caps required =
     (if filter (\<lambda>e. \<not> contains_extension caps e) (extension_types required) \<noteq> []
      then Inl UnsupportedExtensions
      else if list_ex (\<lambda>p. \<not> contains_proposal caps p) (proposal_types required)
      then Inl UnsupportedProposals
      else if list_ex (\<lambda>c. \<not> contains_credential caps c) (credential_types required)
      then Inl UnsupportedCredentials
      else Inr ())"

section \<open>Lifetimes\<close>

record lifetime =
  not_before :: "64 word"
  not_after :: "64 word"

definition default_key_package_lifetime_seconds :: "64 word" where
  "default_key_package_lifetime_seconds = 60 * 60 * 24 * 28 * 3"

definition default_key_package_lifetime_margin_seconds :: "64 word" where
  "default_key_package_lifetime_margin_seconds = 60 * 60"

definition max_leaf_node_lifetime_range_seconds :: "64 word" where
  "max_leaf_node_lifetime_range_seconds =
     default_key_package_lifetime_margin_seconds + default_key_package_lifetime_seconds"

text \<open>The system clock is an argument: the seconds since the epoch, or an error before it.\<close>

definition lifetime_new :: "64 word \<Rightarrow> 64 word \<Rightarrow> lifetime" where
  "lifetime_new now t =
     \<lparr>not_before = now - default_key_package_lifetime_margin_seconds, not_after = now + t\<rparr>"

definition lifetime_default :: "64 word \<Rightarrow> lifetime" where
  "lifetime_default now = lifetime_new now default_key_package_lifetime_seconds"

definition lifetime_is_valid :: "64 word option \<Rightarrow> lifetime \<Rightarrow> bool" where
  "lifetime_is_valid now l =
     (case now of
        Some elapsed \<Rightarrow> not_before l < elapsed \<and> elapsed < not_after l
      | None \<Rightarrow> False)"

definition saturating_sub :: "64 word \<Rightarrow> 64 word \<Rightarrow> 64 word" where
  "saturating_sub a b = (if b \<le> a then a - b else 0)"

definition has_acceptable_range :: "lifetime \<Rightarrow> bool" where
  "has_acceptable_range l =
     (saturating_sub (not_after l) (not_before l) \<le> max_leaf_node_lifetime_range_seconds)"

section \<open>Credentials and leaf nodes\<close>

text \<open>\<open>identity\<close> panics on a credential that is not basic.\<close>

definition credential_identity :: "credential \<Rightarrow> bytes option" where
  "credential_identity c = (case cred_type c of Basic \<Rightarrow> Some (serialized_content c) | _ \<Rightarrow> None)"

record credential_with_key =
  cwk_credential :: credential
  cwk_signature_key :: bytes

datatype leaf_node_source = SourceKeyPackage lifetime | SourceUpdate | SourceCommit bytes

record leaf_node_payload =
  leaf_encryption_key :: bytes
  leaf_signature_key :: bytes
  leaf_credential :: credential
  leaf_capabilities :: capabilities
  leaf_source :: leaf_node_source
  leaf_extensions :: extensions

record leaf_node =
  leaf_payload :: leaf_node_payload
  leaf_signature :: bytes

definition leaf_parent_hash :: "leaf_node \<Rightarrow> bytes option" where
  "leaf_parent_hash l =
     (case leaf_source (leaf_payload l) of SourceCommit ph \<Rightarrow> Some ph | _ \<Rightarrow> None)"

definition leaf_life_time :: "leaf_node \<Rightarrow> lifetime option" where
  "leaf_life_time l =
     (case leaf_source (leaf_payload l) of SourceKeyPackage t \<Rightarrow> Some t | _ \<Rightarrow> None)"

definition leaf_supports_extension :: "leaf_node \<Rightarrow> extension_type \<Rightarrow> bool" where
  "leaf_supports_extension l ty =
     (extension_type_is_default ty \<or> ty \<in> set (cap_extensions (leaf_capabilities (leaf_payload l))))"

fun check_extension_support ::
  "leaf_node \<Rightarrow> extension_type list \<Rightarrow> leaf_node_validation_error + unit" where
  "check_extension_support l [] = Inr ()"
| "check_extension_support l (required # exts) =
     (if \<not> leaf_supports_extension l required then Inl UnsupportedExtensions
      else check_extension_support l exts)"

definition validate_locally :: "leaf_node \<Rightarrow> leaf_node_validation_error + unit" where
  "validate_locally l =
     (let exts = leaf_extensions (leaf_payload l);
          caps = leaf_capabilities (leaf_payload l)
      in if filter (\<lambda>e. is_valid_in_leaf_node (extension_type_of e) = Some False) exts \<noteq> []
         then Inl UnsupportedExtensions
         else if \<not> contains_extensions caps exts then Inl UnsupportedExtensions
         else if \<not> contains_credential caps (cred_type (leaf_credential (leaf_payload l)))
         then Inl UnsupportedCredentials
         else Inr ())"

definition leaf_new_placeholder :: "leaf_node" where
  "leaf_new_placeholder =
     \<lparr>leaf_payload =
        \<lparr>leaf_encryption_key = [], leaf_signature_key = [],
         leaf_credential = \<lparr>cred_type = Basic, serialized_content = []\<rparr>,
         leaf_capabilities = capabilities_new None None None None None,
         leaf_source = SourceUpdate, leaf_extensions = []\<rparr>,
      leaf_signature = []\<rparr>"

section \<open>Signing and verifying leaf nodes\<close>

record tree_position =
  position_group_id :: bytes
  position_leaf_index :: nat

datatype tree_info_tbs = TbsKeyPackage | TbsUpdate tree_position | TbsCommit tree_position

record leaf_node_tbs =
  tbs_payload :: leaf_node_payload
  tbs_tree_info :: tree_info_tbs

text \<open>The derived TLS codecs, the signer and the signature check are arguments.\<close>

record leaf_codec =
  tls_leaf_payload :: "leaf_node_payload \<Rightarrow> bytes option"
  tls_tree_position :: "tree_position \<Rightarrow> bytes option"
  tls_sign_content :: "string \<Rightarrow> bytes \<Rightarrow> bytes option"

datatype signature_error = VerificationError | SigningError

definition leaf_node_signature_label :: string where
  "leaf_node_signature_label = ''LeafNodeTBS''"

fun tree_info_tbs_serialize :: "leaf_codec \<Rightarrow> tree_info_tbs \<Rightarrow> bytes option" where
  "tree_info_tbs_serialize C TbsKeyPackage = Some []"
| "tree_info_tbs_serialize C (TbsUpdate p) = tls_tree_position C p"
| "tree_info_tbs_serialize C (TbsCommit p) = tls_tree_position C p"

definition leaf_tbs_serialize :: "leaf_codec \<Rightarrow> leaf_node_tbs \<Rightarrow> bytes option" where
  "leaf_tbs_serialize C tbs =
     (case tls_leaf_payload C (tbs_payload tbs) of
        None \<Rightarrow> None
      | Some payload \<Rightarrow>
          map_option (\<lambda>info. payload @ info) (tree_info_tbs_serialize C (tbs_tree_info tbs)))"

definition leaf_tbs_new ::
  "bytes \<Rightarrow> credential_with_key \<Rightarrow> capabilities \<Rightarrow> leaf_node_source \<Rightarrow> extensions \<Rightarrow> tree_info_tbs \<Rightarrow>
   leaf_node_tbs" where
  "leaf_tbs_new key cwk caps source exts tree_info =
     \<lparr>tbs_payload =
        \<lparr>leaf_encryption_key = key, leaf_signature_key = cwk_signature_key cwk,
         leaf_credential = cwk_credential cwk, leaf_capabilities = caps, leaf_source = source,
         leaf_extensions = exts\<rparr>,
      tbs_tree_info = tree_info\<rparr>"

definition leaf_tbs_sign ::
  "leaf_codec \<Rightarrow> (bytes \<Rightarrow> bytes option) \<Rightarrow> leaf_node_tbs \<Rightarrow> signature_error + leaf_node" where
  "leaf_tbs_sign C signer tbs =
     (case leaf_tbs_serialize C tbs of
        None \<Rightarrow> Inl SigningError
      | Some payload \<Rightarrow>
          (case tls_sign_content C leaf_node_signature_label payload of
             None \<Rightarrow> Inl SigningError
           | Some content \<Rightarrow>
               (case signer content of
                  None \<Rightarrow> Inl SigningError
                | Some signature \<Rightarrow>
                    Inr \<lparr>leaf_payload = tbs_payload tbs, leaf_signature = signature\<rparr>)))"

definition leaf_new_with_key ::
  "leaf_codec \<Rightarrow> (bytes \<Rightarrow> bytes option) \<Rightarrow> bytes \<Rightarrow> credential_with_key \<Rightarrow> leaf_node_source \<Rightarrow>
   capabilities \<Rightarrow> extensions \<Rightarrow> tree_info_tbs \<Rightarrow> library_error + leaf_node" where
  "leaf_new_with_key C signer key cwk source caps exts tree_info =
     (case leaf_tbs_sign C signer (leaf_tbs_new key cwk caps source exts tree_info) of
        Inl _ \<Rightarrow> Inl (CustomError ''Signing failed'')
      | Inr leaf \<Rightarrow> Inr leaf)"

text \<open>A key pair drawn from the random source is an argument, as is its failure.\<close>

record encryption_key_pair =
  kp_public_key :: bytes
  kp_private_key :: bytes

definition leaf_new ::
  "leaf_codec \<Rightarrow> (bytes \<Rightarrow> bytes option) \<Rightarrow> library_error + encryption_key_pair \<Rightarrow>
   credential_with_key \<Rightarrow> leaf_node_source \<Rightarrow> capabilities \<Rightarrow> extensions \<Rightarrow> tree_info_tbs \<Rightarrow>
   library_error + leaf_node \<times> encryption_key_pair" where
  "leaf_new C signer random_pair cwk source caps exts tree_info =
     try_bind random_pair (\<lambda>pair.
     try_bind (leaf_new_with_key C signer (kp_public_key pair) cwk source caps exts tree_info)
       (\<lambda>leaf. Inr (leaf, pair)))"

record update_leaf_node_params =
  ulp_credential_with_key :: credential_with_key
  ulp_capabilities :: capabilities
  ulp_extensions :: extensions

definition leaf_new_with_parent_hash ::
  "leaf_codec \<Rightarrow> (bytes \<Rightarrow> bytes option) \<Rightarrow> library_error + encryption_key_pair \<Rightarrow> bytes \<Rightarrow>
   update_leaf_node_params \<Rightarrow> bytes \<Rightarrow> nat \<Rightarrow> library_error + leaf_node \<times> encryption_key_pair" where
  "leaf_new_with_parent_hash C signer random_pair parent_hash params group_id leaf_index =
     try_bind random_pair (\<lambda>pair.
       case leaf_tbs_sign C signer
              (leaf_tbs_new (kp_public_key pair) (ulp_credential_with_key params)
                 (ulp_capabilities params) (SourceCommit parent_hash) (ulp_extensions params)
                 (TbsCommit \<lparr>position_group_id = group_id, position_leaf_index = leaf_index\<rparr>)) of
         Inl _ \<Rightarrow> Inl (CustomError ''Signing failed'')
       | Inr leaf \<Rightarrow> Inr (leaf, pair))"

datatype verifiable_leaf_node =
    VerifiableKeyPackage leaf_node_payload bytes
  | VerifiableUpdate leaf_node_payload bytes "tree_position option"
  | VerifiableCommit leaf_node_payload bytes "tree_position option"

definition into_verifiable_leaf_node :: "leaf_node \<Rightarrow> verifiable_leaf_node" where
  "into_verifiable_leaf_node l =
     (case leaf_source (leaf_payload l) of
        SourceKeyPackage _ \<Rightarrow> VerifiableKeyPackage (leaf_payload l) (leaf_signature l)
      | SourceUpdate \<Rightarrow> VerifiableUpdate (leaf_payload l) (leaf_signature l) None
      | SourceCommit _ \<Rightarrow> VerifiableCommit (leaf_payload l) (leaf_signature l) None)"

fun add_tree_position :: "tree_position \<Rightarrow> verifiable_leaf_node \<Rightarrow> verifiable_leaf_node" where
  "add_tree_position pos (VerifiableUpdate p s _) = VerifiableUpdate p s (Some pos)"
| "add_tree_position pos (VerifiableCommit p s _) = VerifiableCommit p s (Some pos)"
| "add_tree_position pos (VerifiableKeyPackage p s) = VerifiableKeyPackage p s"

fun verifiable_parts :: "verifiable_leaf_node \<Rightarrow> leaf_node_payload \<times> bytes" where
  "verifiable_parts (VerifiableKeyPackage p s) = (p, s)"
| "verifiable_parts (VerifiableUpdate p s _) = (p, s)"
| "verifiable_parts (VerifiableCommit p s _) = (p, s)"

fun verifiable_unsigned_payload :: "leaf_codec \<Rightarrow> verifiable_leaf_node \<Rightarrow> bytes option" where
  "verifiable_unsigned_payload C (VerifiableKeyPackage p s) = tls_leaf_payload C p"
| "verifiable_unsigned_payload C (VerifiableUpdate p s pos) =
     (case pos of
        Some q \<Rightarrow> leaf_tbs_serialize C \<lparr>tbs_payload = p, tbs_tree_info = TbsCommit q\<rparr>
      | None \<Rightarrow> None)"
| "verifiable_unsigned_payload C (VerifiableCommit p s pos) =
     (case pos of
        Some q \<Rightarrow> leaf_tbs_serialize C \<lparr>tbs_payload = p, tbs_tree_info = TbsCommit q\<rparr>
      | None \<Rightarrow> None)"

definition verifiable_verify ::
  "leaf_codec \<Rightarrow> (bytes \<Rightarrow> bytes \<Rightarrow> bytes \<Rightarrow> bool) \<Rightarrow> bytes \<Rightarrow> verifiable_leaf_node \<Rightarrow>
   signature_error + leaf_node" where
  "verifiable_verify C verify_signature pk v =
     (case verifiable_unsigned_payload C v of
        None \<Rightarrow> Inl VerificationError
      | Some payload \<Rightarrow>
          (case tls_sign_content C leaf_node_signature_label payload of
             None \<Rightarrow> Inl VerificationError
           | Some content \<Rightarrow>
               (case verifiable_parts v of
                  (p, s) \<Rightarrow>
                    if verify_signature pk content s
                    then Inr \<lparr>leaf_payload = p, leaf_signature = s\<rparr>
                    else Inl VerificationError)))"

section \<open>Code points are kept by decoding and encoding\<close>

lemmas code_point_defs = protocol_version_from_def extension_type_from_def credential_type_from_def
  proposal_type_from_def

lemma code_points_into_from:
  "protocol_version_into (protocol_version_from a) = a"
  "extension_type_into (extension_type_from a) = a"
  "credential_type_into (credential_type_from a) = a"
  "proposal_type_into (proposal_type_from a) = a"
  by (simp_all add: code_point_defs)

section \<open>Extension lists hold at most one extension of a type\<close>

definition unique_extensions :: "extensions \<Rightarrow> bool" where
  "unique_extensions exts \<longleftrightarrow> distinct (map extension_type_of exts)"

lemma extensions_contains_iff: "extensions_contains exts ty \<longleftrightarrow> ty \<in> extension_type_of ` set exts"
  by (auto simp: extensions_contains_def list_ex_iff)

lemma find_by_type_Some_iff:
  "unique_extensions exts \<Longrightarrow>
     find_by_type exts ty = Some e \<longleftrightarrow> e \<in> set exts \<and> extension_type_of e = ty"
  by (induction exts) (auto simp: find_by_type_def unique_extensions_def)

lemma extensions_try_from_loop_eq:
  "unique_extensions unique \<Longrightarrow>
     extensions_try_from_loop candidate unique =
       (if unique_extensions (unique @ candidate) then Inr (unique @ candidate) else Inl Duplicate)"
proof (induction candidate unique rule: extensions_try_from_loop.induct)
  case (2 ext candidate unique)
  show ?case
  proof (cases "extension_type_of ext \<in> extension_type_of ` set unique")
    case True
    then show ?thesis by (auto simp: unique_extensions_def list_ex_iff)
  next
    case False
    then have "\<not> list_ex (\<lambda>e. extension_type_of e = extension_type_of ext) unique"
      by (auto simp: list_ex_iff image_iff)
    with 2 False show ?thesis by (simp add: unique_extensions_def)
  qed
qed simp

lemma extensions_remove_spec:
  assumes "unique_extensions exts"
  shows "extensions_remove exts ty =
    (find_by_type exts ty, filter (\<lambda>e. extension_type_of e \<noteq> ty) exts)"
  using assms
proof (induction exts)
  case (Cons e exts)
  then have "filter (\<lambda>e'. extension_type_of e' \<noteq> ty) exts = exts" if "extension_type_of e = ty"
    using that by (auto simp: unique_extensions_def filter_id_conv image_iff)
  with Cons show ?case by (auto simp: find_by_type_def unique_extensions_def)
qed (simp add: find_by_type_def)

lemma unique_extensions_filter: "unique_extensions exts \<Longrightarrow> unique_extensions (filter P exts)"
  by (induction exts) (auto simp: unique_extensions_def)

lemma extensions_add_or_replace_spec:
  assumes "unique_extensions exts" and "extensions_add_or_replace exts e = (replaced, exts')"
  shows "replaced = find_by_type exts (extension_type_of e)" and "unique_extensions exts'"
    and "find_by_type exts' ty
      = (if ty = extension_type_of e then Some e else find_by_type exts ty)"
proof -
  let ?rest = "filter (\<lambda>e'. extension_type_of e' \<noteq> extension_type_of e) exts"
  have r: "replaced = find_by_type exts (extension_type_of e)" and e: "exts' = ?rest @ [e]"
    using assms by (simp_all add: extensions_add_or_replace_def extensions_remove_spec)
  show "replaced = find_by_type exts (extension_type_of e)" by (rule r)
  show "unique_extensions exts'"
    using unique_extensions_filter [OF assms(1)] unfolding e by (auto simp: unique_extensions_def)
  show "find_by_type exts' ty = (if ty = extension_type_of e then Some e else find_by_type exts ty)"
    unfolding e find_by_type_def by (induction exts) auto
qed

section \<open>Local validation and required capabilities\<close>

lemma validate_locally_iff:
  "validate_locally l = Inr () \<longleftrightarrow>
     (\<forall>e \<in> set (leaf_extensions (leaf_payload l)).
        is_valid_in_leaf_node (extension_type_of e) \<noteq> Some False \<and>
        leaf_supports_extension l (extension_type_of e)) \<and>
     cred_type (leaf_credential (leaf_payload l))
       \<in> set (cap_credentials (leaf_capabilities (leaf_payload l)))"
  by (auto simp: validate_locally_def Let_def filter_empty_conv contains_extensions_def list_all_iff
      contains_credential_def leaf_supports_extension_def)

lemma check_extension_support_iff:
  "check_extension_support l exts = Inr () \<longleftrightarrow> (\<forall>ty \<in> set exts. leaf_supports_extension l ty)"
  by (induction exts) auto

lemma supports_required_capabilities_iff:
  "supports_required_capabilities caps required = Inr () \<longleftrightarrow>
     (\<forall>e \<in> set (extension_types required). contains_extension caps e) \<and>
     (\<forall>p \<in> set (proposal_types required). contains_proposal caps p) \<and>
     (\<forall>c \<in> set (credential_types required). contains_credential caps c)"
  by (auto simp: supports_required_capabilities_def filter_empty_conv list_ex_iff)

section \<open>A signed leaf verifies at its position\<close>

fun tree_info_matches :: "leaf_node_source \<Rightarrow> tree_position \<Rightarrow> tree_info_tbs \<Rightarrow> bool" where
  "tree_info_matches (SourceKeyPackage _) pos info \<longleftrightarrow> info = TbsKeyPackage"
| "tree_info_matches SourceUpdate pos info \<longleftrightarrow> info = TbsUpdate pos"
| "tree_info_matches (SourceCommit _) pos info \<longleftrightarrow> info = TbsCommit pos"

lemma sign_verify_roundtrip:
  assumes "leaf_tbs_sign C signer tbs = Inr leaf"
    and "tree_info_matches (leaf_source (tbs_payload tbs)) pos (tbs_tree_info tbs)"
    and "\<And>m s. signer m = Some s \<Longrightarrow> verify_signature pk m s"
  shows "verifiable_verify C verify_signature pk
      (add_tree_position pos (into_verifiable_leaf_node leaf)) = Inr leaf"
proof -
  obtain payload content sig
    where p: "leaf_tbs_serialize C tbs = Some payload"
      and c: "tls_sign_content C leaf_node_signature_label payload = Some content"
      and s: "signer content = Some sig"
      and leaf: "leaf = \<lparr>leaf_payload = tbs_payload tbs, leaf_signature = sig\<rparr>"
    using assms(1) by (auto simp: leaf_tbs_sign_def split: option.splits)
  have "verify_signature pk content sig" using s by (rule assms(3))
  moreover have "verifiable_unsigned_payload C
      (add_tree_position pos (into_verifiable_leaf_node leaf)) = Some payload"
    using assms(2) p
    by (cases "leaf_source (tbs_payload tbs)")
      (auto simp: leaf into_verifiable_leaf_node_def leaf_tbs_serialize_def split: option.splits)
  moreover have "verifiable_parts (add_tree_position pos (into_verifiable_leaf_node leaf))
      = (tbs_payload tbs, sig)"
    by (cases "leaf_source (tbs_payload tbs)") (simp_all add: leaf into_verifiable_leaf_node_def)
  ultimately show ?thesis
    using c by (simp add: verifiable_verify_def leaf)
qed

section \<open>Fresh lifetimes\<close>

lemma lifetime_new_valid:
  fixes now t :: "64 word"
  assumes "3600 \<le> now" and "unat now + unat t < 2 ^ 64"
  shows "lifetime_is_valid (Some now) (lifetime_new now t) \<longleftrightarrow> 0 < t"
    and "has_acceptable_range (lifetime_new now t) \<longleftrightarrow> t \<le> default_key_package_lifetime_seconds"
proof -
  let ?before = "now - default_key_package_lifetime_margin_seconds"
  note secs = default_key_package_lifetime_margin_seconds_def
    default_key_package_lifetime_seconds_def max_leaf_node_lifetime_range_seconds_def
  have before: "unat ?before = unat now - 3600"
    using assms(1) by (simp add: unat_sub secs)
  have after: "unat (now + t) = unat now + unat t"
    using assms(2) by (simp add: unat_add_lem [THEN iffD1])
  have ge: "3600 \<le> unat now"
    using assms(1) by (simp add: word_le_nat_alt)
  show "lifetime_is_valid (Some now) (lifetime_new now t) \<longleftrightarrow> 0 < t"
    using before after ge
    by (auto simp: lifetime_is_valid_def lifetime_new_def word_less_nat_alt unat_eq_0)
  have "?before \<le> now + t"
    using before after ge by (simp add: word_le_nat_alt)
  moreover have "now + t - ?before = t + 3600"
    by (simp add: secs)
  moreover have "unat (t + 3600) = unat t + 3600"
    using assms(2) ge by (subst unat_add_lem [THEN iffD1]) simp_all
  ultimately show "has_acceptable_range (lifetime_new now t) \<longleftrightarrow>
      t \<le> default_key_package_lifetime_seconds"
    by (simp add: has_acceptable_range_def lifetime_new_def saturating_sub_def word_le_nat_alt secs)
qed

end
