(* ===== verification/Tree_Math.thy ===== *)
theory Tree_Math
  imports Mls_Prelude
begin

unbundle bit_operations_syntax

text \<open>
  Index arithmetic of the array representation of a full, left-balanced binary tree
  (\<open>binary_tree/array_representation/treemath.rs\<close>). A leaf index and a parent index are the
  \<open>u32\<close> payloads of \<open>LeafNodeIndex\<close> and \<open>ParentNodeIndex\<close>; a tree index interleaves them,
  leaves at even and parents at odd positions.

  The bit manipulations of the source are related to coordinates: the node at height \<open>k\<close>
  and position \<open>m\<close> (counted from the left on its level) has the tree index
  \<open>2 ^ k * (2 * m + 1) - 1\<close>. Every navigation function is shown to compute on coordinates
  what its name says.
\<close>

named_theorems tree_nav \<open>the navigation functions on coordinates\<close>

section \<open>Definitions\<close>

definition max_tree_size :: nat where
  "max_tree_size = 2 ^ 30"

definition min_tree_size :: nat where
  "min_tree_size = 1"

subsection \<open>Node indices\<close>

definition leaf_to_tree_index :: "nat \<Rightarrow> nat" where
  "leaf_to_tree_index i = wrap32 (i * 2)"

definition leaf_from_tree_index :: "nat \<Rightarrow> nat" where
  "leaf_from_tree_index n = n div 2"

definition parent_to_tree_index :: "nat \<Rightarrow> nat" where
  "parent_to_tree_index i = wrap32 (wrap32 (i * 2) + 1)"

definition parent_from_tree_index :: "nat \<Rightarrow> nat" where
  "parent_from_tree_index n = sub32 n 1 div 2"

datatype tree_node_index = Leaf nat | Parent nat

definition tree_node_index_new :: "nat \<Rightarrow> tree_node_index" where
  "tree_node_index_new n =
     (if n mod 2 = 0 then Leaf (leaf_from_tree_index n) else Parent (parent_from_tree_index n))"

fun tree_node_index_u32 :: "tree_node_index \<Rightarrow> nat" where
  "tree_node_index_u32 (Leaf i) = leaf_to_tree_index i"
| "tree_node_index_u32 (Parent i) = parent_to_tree_index i"

subsection \<open>Tree sizes\<close>

text \<open>A \<open>TreeSize\<close> is its \<open>u32\<close> payload, the number of nodes of a full tree.\<close>

definition log2 :: "nat \<Rightarrow> nat" where
  "log2 x = (if x = 0 then 0 else 31 - leading_zeros32 x)"

definition tree_size_new :: "nat \<Rightarrow> nat" where
  "tree_size_new nodes = sub32 (shl32 1 (log2 nodes + 1)) 1"

definition from_leaf_count :: "nat \<Rightarrow> nat" where
  "from_leaf_count leaf_count = tree_size_new (wrap32 (leaf_count * 2))"

definition leaf_count :: "nat \<Rightarrow> nat" where
  "leaf_count sz = sz div 2 + 1"

definition parent_count :: "nat \<Rightarrow> nat" where
  "parent_count sz = sz div 2"

definition leaf_is_left :: "nat \<Rightarrow> nat \<Rightarrow> bool" where
  "leaf_is_left sz leaf_index \<longleftrightarrow> leaf_index < leaf_count sz div 2"

definition tree_size_inc :: "nat \<Rightarrow> nat" where
  "tree_size_inc sz = wrap32 (wrap32 (sz * 2) + 1)"

definition tree_size_dec :: "nat \<Rightarrow> nat" where
  "tree_size_dec sz = (if 2 \<le> sz then wrap32 (sz + 1) div 2 - 1 else 0)"

subsection \<open>Navigation\<close>

text \<open>
  The loop of \<open>level\<close> counts the trailing one bits. It returns for every index but
  \<open>u32::MAX\<close>, whose shift amount reaches the word width: a release build takes it modulo 32
  and starts over, a debug build panics. No tree holds that index.
\<close>

partial_function (option) level_loop :: "nat \<Rightarrow> nat \<Rightarrow> nat option" where
  "level_loop x k = (if odd (shr32 x k) then level_loop x (k + 1) else Some k)"

definition level :: "nat \<Rightarrow> nat" where
  "level index = (if even index then 0
     else case level_loop index 0 of Some k \<Rightarrow> k | None \<Rightarrow> 32)"

definition root :: "nat \<Rightarrow> tree_node_index" where
  "root sz = tree_node_index_new (sub32 (shl32 1 (log2 sz)) 1)"

definition left :: "nat \<Rightarrow> tree_node_index" where
  "left index =
     (let x = parent_to_tree_index index; k = level x
      in tree_node_index_new (x XOR shl32 1 (k - 1)))"

definition leftmost :: "nat \<Rightarrow> tree_node_index" where
  "leftmost index =
     (let x = parent_to_tree_index index; k = level x
      in tree_node_index_new (wrap32 (sub32 x (shl32 1 k) + 1)))"

definition right :: "nat \<Rightarrow> tree_node_index" where
  "right index =
     (let x = parent_to_tree_index index; k = level x
      in tree_node_index_new (x XOR shl32 3 (k - 1)))"

definition parent :: "tree_node_index \<Rightarrow> nat" where
  "parent index =
     (let x = tree_node_index_u32 index; k = level x; b = shr32 x (k + 1) AND 1
      in parent_from_tree_index ((x OR shl32 1 k) XOR shl32 b (k + 1)))"

definition sibling :: "tree_node_index \<Rightarrow> tree_node_index" where
  "sibling index =
     (let p = parent index
      in if tree_node_index_u32 index < parent_to_tree_index p then right p else left p)"

text \<open>
  The climb from a leaf to the root. It is left partial: from a leaf outside the tree the
  root is never met. \<open>None\<close> stands for a loop that does not return.
\<close>

partial_function (option) direct_path_loop :: "nat \<Rightarrow> nat \<Rightarrow> nat list \<Rightarrow> nat list option" where
  "direct_path_loop r x d =
     (if x \<noteq> r then
        (let p = parent (tree_node_index_new x)
         in direct_path_loop r (parent_to_tree_index p) (d @ [p]))
      else Some d)"

definition direct_path :: "nat \<Rightarrow> nat \<Rightarrow> nat list option" where
  "direct_path node_index sz =
     direct_path_loop (tree_node_index_u32 (root sz)) (leaf_to_tree_index node_index) []"

definition copath :: "nat \<Rightarrow> nat \<Rightarrow> tree_node_index list option" where
  "copath leaf_index sz =
     (case direct_path leaf_index sz of
        None \<Rightarrow> None
      | Some d \<Rightarrow>
          (let d' = (if d \<noteq> [] then butlast d else d)
           in Some (map sibling (Leaf leaf_index # map Parent d'))))"

function lca_loop :: "nat \<Rightarrow> nat \<Rightarrow> nat \<Rightarrow> nat \<times> nat" where
  "lca_loop xn yn k =
     (if xn \<noteq> yn then lca_loop (shr32 xn 1) (shr32 yn 1) (k + 1) else (xn, k))"
  by pat_completeness auto
termination
  by (relation "measure (\<lambda>(xn, yn, k). xn + yn)") (auto simp: shr32_def)

declare lca_loop.simps [simp del]

definition lowest_common_ancestor :: "nat \<Rightarrow> nat \<Rightarrow> nat" where
  "lowest_common_ancestor a b =
     (let x = leaf_to_tree_index a; y = leaf_to_tree_index b;
          lx = level x + 1; ly = level y + 1
      in if lx \<le> ly \<and> shr32 x ly = shr32 y ly then parent_from_tree_index y
         else if ly \<le> lx \<and> shr32 x lx = shr32 y lx then parent_from_tree_index x
         else (case lca_loop x y 0 of
                 (xn, k) \<Rightarrow>
                   parent_from_tree_index
                     (sub32 (wrap32 (shl32 xn k + shl32 1 (k - 1))) 1)))"

fun common_prefix :: "nat list \<Rightarrow> nat list \<Rightarrow> nat list" where
  "common_prefix (x # xs) (y # ys) = (if x = y then x # common_prefix xs ys else [])"
| "common_prefix _ _ = []"

definition common_direct_path :: "nat \<Rightarrow> nat \<Rightarrow> nat \<Rightarrow> nat list option" where
  "common_direct_path x y sz =
     (case (direct_path x sz, direct_path y sz) of
        (Some x_path, Some y_path) \<Rightarrow> Some (rev (common_prefix (rev x_path) (rev y_path)))
      | _ \<Rightarrow> None)"

definition node_width :: "nat \<Rightarrow> nat" where
  "node_width n = (if n = 0 then 0 else 2 * (n - 1) + 1)"

definition is_node_in_tree :: "tree_node_index \<Rightarrow> nat \<Rightarrow> bool" where
  "is_node_in_tree node_index sz \<longleftrightarrow> tree_node_index_u32 node_index < sz"

section \<open>Coordinates\<close>

text \<open>
  \<open>node_at k m\<close> is the tree index of the node at height \<open>k\<close>, position \<open>m\<close>; since a parent
  index is half its tree index, the same function gives the parent index of the node at
  height \<open>k + 1\<close>.
\<close>

definition node_at :: "nat \<Rightarrow> nat \<Rightarrow> nat" where
  "node_at k m = 2 ^ k * (2 * m + 1) - 1"

fun node_ix :: "nat \<Rightarrow> nat \<Rightarrow> tree_node_index" where
  "node_ix 0 m = Leaf m"
| "node_ix (Suc k) m = Parent (node_at k m)"

text \<open>The sizes of the trees the program can build: full trees of at most \<open>2 ^ 29\<close> leaves.\<close>

definition full_size :: "nat \<Rightarrow> nat" where
  "full_size d = 2 ^ (d + 1) - 1"

definition legal_size :: "nat \<Rightarrow> bool" where
  "legal_size sz \<longleftrightarrow> sz \<in> set (map full_size [0..<30])"

text \<open>The position of the ancestor at height \<open>k\<close> of the leaf \<open>i\<close>, and of a node's sibling.\<close>

definition anc :: "nat \<Rightarrow> nat \<Rightarrow> nat" where
  "anc i k = i div 2 ^ k"

definition sib :: "nat \<Rightarrow> nat" where
  "sib m = (if even m then m + 1 else m - 1)"

subsection \<open>The coordinates cover the indices\<close>

lemma Suc_node_at: "Suc (node_at k m) = 2 ^ k * (2 * m + 1)"
  by (simp add: node_at_def)

lemma node_at_0 [simp]: "node_at 0 m = 2 * m"
  by (simp add: node_at_def)

lemma node_at_Suc: "node_at (Suc k) m = 2 * node_at k m + 1"
proof -
  have "Suc (node_at (Suc k) m) = 2 * Suc (node_at k m)"
    by (simp add: Suc_node_at)
  then show ?thesis by simp
qed

lemma node_at_alt: "node_at k m = 2 ^ (k + 1) * m + (2 ^ k - 1)"
  by (simp add: node_at_def algebra_simps)

lemma node_at_surj: "\<exists>k m. n = node_at k m"
proof (induction n rule: less_induct)
  case (less n)
  show ?case
  proof (cases "even n")
    case True
    then have "n = node_at 0 (n div 2)" by simp
    then show ?thesis by blast
  next
    case False
    then have "n div 2 < n" by (cases n) auto
    then obtain k m where "n div 2 = node_at k m" using less.IH by blast
    with False have "n = node_at (Suc k) m" by (simp add: node_at_Suc) presburger
    then show ?thesis by blast
  qed
qed

lemma node_at_inject [simp]: "node_at k m = node_at k' m' \<longleftrightarrow> k = k' \<and> m = m'"
proof
  assume "node_at k m = node_at k' m'"
  then show "k = k' \<and> m = m'"
  proof (induction k arbitrary: k')
    case 0
    then show ?case by (cases k') (auto simp: node_at_Suc, presburger)
  next
    case (Suc k)
    then show ?case by (cases k') (auto simp: node_at_Suc, presburger)
  qed
qed simp

lemma node_ix_inject [simp]: "node_ix k m = node_ix k' m' \<longleftrightarrow> k = k' \<and> m = m'"
  by (cases k; cases k') auto

lemma pred_mult_div:
  assumes "0 < (p::nat)" and "0 < a"
  shows "(p * a - 1) div p = a - 1"
proof -
  from assms(2) obtain b where a: "a = Suc b" by (cases a) auto
  have "p * Suc b - 1 = (p - 1) + p * b"
    using assms(1) by simp
  moreover have "((p - 1) + p * b) div p = b"
    using assms(1) by (simp only: div_mult_self2) simp
  ultimately show ?thesis using a by (simp only: diff_Suc_1)
qed

lemma node_at_div: "j \<le> k \<Longrightarrow> node_at k m div 2 ^ j = node_at (k - j) m"
proof -
  assume "j \<le> k"
  then have "(2::nat) ^ k = 2 ^ j * 2 ^ (k - j)"
    by (simp flip: power_add)
  then have "node_at k m = 2 ^ j * (2 ^ (k - j) * (2 * m + 1)) - 1"
    by (simp only: node_at_def mult.assoc)
  moreover have "(2 ^ j * (2 ^ (k - j) * (2 * m + 1)) - 1) div 2 ^ j = 2 ^ (k - j) * (2 * m + 1) - 1"
    by (rule pred_mult_div) simp_all
  ultimately show ?thesis
    by (simp only: node_at_def)
qed

lemma odd_node_at [simp]: "odd (node_at k m) \<longleftrightarrow> 0 < k"
  by (cases k) (auto simp: node_at_Suc)

lemma node_at_div_level: "node_at k m div 2 ^ (k + 1) = m"
proof -
  have "(2 ^ k - 1 :: nat) div 2 ^ (k + 1) = 0"
    by (rule div_less, rule le_less_trans [OF diff_le_self]) simp
  then show ?thesis
    unfolding node_at_alt by (subst div_mult_self4) simp_all
qed

lemma node_at_level_bound: "2 ^ k \<le> Suc (node_at k m)"
  unfolding Suc_node_at by simp

lemma node_at_pos_bound: "m \<le> node_at k m"
proof -
  have "1 * (2 * m + 1) \<le> 2 ^ k * (2 * m + 1)" by (rule mult_le_mono1) simp
  then show ?thesis using Suc_node_at [of k m] by simp
qed

subsection \<open>Levels\<close>

lemma level_loop_node_at:
  assumes "j \<le> k" and "k < 32"
  shows "level_loop (node_at k m) j = Some k"
  using assms(1)
proof (induction "k - j" arbitrary: j)
  case 0
  with assms(2) have "j = k" and "shr32 (node_at k m) k = 2 * m"
    by (auto simp: shr32_id node_at_div)
  then show ?case by (simp add: level_loop.simps [of _ k])
next
  case (Suc n)
  then have "j < k" by simp
  with assms(2) have "odd (shr32 (node_at k m) j)"
    by (simp add: shr32_id node_at_div)
  moreover from Suc have "level_loop (node_at k m) (j + 1) = Some k" by simp
  ultimately show ?case by (subst level_loop.simps) simp
qed

lemma level_node_at [tree_nav]: "k < 32 \<Longrightarrow> level (node_at k m) = k"
  by (cases k) (auto simp: level_def level_loop_node_at)

lemma node_at_bound_level:
  assumes "node_at k m < 2 ^ n"
  shows "k \<le> n"
proof -
  have "2 ^ k \<le> (2::nat) ^ n"
    using node_at_level_bound [of k m] assms by linarith
  then show ?thesis by simp
qed

text \<open>The loop of \<open>level\<close> returns on every index but the largest.\<close>

lemma level_loop_returns:
  assumes "x < 2 ^ 32 - 1"
  shows "level_loop x 0 = Some (level x)"
proof -
  obtain k m where x: "x = node_at k m" using node_at_surj by blast
  have "2 ^ k < (2::nat) ^ 32"
    using node_at_level_bound [of k m] assms x by linarith
  then have "k < 32" by (rule power_less_imp_less_exp [of "2::nat", rotated]) simp
  with x show ?thesis by (simp add: level_loop_node_at level_node_at)
qed

subsection \<open>Tree indices of coordinates\<close>

lemma leaf_to_tree_index_id [u32_simps]: "i < 2 ^ 31 \<Longrightarrow> leaf_to_tree_index i = 2 * i"
  by (simp add: leaf_to_tree_index_def)

lemma parent_to_tree_index_id [u32_simps]: "i < 2 ^ 31 \<Longrightarrow> parent_to_tree_index i = 2 * i + 1"
  by (simp add: parent_to_tree_index_def)

lemma tree_node_index_new_node_at [tree_nav]:
  "node_at k m < 2 ^ 32 \<Longrightarrow> tree_node_index_new (node_at k m) = node_ix k m"
  by (cases k)
    (auto simp: tree_node_index_new_def leaf_from_tree_index_def parent_from_tree_index_def
      node_at_Suc sub32_id)

lemma tree_node_index_u32_node_ix [tree_nav]:
  "node_at k m < 2 ^ 32 \<Longrightarrow> tree_node_index_u32 (node_ix k m) = node_at k m"
  by (cases k) (auto simp: leaf_to_tree_index_id parent_to_tree_index_id node_at_Suc)

lemma parent_from_tree_index_node_at [tree_nav]:
  "node_at (Suc k) m < 2 ^ 32 \<Longrightarrow> parent_from_tree_index (node_at (Suc k) m) = node_at k m"
  by (simp add: parent_from_tree_index_def node_at_Suc sub32_id)

lemma parent_to_tree_index_node_at [tree_nav]:
  "node_at k m < 2 ^ 31 \<Longrightarrow> parent_to_tree_index (node_at k m) = node_at (Suc k) m"
  by (simp add: parent_to_tree_index_id node_at_Suc)

subsection \<open>Children and parents\<close>

lemma bit_node_at: "bit (node_at k m) n \<longleftrightarrow> n < k \<or> k < n \<and> bit m (n - Suc k)"
proof (cases "n < k")
  case True
  then show ?thesis by (simp add: bit_iff_odd node_at_div)
next
  case False
  then have "n = k \<or> (\<exists>j. n = Suc (k + j))" by presburger
  then show ?thesis
  proof
    assume "n = k"
    then show ?thesis by (simp add: bit_iff_odd node_at_div)
  next
    assume "\<exists>j. n = Suc (k + j)"
    then obtain j where n: "n = k + 1 + j" by auto
    have "node_at k m div 2 ^ n = m div 2 ^ j"
      using node_at_div_level [of k m] unfolding n power_add [of _ "k + 1" j]
      by (simp only: div_mult2_eq)
    with n show ?thesis by (simp add: bit_iff_odd)
  qed
qed

lemma and_exp_eq_0: "\<not> bit x n \<Longrightarrow> x AND 2 ^ n = 0" for x :: nat
  by (rule bit_eqI) (auto simp: bit_and_iff bit_exp_iff)

lemma xor_exp: "x XOR 2 ^ n = (if bit x n then x - 2 ^ n else x + 2 ^ n)" for x :: nat
proof (cases "bit x n")
  case True
  then have "\<not> bit (x XOR 2 ^ n) n" by (simp add: bit_xor_iff bit_exp_iff)
  then have "(x XOR 2 ^ n) + 2 ^ n = (x XOR 2 ^ n) XOR 2 ^ n"
    by (intro disjunctive_add_eq_xor and_exp_eq_0)
  then have "(x XOR 2 ^ n) + 2 ^ n = x" by (simp add: xor.assoc)
  with True show ?thesis by simp
next
  case False
  then show ?thesis by (simp add: disjunctive_add_eq_xor and_exp_eq_0)
qed

lemma or_exp: "x OR 2 ^ n = (if bit x n then x else x + 2 ^ n)" for x :: nat
proof (cases "bit x n")
  case True
  then have "x OR 2 ^ n = x" by (intro bit_eqI) (auto simp: bit_or_iff bit_exp_iff)
  with True show ?thesis by simp
next
  case False
  then show ?thesis by (simp add: disjunctive_add_eq_or and_exp_eq_0)
qed

lemma exp_le_node_at: "n < k \<Longrightarrow> 2 ^ n \<le> node_at k m"
proof -
  assume "n < k"
  then have "2 ^ n < (2::nat) ^ k" by simp
  then show ?thesis using node_at_level_bound [of k m] by linarith
qed

lemma node_at_left: "node_at (Suc k) m - 2 ^ k = node_at k (2 * m)"
  by (simp add: node_at_def algebra_simps)

lemma node_at_right: "node_at (Suc k) m + 2 ^ k = node_at k (2 * m + 1)"
proof -
  have "Suc (node_at (Suc k) m + 2 ^ k) = Suc (node_at k (2 * m + 1))"
    unfolding Suc_node_at add_Suc [symmetric] by (simp add: algebra_simps)
  then show ?thesis by simp
qed

lemma left_node_at [tree_nav]:
  assumes "node_at k m < 2 ^ 30"
  shows "left (node_at k m) = node_ix k (2 * m)"
proof -
  have k: "k < 31"
    using node_at_bound_level [OF assms] by simp
  have "node_at (Suc k) m XOR shl32 1 k = node_at k (2 * m)"
    using k by (simp add: shl32_one xor_exp bit_node_at node_at_left)
  moreover have "node_at k (2 * m) < 2 ^ 32"
    using node_at_left [of k m] assms by (simp add: node_at_Suc)
  ultimately show ?thesis
    using assms k
    by (simp add: left_def parent_to_tree_index_node_at level_node_at
        tree_node_index_new_node_at)
qed

lemma right_node_at [tree_nav]:
  assumes "node_at k m < 2 ^ 30"
  shows "right (node_at k m) = node_ix k (2 * m + 1)"
proof -
  have k: "k < 31"
    using node_at_bound_level [OF assms] by simp
  have "(3::nat) * 2 ^ k = 2 ^ k XOR 2 ^ Suc k"
    by (simp only: xor_exp bit_exp_iff) simp
  moreover have "(2::nat) ^ k \<le> 2 ^ 30"
    using k by (intro power_increasing) simp_all
  ultimately have "shl32 3 k = 2 ^ k XOR 2 ^ Suc k"
    using k by (simp add: shl32_def)
  then have "node_at (Suc k) m XOR shl32 3 k = (node_at (Suc k) m XOR 2 ^ k) XOR 2 ^ Suc k"
    by (simp add: xor.assoc)
  also have "\<dots> = node_at k (2 * m) + 2 ^ Suc k"
    by (simp add: xor_exp bit_node_at node_at_left bit_0 del: power_Suc)
  also have "\<dots> = node_at k (2 * m + 1)"
    using node_at_left [of k m] node_at_right [of k m] exp_le_node_at [of k "Suc k" m] by simp
  finally have "node_at (Suc k) m XOR shl32 3 k = node_at k (2 * m + 1)" .
  moreover have "node_at k (2 * m + 1) < 2 ^ 32"
    using node_at_right [of k m] assms \<open>2 ^ k \<le> 2 ^ 30\<close> by (simp add: node_at_Suc)
  ultimately show ?thesis
    using assms k
    by (simp add: right_def parent_to_tree_index_node_at level_node_at
        tree_node_index_new_node_at)
qed

lemma node_at_Suc_half: "node_at (Suc k) (m div 2) = node_at k m + 2 ^ k - (m mod 2) * 2 ^ (k + 1)"
proof (cases "even m")
  case True
  then show ?thesis
    using node_at_left [of k "m div 2"] exp_le_node_at [of k "Suc k" "m div 2"] by simp
next
  case False
  then show ?thesis
    using node_at_right [of k "m div 2"] by (simp add: odd_iff_mod_2_eq_one)
qed

lemma parent_node_ix [tree_nav]:
  assumes "node_at k m < 2 ^ 30"
  shows "parent (node_ix k m) = node_at k (m div 2)"
proof -
  let ?x = "node_at k m"
  have k: "k < 31"
    using node_at_bound_level [OF assms] by simp
  have b: "shr32 ?x (k + 1) AND 1 = m mod 2"
    using k node_at_div_level [of k m] by (simp add: shr32_def and_one_eq)
  have "(2::nat) ^ (k + 1) \<le> 2 ^ 31"
    using k by (intro power_increasing) simp_all
  then have sh: "shl32 (m mod 2) (k + 1) = (m mod 2) * 2 ^ (k + 1)"
    using k by (cases "even m") (simp_all add: shl32_def odd_iff_mod_2_eq_one)
  have "?x OR shl32 1 k = ?x + 2 ^ k"
    using k by (simp add: shl32_one or_exp bit_node_at)
  moreover have "(?x + 2 ^ k) XOR ((m mod 2) * 2 ^ (k + 1)) = node_at (Suc k) (m div 2)"
  proof (cases "even m")
    case True
    then show ?thesis by (simp add: node_at_Suc_half)
  next
    case False
    then have "?x + 2 ^ k = node_at (Suc k) (m div 2) + 2 ^ Suc k"
      using node_at_right [of k "m div 2"] by simp
    also have "\<dots> = node_at (Suc k) (m div 2) XOR 2 ^ Suc k"
      by (simp add: xor_exp bit_node_at del: power_Suc)
    finally show ?thesis
      using False by (simp add: odd_iff_mod_2_eq_one xor.assoc del: power_Suc)
  qed
  ultimately have "(?x OR shl32 1 k) XOR shl32 (m mod 2) (k + 1) = node_at (Suc k) (m div 2)"
    by (simp only: sh)
  moreover have "node_at (Suc k) (m div 2) < 2 ^ 32"
    using assms \<open>2 ^ (k + 1) \<le> 2 ^ 31\<close> by (simp add: node_at_Suc_half)
  ultimately show ?thesis
    using assms k b
    by (simp add: parent_def tree_node_index_u32_node_ix level_node_at
        parent_from_tree_index_node_at Let_def)
qed

lemma node_at_mono: "m \<le> m' \<Longrightarrow> node_at k m \<le> node_at k m'"
  by (simp add: node_at_def diff_le_mono)

lemma node_at_less_mono [simp]: "node_at k m < node_at k m' \<longleftrightarrow> m < m'"
  using node_at_mono [of m' m k] node_at_mono [of m m' k] node_at_inject [of k m k m']
  by (meson leD leI le_neq_implies_less less_imp_le)

lemma leftmost_node_at [tree_nav]:
  assumes "node_at k m < 2 ^ 30"
  shows "leftmost (node_at k m) = Leaf (2 ^ Suc k * m)"
proof -
  have k: "Suc k < 32"
    using node_at_bound_level [OF assms] by simp
  have x: "node_at (Suc k) m < 2 ^ 32"
    using assms by (simp add: node_at_Suc)
  obtain r where r: "Suc (node_at (Suc k) m) = 2 ^ Suc k + r"
    using node_at_level_bound le_Suc_ex by blast
  have eq: "r = node_at 0 (2 ^ Suc k * m)"
    using r unfolding Suc_node_at by (simp add: algebra_simps)
  have "node_at (Suc k) m + 2 ^ 32 - 2 ^ Suc k + 1 = r + 2 ^ 32"
    using r by simp
  then have "wrap32 (sub32 (node_at (Suc k) m) (2 ^ Suc k) + 1) = r mod 2 ^ 32"
    unfolding sub32_def wrap32_def mod_add_left_eq by (simp only: mod_add_self2)
  also obtain q where "(2::nat) ^ Suc k = Suc q" by (rule exp2_Suc)
  then have "r \<le> node_at (Suc k) m" using r by linarith
  then have "r mod 2 ^ 32 = r" using x by simp
  finally have "wrap32 (sub32 (node_at (Suc k) m) (2 ^ Suc k) + 1) = r" .
  moreover have "tree_node_index_new r = Leaf (2 ^ Suc k * m)"
    unfolding eq by (simp add: tree_node_index_new_def leaf_from_tree_index_def)
  ultimately show ?thesis
    using assms k
    by (simp add: leftmost_def parent_to_tree_index_node_at level_node_at shl32_one)
qed

lemma sibling_node_ix [tree_nav]:
  assumes "node_at k (2 * (m div 2) + 1) < 2 ^ 30"
  shows "sibling (node_ix k m) = node_ix k (sib m)"
proof -
  have m: "node_at k m < 2 ^ 30" and p: "node_at k (m div 2) < 2 ^ 30"
    using assms node_at_mono [of m "2 * (m div 2) + 1" k]
      node_at_mono [of "m div 2" "2 * (m div 2) + 1" k] by linarith+
  have "node_at k m < node_at (Suc k) (m div 2) \<longleftrightarrow> even m"
  proof (cases "even m")
    case True
    obtain p where "(2::nat) ^ k = Suc p" by (rule exp2_Suc)
    with True show ?thesis
      using node_at_left [of k "m div 2"] exp_le_node_at [of k "Suc k" "m div 2"] by simp
  next
    case False
    then show ?thesis
      using node_at_right [of k "m div 2"] by simp
  qed
  then show ?thesis
    using m p
    by (simp add: sibling_def parent_node_ix tree_node_index_u32_node_ix
        parent_to_tree_index_node_at left_node_at right_node_at sib_def)
qed

subsection \<open>Tree sizes\<close>

lemma log2_eqI: "2 ^ d \<le> x \<Longrightarrow> x < 2 ^ (d + 1) \<Longrightarrow> d < 32 \<Longrightarrow> log2 x = d"
  by (auto simp: log2_def leading_zeros32_eq)

lemma legal_sizeE:
  assumes "legal_size s"
  obtains d where "d < 30" and "s = full_size d"
  using assms by (auto simp: legal_size_def)

lemma legal_sizeI [intro]: "d < 30 \<Longrightarrow> legal_size (full_size d)"
  by (auto simp: legal_size_def)

lemma Suc_full_size: "Suc (full_size d) = 2 ^ (d + 1)"
  by (simp add: full_size_def)

lemma full_size_0 [simp]: "full_size 0 = 1"
  by (simp add: full_size_def)

lemma full_size_Suc: "full_size (Suc d) = 2 * full_size d + 1"
  using Suc_full_size [of d] Suc_full_size [of "Suc d"] by simp

lemma full_size_inject [simp]: "full_size d = full_size d' \<longleftrightarrow> d = d'"
  using Suc_full_size [of d] Suc_full_size [of d'] by (metis Suc_eq_plus1 add_right_cancel
      one_less_numeral_iff power_inject_exp semiring_norm(76))

lemma full_size_bound: "d < 30 \<Longrightarrow> full_size d < 2 ^ 30"
proof -
  assume "d < 30"
  then have "(2::nat) ^ (d + 1) \<le> 2 ^ 30" by (intro power_increasing) simp_all
  then show ?thesis using Suc_full_size [of d] by linarith
qed

lemma leaf_count_full [simp]: "leaf_count (full_size d) = 2 ^ d"
  by (simp add: leaf_count_def full_size_def)

lemma parent_count_full: "parent_count (full_size d) = 2 ^ d - 1"
  by (simp add: parent_count_def full_size_def)

lemma tree_size_new_eq:
  assumes "2 ^ d \<le> n" and "n < 2 ^ (d + 1)" and "d < 30"
  shows "tree_size_new n = full_size d"
proof -
  have "(2::nat) ^ (d + 1) < 2 ^ 32" using assms(3) by (intro power_strict_increasing) simp_all
  then show ?thesis
    using assms log2_eqI [OF assms(1,2)] shl32_one [of "Suc d"]
    by (simp add: tree_size_new_def sub32_id full_size_def)
qed

lemma root_full [tree_nav]: "d < 30 \<Longrightarrow> root (full_size d) = node_ix d 0"
proof -
  assume d: "d < 30"
  then have "(2::nat) ^ d < 2 ^ 32" by (intro power_strict_increasing) simp_all
  moreover have "node_at d 0 = 2 ^ d - 1" by (simp add: node_at_def)
  moreover have "log2 (full_size d) = d"
    using d by (intro log2_eqI) (simp_all add: full_size_def)
  ultimately show ?thesis
    using d tree_node_index_new_node_at [of d 0]
    by (simp add: root_def shl32_one sub32_id)
qed

lemma tree_size_inc_full: "d < 30 \<Longrightarrow> tree_size_inc (full_size d) = full_size (Suc d)"
  using full_size_bound [of d] by (simp add: tree_size_inc_def full_size_Suc)

lemma tree_size_dec_full: "Suc d < 30 \<Longrightarrow> tree_size_dec (full_size (Suc d)) = full_size d"
  using full_size_bound [of "Suc d"] by (simp add: tree_size_dec_def full_size_Suc)

subsection \<open>Ancestors\<close>

lemma anc_0 [simp]: "anc i 0 = i"
  by (simp add: anc_def)

lemma anc_div_2 [simp]: "anc i k div 2 = anc i (Suc k)"
  by (simp add: anc_def mult.commute flip: div_mult2_eq)

lemma anc_less: "i < 2 ^ d \<Longrightarrow> k \<le> d \<Longrightarrow> anc i k < 2 ^ (d - k)"
  by (simp add: anc_def less_mult_imp_div_less flip: power_add)

lemma anc_root [simp]: "i < 2 ^ d \<Longrightarrow> anc i d = 0"
  by (simp add: anc_def)

lemma anc_add: "anc i (j + k) = anc (anc i j) k"
  by (simp add: anc_def power_add div_mult2_eq)

lemma anc_eq_mono: "anc i k = anc j k \<Longrightarrow> k \<le> l \<Longrightarrow> anc i l = anc j l"
  using anc_add [of i k "l - k"] anc_add [of j k "l - k"] by simp

lemma sib_div_2 [simp]: "sib m div 2 = m div 2"
  by (auto simp: sib_def elim!: oddE)

lemma sib_neq [simp]: "sib m \<noteq> m"
  by (auto simp: sib_def elim!: oddE)

lemma sib_sib [simp]: "sib (sib m) = m"
  by (auto simp: sib_def elim!: oddE)

lemma node_at_less_full:
  assumes "m < 2 ^ (d - k)" and "k \<le> d"
  shows "node_at k m < full_size d"
proof -
  have "2 * m + 1 < 2 * 2 ^ (d - k)" using assms(1) by linarith
  then have "2 ^ k * (2 * m + 1) < 2 ^ k * (2 * 2 ^ (d - k))"
    by (intro mult_strict_left_mono) simp_all
  also have "\<dots> = (2::nat) ^ (d + 1)"
    using assms(2) by (simp flip: power_add)
  finally show ?thesis
    unfolding Suc_node_at [symmetric] Suc_full_size [symmetric] by simp
qed

lemma node_at_bound:
  assumes "m < 2 ^ (d - k)" and "k \<le> d" and "d < 30"
  shows "node_at k m < 2 ^ 30"
  using node_at_less_full [OF assms(1,2)] full_size_bound [OF assms(3)] by linarith

lemma anc_bound: "i < 2 ^ d \<Longrightarrow> k \<le> d \<Longrightarrow> d < 30 \<Longrightarrow> node_at k (anc i k) < 2 ^ 30"
  by (intro node_at_bound anc_less)

lemma node_at_less_full_iff:
  "node_at k m < full_size d \<longleftrightarrow> k \<le> d \<and> m < 2 ^ (d - k)"
proof
  assume lt: "node_at k m < full_size d"
  then have "2 ^ k * (2 * m + 1) < 2 ^ (d + 1)"
    unfolding Suc_node_at [symmetric] Suc_full_size [symmetric] by simp
  moreover have "2 ^ k \<le> 2 ^ k * (2 * m + (1::nat))" by simp
  ultimately have "2 ^ k < (2::nat) ^ (d + 1)" by linarith
  then have kd: "k \<le> d"
    using power_less_imp_less_exp [of "2::nat" k "d + 1"] by simp
  then have "(2::nat) ^ (d + 1) = 2 ^ k * (2 * 2 ^ (d - k))"
    by (simp flip: power_add)
  with \<open>2 ^ k * (2 * m + 1) < 2 ^ (d + 1)\<close> have "2 * m + 1 < 2 * 2 ^ (d - k)"
    by (metis nat_mult_less_cancel_disj)
  with kd show "k \<le> d \<and> m < 2 ^ (d - k)" by simp
qed (simp add: node_at_less_full)

subsection \<open>Paths\<close>

lemma children_bound:
  assumes "node_at k m < 2 ^ 29 - 1"
  shows "node_at k m < 2 ^ 30" and "node_at k (2 * m) < 2 ^ 30" and "node_at k (2 * m + 1) < 2 ^ 30"
proof -
  have "node_at k m < full_size 28" using assms by (simp add: full_size_def)
  then have k: "k \<le> 28" "m < 2 ^ (28 - k)" by (simp_all add: node_at_less_full_iff)
  then have "(2::nat) ^ (29 - k) = 2 * 2 ^ (28 - k)" by (simp flip: power_Suc add: Suc_diff_le)
  then have "2 * m + 1 < 2 ^ (29 - k)" using k(2) by simp
  then show "node_at k (2 * m + 1) < 2 ^ 30" using node_at_bound [of "2 * m + 1" 29 k] k(1) by simp
  then show "node_at k m < 2 ^ 30" and "node_at k (2 * m) < 2 ^ 30"
    using assms node_at_mono [of "2 * m" "2 * m + 1" k] by simp_all
qed

lemma direct_path_loop_climb:
  assumes "i < 2 ^ d" and "k \<le> d" and "d < 30"
  shows "direct_path_loop (node_at d 0) (node_at k (anc i k)) p
    = Some (p @ map (\<lambda>j. node_at j (anc i (Suc j))) [k..<d])"
  using assms(2)
proof (induction "d - k" arbitrary: k p)
  case 0
  then have "k = d" by simp
  with assms(1) show ?case by (simp add: direct_path_loop.simps)
next
  case (Suc n)
  then have kd: "k < d" by simp
  have b: "node_at k (anc i k) < 2 ^ 30"
    using assms kd by (intro anc_bound) auto
  moreover have "node_at k (anc i (Suc k)) \<le> node_at k (anc i k)"
    by (rule node_at_mono) (simp flip: anc_div_2)
  ultimately have
    "parent (tree_node_index_new (node_at k (anc i k))) = node_at k (anc i (Suc k))" and
    "parent_to_tree_index (node_at k (anc i (Suc k))) = node_at (Suc k) (anc i (Suc k))"
    by (simp_all add: tree_nav)
  moreover have "[k..<d] = k # [Suc k..<d]"
    using kd by (simp add: upt_conv_Cons)
  moreover have "direct_path_loop (node_at d 0) (node_at (Suc k) (anc i (Suc k)))
      (p @ [node_at k (anc i (Suc k))])
    = Some ((p @ [node_at k (anc i (Suc k))]) @ map (\<lambda>j. node_at j (anc i (Suc j))) [Suc k..<d])"
    using Suc kd by (intro Suc.hyps) simp_all
  ultimately show ?case
    using kd by (subst direct_path_loop.simps) simp
qed

lemma direct_path_full [tree_nav]:
  assumes "i < 2 ^ d" and "d < 30"
  shows "direct_path i (full_size d) = Some (map (\<lambda>j. node_at j (anc i (Suc j))) [0..<d])"
proof -
  have "node_at d 0 < 2 ^ 30"
    using assms by (intro node_at_bound) auto
  moreover have "2 * i < 2 ^ 30"
    using assms node_at_bound [of i d 0] by simp
  ultimately show ?thesis
    using direct_path_loop_climb [OF assms(1) _ assms(2), of 0 "[]"] assms
    by (simp add: direct_path_def root_full tree_node_index_u32_node_ix leaf_to_tree_index_id)
qed

lemma sib_less: "m < 2 ^ n \<Longrightarrow> 0 < n \<Longrightarrow> 2 * (m div 2) + 1 < (2::nat) ^ n"
  by (cases n; simp) arith

lemma copath_full [tree_nav]:
  assumes "i < 2 ^ d" and "0 < d" and "d < 30"
  shows "copath i (full_size d) = Some (map (\<lambda>k. node_ix k (sib (anc i k))) [0..<d])"
proof -
  obtain e where d: "d = Suc e" using assms(2) by (cases d) auto
  have sb: "sibling (node_ix k (anc i k)) = node_ix k (sib (anc i k))" if "k < d" for k
    using that assms by (intro sibling_node_ix node_at_bound sib_less anc_less) auto
  have "Leaf i # map Parent (map (\<lambda>j. node_at j (anc i (Suc j))) [0..<e])
      = map (\<lambda>k. node_ix k (anc i k)) [0..<d]"
    unfolding d by (simp add: upt_conv_Cons map_Suc_upt [symmetric] del: upt_Suc)
  then have "map sibling (Leaf i # map Parent (map (\<lambda>j. node_at j (anc i (Suc j))) [0..<e]))
      = map (\<lambda>k. node_ix k (sib (anc i k))) [0..<d]"
    using sb by (simp only:) (simp del: upt_Suc)
  then show ?thesis
    using assms(1,3) direct_path_full [of i d] by (simp add: copath_def d comp_assoc)
qed

lemma copath_single: "copath 0 (full_size 0) = Some [Leaf 1]"
  using sibling_node_ix [of 0 0] direct_path_full [of 0 0]
  by (simp add: copath_def sib_def)

subsection \<open>Common ancestors\<close>

text \<open>The height of the lowest common ancestor of two leaves.\<close>

definition lca_height :: "nat \<Rightarrow> nat \<Rightarrow> nat" where
  "lca_height i j = (LEAST h. anc i h = anc j h)"

lemma anc_eventually: "anc i (i + j) = anc j (i + j)"
proof -
  have "i < 2 ^ (i + j)" and "j < 2 ^ (i + j)"
    using less_exp [of "i + j"] by linarith+
  then show ?thesis by (simp add: anc_def)
qed

lemma anc_lca_height: "anc i (lca_height i j) = anc j (lca_height i j)"
  unfolding lca_height_def by (rule LeastI [of _ "i + j"]) (rule anc_eventually)

lemma anc_eq_iff: "anc i h = anc j h \<longleftrightarrow> lca_height i j \<le> h"
proof
  show "anc i h = anc j h \<Longrightarrow> lca_height i j \<le> h"
    unfolding lca_height_def by (rule Least_le)
  show "lca_height i j \<le> h \<Longrightarrow> anc i h = anc j h"
    using anc_lca_height by (rule anc_eq_mono)
qed

lemma lca_height_commute: "lca_height i j = lca_height j i"
  by (simp add: lca_height_def eq_commute)

lemma lca_height_pos: "i \<noteq> j \<Longrightarrow> 0 < lca_height i j"
  using anc_eq_iff [of i 0 j] by (cases "lca_height i j") auto

lemma lca_height_le: "i < 2 ^ d \<Longrightarrow> j < 2 ^ d \<Longrightarrow> lca_height i j \<le> d"
  by (simp flip: anc_eq_iff)

lemma lca_loop_anc:
  assumes "k \<le> lca_height i j"
  shows "lca_loop (anc i k) (anc j k) n = (anc i (lca_height i j), n + (lca_height i j - k))"
  using assms
proof (induction "lca_height i j - k" arbitrary: k n)
  case 0
  then have "k = lca_height i j" by simp
  then show ?case by (subst lca_loop.simps) (simp add: anc_eq_iff)
next
  case (Suc m)
  then have "k < lca_height i j" by simp
  then have "anc i k \<noteq> anc j k" by (simp add: anc_eq_iff)
  moreover have "lca_loop (anc i (Suc k)) (anc j (Suc k)) (n + 1)
      = (anc i (lca_height i j), (n + 1) + (lca_height i j - Suc k))"
    using Suc by (intro Suc.hyps) simp_all
  ultimately show ?case
    using \<open>k < lca_height i j\<close>
    by (subst lca_loop.simps) (simp add: shr32_def)
qed

lemma lca_loop_double:
  assumes "i \<noteq> j"
  shows "lca_loop (2 * i) (2 * j) 0 = (anc i (lca_height i j), lca_height i j + 1)"
  using assms lca_loop_anc [of 0 i j 1]
  by (subst lca_loop.simps) (simp add: shr32_def)

lemma lowest_common_ancestor_eq [tree_nav]:
  assumes "i \<noteq> j" and "i < 2 ^ d" and "j < 2 ^ d" and "d < 30"
  shows "lowest_common_ancestor i j = node_at (lca_height i j - 1) (anc i (lca_height i j))"
proof -
  let ?h = "lca_height i j"
  obtain h where h: "?h = Suc h" using lca_height_pos [OF assms(1)] by (cases ?h) auto
  have hd: "?h \<le> d" using assms(2,3) by (rule lca_height_le)
  have n: "node_at ?h (anc i ?h) < 2 ^ 30" using assms(2,4) hd by (intro anc_bound)
  have "i < 2 ^ 30" and "j < 2 ^ 30"
    using assms node_at_bound [of i d 0] node_at_bound [of j d 0] by simp_all
  have "(2::nat) ^ (?h + 1) \<le> 2 ^ 30"
    using hd assms(4) by (intro power_increasing) simp_all
  moreover have "node_at ?h (anc i ?h) = anc i ?h * 2 ^ (?h + 1) + 2 ^ ?h - 1"
    by (simp add: node_at_def algebra_simps)
  moreover obtain p where "(2::nat) ^ ?h = Suc p" by (rule exp2_Suc)
  ultimately have
    "shl32 (anc i ?h) (?h + 1) = anc i ?h * 2 ^ (?h + 1)" and
    "shl32 1 ?h = 2 ^ ?h" and
    "sub32 (wrap32 (anc i ?h * 2 ^ (?h + 1) + 2 ^ ?h)) 1 = node_at ?h (anc i ?h)"
    using n hd assms(4) by (simp_all add: shl32_id shl32_one sub32_id)
  moreover have "parent_from_tree_index (node_at ?h (anc i ?h)) = node_at (?h - 1) (anc i ?h)"
    using n h by (simp add: parent_from_tree_index_node_at)
  ultimately show ?thesis
    using \<open>i < 2 ^ 30\<close> \<open>j < 2 ^ 30\<close> assms(1)
    by (simp add: lowest_common_ancestor_def leaf_to_tree_index_id level_def shr32_def
        lca_loop_double)
qed

lemma lowest_common_ancestor_commute:
  assumes "i \<noteq> j" and "i < 2 ^ d" and "j < 2 ^ d" and "d < 30"
  shows "lowest_common_ancestor i j = lowest_common_ancestor j i"
  using assms anc_lca_height [of i j] lca_height_commute [of i j]
  by (simp add: lowest_common_ancestor_eq)

lemma common_prefix_map:
  "common_prefix (map f xs) (map g xs) = map f (takeWhile (\<lambda>x. f x = g x) xs)"
  by (induction xs) auto

lemma takeWhile_rev_upt: "k \<le> d \<Longrightarrow> takeWhile (\<lambda>x. k \<le> x) (rev [0..<d]) = rev [k..<d]"
  by (induction d) (auto simp: le_Suc_eq)

lemma common_direct_path_full [tree_nav]:
  assumes "i < 2 ^ d" and "j < 2 ^ d" and "d < 30"
  shows "common_direct_path i j (full_size d)
    = Some (map (\<lambda>k. node_at k (anc i (Suc k))) [lca_height i j - 1..<d])"
proof -
  have eq: "node_at k (anc i (Suc k)) = node_at k (anc j (Suc k)) \<longleftrightarrow> lca_height i j - 1 \<le> k" for k
    by (simp add: anc_eq_iff) arith
  have "takeWhile (\<lambda>k. node_at k (anc i (Suc k)) = node_at k (anc j (Suc k))) (rev [0..<d])
      = rev [lca_height i j - 1..<d]" if "lca_height i j - 1 \<le> d"
    unfolding eq using that by (rule takeWhile_rev_upt)
  moreover have "lca_height i j - 1 \<le> d"
    using lca_height_le [OF assms(1,2)] by simp
  ultimately show ?thesis
    using assms
    by (simp only: common_direct_path_def direct_path_full rev_map common_prefix_map
        option.case prod.case) (simp flip: rev_map)
qed

end
