(* ===== verification/Ratchet_Nodes.thy ===== *)
theory Ratchet_Nodes
  imports Leaf_Node Tree_Math
begin

text \<open>
  The nodes of the ratchet tree: parent nodes with their sorted list of unmerged leaves and the
  derivation of a path of them (\<open>treesync/node/parent_node.rs\<close>), the inputs of the tree hash and
  of the parent hash (\<open>treesync/hashes.rs\<close>), and the hash of a tree slot
  (\<open>treesync/treesync_node.rs\<close>). A slot that may be blank is an option: \<open>TreeSyncLeafNode\<close> is
  \<^typ>\<open>leaf_node option\<close> and \<open>TreeSyncParentNode\<close> is \<open>parent_node option\<close>, and the default is the
  blank slot.
\<close>

section \<open>Unmerged leaves\<close>

text \<open>
  \<open>slice::binary_search\<close>: the search interval is halved until one element is left, which is the
  match or tells where to insert.
\<close>

function binary_search_loop :: "nat list \<Rightarrow> nat \<Rightarrow> nat \<Rightarrow> nat \<Rightarrow> nat" where
  "binary_search_loop xs x base sz =
     (if sz > 1 then
        (let half = sz div 2;
             mid = base + half
         in binary_search_loop xs x (if xs ! mid > x then base else mid) (sz - half))
      else base)"
  by pat_completeness auto

termination
  by (relation "measure (\<lambda>(xs, x, base, sz). sz)") auto

declare binary_search_loop.simps [simp del]

definition binary_search :: "nat list \<Rightarrow> nat \<Rightarrow> nat + nat" where
  "binary_search xs x =
     (if xs = [] then Inl 0
      else
        let base = binary_search_loop xs x 0 (length xs)
        in if xs ! base = x then Inr base
           else Inl (if xs ! base < x then base + 1 else base))"

definition vec_insert :: "'a list \<Rightarrow> nat \<Rightarrow> 'a \<Rightarrow> 'a list" where
  "vec_insert xs i x = take i xs @ x # drop i xs"

definition unmerged_add :: "nat list \<Rightarrow> nat \<Rightarrow> nat list" where
  "unmerged_add xs leaf_index =
     (let position = (case binary_search xs leaf_index of Inr p \<Rightarrow> p | Inl e \<Rightarrow> e)
      in vec_insert xs position leaf_index)"

datatype unmerged_leaves_error = NotSorted

fun windows_increasing :: "nat list \<Rightarrow> bool" where
  "windows_increasing (x # y # xs) = (x < y \<and> windows_increasing (y # xs))"
| "windows_increasing _ = True"

definition unmerged_try_from :: "nat list \<Rightarrow> unmerged_leaves_error + nat list" where
  "unmerged_try_from xs = (if \<not> windows_increasing xs then Inl NotSorted else Inr xs)"

section \<open>Parent nodes\<close>

record parent_node =
  pn_encryption_key :: bytes
  pn_tree_hash :: bytes
  pn_parent_hash :: bytes
  unmerged_leaves :: "nat list"

definition parent_node_from_key :: "bytes \<Rightarrow> parent_node" where
  "parent_node_from_key key =
     \<lparr>pn_encryption_key = key, pn_tree_hash = [], pn_parent_hash = [], unmerged_leaves = []\<rparr>"

definition add_unmerged_leaf :: "nat \<Rightarrow> parent_node \<Rightarrow> parent_node" where
  "add_unmerged_leaf leaf_index pn =
     pn\<lparr>unmerged_leaves := unmerged_add (unmerged_leaves pn) leaf_index\<rparr>"

definition set_parent_hash :: "bytes \<Rightarrow> parent_node \<Rightarrow> parent_node" where
  "set_parent_hash h pn = pn\<lparr>pn_parent_hash := h\<rparr>"

section \<open>Hashes\<close>

datatype tree_hash_input =
    LeafNodeHashInput nat "leaf_node option"
  | ParentNodeHashInput "parent_node option" bytes bytes

record parent_hash_input =
  phi_public_key :: bytes
  phi_parent_hash :: bytes
  phi_original_sibling_tree_hash :: bytes

text \<open>The derived TLS codecs and the hash of the crypto provider are arguments.\<close>

record hash_provider =
  tls_tree_hash_input :: "tree_hash_input \<Rightarrow> bytes option"
  tls_parent_hash_input :: "parent_hash_input \<Rightarrow> bytes option"
  crypto_hash :: "bytes \<Rightarrow> bytes option"

definition hash_payload :: "hash_provider \<Rightarrow> bytes option \<Rightarrow> library_error + bytes" where
  "hash_payload P payload =
     (case payload of
        None \<Rightarrow> Inl MissingBoundCheck
      | Some m \<Rightarrow> (case crypto_hash P m of None \<Rightarrow> Inl UnexpectedCryptoError | Some h \<Rightarrow> Inr h))"

definition tree_hash_input_hash :: "hash_provider \<Rightarrow> tree_hash_input \<Rightarrow> library_error + bytes" where
  "tree_hash_input_hash P inp = hash_payload P (tls_tree_hash_input P inp)"

definition parent_hash_input_hash :: "hash_provider \<Rightarrow> parent_hash_input \<Rightarrow> library_error + bytes" where
  "parent_hash_input_hash P inp = hash_payload P (tls_parent_hash_input P inp)"

definition compute_parent_hash :: "hash_provider \<Rightarrow> parent_node \<Rightarrow> bytes \<Rightarrow> library_error + bytes" where
  "compute_parent_hash P pn original_sibling_tree_hash =
     parent_hash_input_hash P
       \<lparr>phi_public_key = pn_encryption_key pn, phi_parent_hash = pn_parent_hash pn,
        phi_original_sibling_tree_hash = original_sibling_tree_hash\<rparr>"

definition leaf_compute_tree_hash ::
  "hash_provider \<Rightarrow> leaf_node option \<Rightarrow> nat \<Rightarrow> library_error + bytes" where
  "leaf_compute_tree_hash P node leaf_index =
     tree_hash_input_hash P (LeafNodeHashInput leaf_index node)"

definition parent_compute_tree_hash ::
  "hash_provider \<Rightarrow> parent_node option \<Rightarrow> bytes \<Rightarrow> bytes \<Rightarrow> nat set \<Rightarrow> library_error + bytes" where
  "parent_compute_tree_hash P node left_hash right_hash exclusion_list =
     (if exclusion_list = {} then
        tree_hash_input_hash P (ParentNodeHashInput node left_hash right_hash)
      else
        case node of
          Some parent_node \<Rightarrow>
            tree_hash_input_hash P
              (ParentNodeHashInput
                 (Some (parent_node\<lparr>unmerged_leaves :=
                    filter (\<lambda>leaf. leaf \<notin> exclusion_list) (unmerged_leaves parent_node)\<rparr>))
                 left_hash right_hash)
        | None \<Rightarrow> tree_hash_input_hash P (ParentNodeHashInput None left_hash right_hash))"

section \<open>Deriving a path\<close>

record plain_update_path_node =
  plain_public_key :: bytes
  plain_path_secret :: bytes

text \<open>The two derivations of the crypto provider are arguments.\<close>

record path_deriver =
  derive_path_secret :: "bytes \<Rightarrow> library_error + bytes"
  derive_key_pair :: "bytes \<Rightarrow> library_error + encryption_key_pair"

text \<open>The path secrets of \<open>n\<close> nodes, and the secret after the last of them.\<close>

fun derive_secrets ::
  "path_deriver \<Rightarrow> nat \<Rightarrow> bytes \<Rightarrow> library_error + bytes list \<times> bytes" where
  "derive_secrets K 0 next_path_secret = Inr ([], next_path_secret)"
| "derive_secrets K (Suc n) next_path_secret =
     try_bind (derive_path_secret K next_path_secret) (\<lambda>next.
     try_bind (derive_secrets K n next) (\<lambda>(path_secrets, last).
       Inr (next_path_secret # path_secrets, last)))"

fun derive_nodes ::
  "path_deriver \<Rightarrow> (bytes \<times> nat) list \<Rightarrow>
   library_error + (((nat \<times> parent_node) \<times> encryption_key_pair) \<times> plain_update_path_node) list" where
  "derive_nodes K [] = Inr []"
| "derive_nodes K ((path_secret, index) # rest) =
     try_bind (derive_key_pair K path_secret) (\<lambda>keypair.
     try_bind (derive_nodes K rest) (\<lambda>nodes.
       Inr ((((index, parent_node_from_key (kp_public_key keypair)), keypair),
             \<lparr>plain_public_key = kp_public_key keypair, plain_path_secret = path_secret\<rparr>) # nodes)))"

definition derive_path ::
  "path_deriver \<Rightarrow> bytes \<Rightarrow> nat list \<Rightarrow>
   library_error +
     (nat \<times> parent_node) list \<times> plain_update_path_node list \<times> encryption_key_pair list \<times> bytes" where
  "derive_path K path_secret path_indices =
     try_bind (derive_secrets K (length path_indices) path_secret) (\<lambda>(path_secrets, commit_secret).
     try_bind (derive_nodes K (zip path_secrets path_indices)) (\<lambda>nodes.
       Inr (map (fst \<circ> fst) nodes, map snd nodes, map (snd \<circ> fst) nodes, commit_secret)))"

section \<open>The unmerged leaves stay sorted\<close>

lemma binary_search_loop_spec:
  assumes "sorted xs" and "0 < sz" and "base + sz \<le> length xs"
    and "\<And>i. i < base \<Longrightarrow> xs ! i \<le> x" and "0 < base \<Longrightarrow> xs ! base \<le> x"
    and "\<And>i. base + sz \<le> i \<Longrightarrow> i < length xs \<Longrightarrow> x < xs ! i"
  shows "(\<lambda>b. b < length xs \<and> (\<forall>i < b. xs ! i \<le> x) \<and> (\<forall>i. b < i \<longrightarrow> i < length xs \<longrightarrow> x < xs ! i))
    (binary_search_loop xs x base sz)"
  using assms
proof (induction xs x base sz rule: binary_search_loop.induct)
  case (1 xs x base sz)
  show ?case
  proof (cases "sz > 1")
    case True
    define half where "half = sz div 2"
    define mid where "mid = base + half"
    define base' where "base' = (if xs ! mid > x then base else mid)"
    have half: "0 < half" "half < sz" "half \<le> sz - half" using True by (simp_all add: half_def)
    have mid: "mid < length xs" using "1.prems"(3) half by (simp add: mid_def)
    have "(\<lambda>b. b < length xs \<and> (\<forall>i < b. xs ! i \<le> x) \<and> (\<forall>i. b < i \<longrightarrow> i < length xs \<longrightarrow> x < xs ! i))
      (binary_search_loop xs x base' (sz - half))"
      unfolding base'_def
    proof (rule "1.IH" [OF True half_def mid_def "1.prems"(1)])
      show "0 < sz - half" using half by simp
      show "(if x < xs ! mid then base else mid) + (sz - half) \<le> length xs"
        using "1.prems"(3) half by (cases "x < xs ! mid") (simp_all add: mid_def)
      show "xs ! i \<le> x" if i: "i < (if x < xs ! mid then base else mid)" for i
      proof (cases "x < xs ! mid")
        case False
        then have "xs ! i \<le> xs ! mid" using i "1.prems"(1) mid by (intro sorted_nth_mono) simp_all
        with False show ?thesis by simp
      qed (use i "1.prems"(4) in simp)
      show "xs ! (if x < xs ! mid then base else mid) \<le> x"
        if "0 < (if x < xs ! mid then base else mid)"
        using that "1.prems"(5) by (simp split: if_splits)
      show "x < xs ! i" if i: "(if x < xs ! mid then base else mid) + (sz - half) \<le> i" "i < length xs" for i
      proof (cases "x < xs ! mid")
        case True
        then have "xs ! mid \<le> xs ! i"
          using i "1.prems"(1) half by (intro sorted_nth_mono) (simp_all add: mid_def)
        with True show ?thesis by simp
      next
        case False
        then have "base + sz \<le> i" using i(1) half by (simp add: mid_def)
        then show ?thesis using i(2) by (rule "1.prems"(6))
      qed
    qed
    moreover have "binary_search_loop xs x base sz = binary_search_loop xs x base' (sz - half)"
      using True by (subst binary_search_loop.simps) (simp only: Let_def base'_def mid_def half_def if_True)
    ultimately show ?thesis by metis
  next
    case False
    with "1.prems"(2) have "sz = 1" by simp
    moreover have "binary_search_loop xs x base sz = base"
      using False by (subst binary_search_loop.simps) simp
    ultimately show ?thesis
      using "1.prems" by simp
  qed
qed

lemma sorted_vec_insert:
  assumes "sorted xs" and "i \<le> length xs"
    and "\<And>j. j < i \<Longrightarrow> xs ! j \<le> x" and "\<And>j. i \<le> j \<Longrightarrow> j < length xs \<Longrightarrow> x \<le> xs ! j"
  shows "sorted (vec_insert xs i x)"
proof -
  have "y \<le> x" if "y \<in> set (take i xs)" for y
    using that assms(2,3) by (auto simp: in_set_conv_nth)
  moreover have "x \<le> y" if "y \<in> set (drop i xs)" for y
    using that assms(4) by (auto simp: in_set_conv_nth)
  moreover have "y \<le> z" if "y \<in> set (take i xs)" "z \<in> set (drop i xs)" for y z
    using that assms(1) append_take_drop_id [of i xs] sorted_append [of "take i xs" "drop i xs"]
    by simp
  ultimately show ?thesis
    using assms(1) by (auto simp: vec_insert_def sorted_append sorted_wrt_take sorted_wrt_drop)
qed

lemma binary_search_sorted:
  assumes "sorted xs"
  obtains i where "i \<le> length xs" and "(case binary_search xs x of Inr p \<Rightarrow> p | Inl e \<Rightarrow> e) = i"
    and "\<And>j. j < i \<Longrightarrow> xs ! j \<le> x" and "\<And>j. i \<le> j \<Longrightarrow> j < length xs \<Longrightarrow> x \<le> xs ! j"
proof (cases "xs = []")
  case True
  with that [of 0] show ?thesis by (simp add: binary_search_def)
next
  case False
  define b where "b = binary_search_loop xs x 0 (length xs)"
  have b: "b < length xs" "\<And>i. i < b \<Longrightarrow> xs ! i \<le> x" "\<And>i. b < i \<Longrightarrow> i < length xs \<Longrightarrow> x < xs ! i"
    using binary_search_loop_spec [OF assms, of "length xs" 0 x] False by (auto simp: b_def)
  show ?thesis
  proof (cases "xs ! b < x")
    case True
    then have "(case binary_search xs x of Inr p \<Rightarrow> p | Inl e \<Rightarrow> e) = b + 1"
      using False by (simp add: binary_search_def Let_def b_def)
    then show ?thesis
      using b True by (intro that [of "b + 1"]) (auto simp: less_Suc_eq Suc_le_eq intro: less_imp_le)
  next
    case False': False
    then have "(case binary_search xs x of Inr p \<Rightarrow> p | Inl e \<Rightarrow> e) = b"
      using False by (simp add: binary_search_def Let_def b_def)
    moreover have "x \<le> xs ! j" if "b \<le> j" "j < length xs" for j
      using that b(3) [of j] False' by (cases "b = j") auto
    ultimately show ?thesis
      using b by (intro that [of b]) auto
  qed
qed

lemma set_unmerged_add: "set (unmerged_add xs x) = insert x (set xs)"
  by (auto simp: unmerged_add_def vec_insert_def Let_def dest: in_set_takeD in_set_dropD)
    (metis Un_iff append_take_drop_id set_append)

lemma sorted_unmerged_add:
  assumes "sorted xs"
  shows "sorted (unmerged_add xs x)"
  using assms
proof (rule binary_search_sorted [of xs x])
  fix i
  assume "i \<le> length xs" and "(case binary_search xs x of Inr p \<Rightarrow> p | Inl e \<Rightarrow> e) = i"
    and "\<And>j. j < i \<Longrightarrow> xs ! j \<le> x" and "\<And>j. i \<le> j \<Longrightarrow> j < length xs \<Longrightarrow> x \<le> xs ! j"
  then show ?thesis
    using sorted_vec_insert [OF assms, of i x] by (simp add: unmerged_add_def)
qed

text \<open>A leaf that is not yet in the list keeps it free of repetitions.\<close>

lemma strict_sorted_unmerged_add:
  assumes "sorted_wrt (<) xs" and "x \<notin> set xs"
  shows "sorted_wrt (<) (unmerged_add xs x)"
proof -
  have "distinct xs" and "sorted xs"
    using assms(1) by (simp_all add: strict_sorted_iff)
  moreover have "distinct (unmerged_add xs x)"
    using \<open>distinct xs\<close> assms(2) set_take_disj_set_drop_if_distinct [of xs]
    by (auto simp: unmerged_add_def vec_insert_def Let_def dest: in_set_takeD in_set_dropD)
  ultimately show ?thesis
    by (simp add: strict_sorted_iff sorted_unmerged_add)
qed

lemma windows_increasing_iff: "windows_increasing xs \<longleftrightarrow> sorted_wrt (<) xs"
  by (induction xs rule: windows_increasing.induct) (auto intro: less_trans)

section \<open>A path derived from an inner path secret is a suffix\<close>

lemma derive_secrets_length: "derive_secrets K n s = Inr (ps, t) \<Longrightarrow> length ps = n"
  by (induction n arbitrary: s ps) (auto simp: try_bind_eq_Inr)

lemma derive_secrets_hd: "derive_secrets K (Suc n) s = Inr (ps, t) \<Longrightarrow> ps ! 0 = s"
  by (auto simp: try_bind_eq_Inr)

lemma derive_secrets_split:
  assumes "derive_secrets K (m + n) s = Inr (ps, u)"
  obtains t where "derive_secrets K m s = Inr (take m ps, t)"
    and "derive_secrets K n t = Inr (drop m ps, u)"
proof -
  have "\<exists>t. derive_secrets K m s = Inr (take m ps, t) \<and> derive_secrets K n t = Inr (drop m ps, u)"
    using assms
  proof (induction m arbitrary: s ps)
    case 0
    then show ?case using derive_secrets_length [of K n s ps u] by simp
  next
    case (Suc m)
    then obtain next' qs where step: "derive_path_secret K s = Inr next'"
      "derive_secrets K (m + n) next' = Inr (qs, u)" "ps = s # qs"
      by (auto simp: try_bind_eq_Inr)
    with Suc.IH [OF step(2)] show ?case by auto
  qed
  with that show ?thesis by blast
qed

lemma derive_nodes_append:
  "derive_nodes K (xs @ ys) = Inr ns \<Longrightarrow>
     derive_nodes K xs = Inr (take (length xs) ns) \<and> derive_nodes K ys = Inr (drop (length xs) ns)"
  by (induction xs arbitrary: ns) (auto simp: try_bind_eq_Inr)

lemma derive_nodes_spec:
  "derive_nodes K xs = Inr ns \<Longrightarrow>
     length ns = length xs \<and> map (fst \<circ> fst \<circ> fst) ns = map snd xs \<and>
     map (plain_path_secret \<circ> snd) ns = map fst xs \<and>
     list_all (\<lambda>(((i, pn), kp), plain). pn_encryption_key pn = kp_public_key kp \<and>
       plain_public_key plain = kp_public_key kp \<and> unmerged_leaves pn = [] \<and>
       derive_key_pair K (plain_path_secret plain) = Inr kp) ns"
  by (induction xs arbitrary: ns) (auto simp: try_bind_eq_Inr parent_node_from_key_def)

lemma derive_path_indices:
  assumes "derive_path K s indices = Inr (path, plain, keypairs, commit_secret)"
  shows "map fst path = indices" and "length plain = length indices"
    and "length keypairs = length indices"
    and "map (pn_encryption_key \<circ> snd) path = map kp_public_key keypairs"
    and "map plain_public_key plain = map kp_public_key keypairs"
    and "\<forall>(i, pn) \<in> set path. unmerged_leaves pn = []"
proof -
  obtain ps ns where d: "derive_secrets K (length indices) s = Inr (ps, commit_secret)"
    "derive_nodes K (zip ps indices) = Inr ns" "path = map (fst \<circ> fst) ns" "plain = map snd ns"
    "keypairs = map (snd \<circ> fst) ns"
    using assms by (auto simp: derive_path_def try_bind_eq_Inr)
  have len: "length ps = length indices" using d(1) by (rule derive_secrets_length)
  note spec = derive_nodes_spec [OF d(2)]
  show "map fst path = indices" "length plain = length indices" "length keypairs = length indices"
    using d spec len by (simp_all add: comp_assoc)
  show "map (pn_encryption_key \<circ> snd) path = map kp_public_key keypairs"
    and "map plain_public_key plain = map kp_public_key keypairs"
    and "\<forall>(i, pn) \<in> set path. unmerged_leaves pn = []"
    using d(3-5) spec by (auto simp: list_all_iff)
qed

lemma derive_path_suffix:
  assumes "derive_path K s (xs @ ys) = Inr (path, plain, keypairs, commit_secret)" and "ys \<noteq> []"
  shows "derive_path K (plain_path_secret (plain ! length xs)) ys
    = Inr (drop (length xs) path, drop (length xs) plain, drop (length xs) keypairs, commit_secret)"
proof -
  let ?m = "length xs"
  obtain ps ns where d: "derive_secrets K (?m + length ys) s = Inr (ps, commit_secret)"
    "derive_nodes K (zip ps (xs @ ys)) = Inr ns" "path = map (fst \<circ> fst) ns" "plain = map snd ns"
    "keypairs = map (snd \<circ> fst) ns"
    using assms(1) by (auto simp: derive_path_def try_bind_eq_Inr)
  obtain t where t: "derive_secrets K (length ys) t = Inr (drop ?m ps, commit_secret)"
    using d(1) by (rule derive_secrets_split)
  have len: "length ps = ?m + length ys" using d(1) by (rule derive_secrets_length)
  have "zip ps (xs @ ys) = zip (take ?m ps) xs @ zip (drop ?m ps) ys"
    using len by (simp add: zip_append2)
  then have ns: "derive_nodes K (zip (drop ?m ps) ys) = Inr (drop ?m ns)"
    using derive_nodes_append [of K "zip (take ?m ps) xs" "zip (drop ?m ps) ys" ns] d(2) len by simp
  have "plain_path_secret (plain ! ?m) = ps ! ?m"
  proof -
    have "length ns = ?m + length ys" using derive_nodes_spec [OF d(2)] len by simp
    then have "map (plain_path_secret \<circ> snd) ns ! ?m = plain_path_secret (plain ! ?m)"
      using assms(2) d(4) by simp
    then show ?thesis
      using derive_nodes_spec [OF d(2)] len assms(2) by simp
  qed
  also have "\<dots> = t"
    using derive_secrets_hd [of K "length ys - 1" t] t assms(2) len by (cases ys) auto
  finally show ?thesis
    using t ns d(3-5) by (simp add: derive_path_def drop_map)
qed

end
