(* ===== verification/Ordered_Map.thy ===== *)
theory Ordered_Map
  imports Mls_Prelude
begin

text \<open>
  The ordered map of the standard library (\<open>BTreeMap\<close>), as far as the program uses it:
  insertion, lookup, \<open>retain\<close> and iteration in key order. It is an association list kept
  in strictly ascending key order. The locale \<open>ordered_map\<close> is the contract its clients
  rely on.
\<close>

type_synonym ('k, 'v) btree_map = "('k \<times> 'v) list"

fun bt_insert :: "'k::linorder \<Rightarrow> 'v \<Rightarrow> ('k, 'v) btree_map \<Rightarrow> ('k, 'v) btree_map" where
  "bt_insert k v [] = [(k, v)]"
| "bt_insert k v ((k', v') # m) =
     (if k < k' then (k, v) # (k', v') # m
      else if k = k' then (k, v) # m
      else (k', v') # bt_insert k v m)"

definition bt_get :: "('k, 'v) btree_map \<Rightarrow> 'k \<Rightarrow> 'v option" where
  "bt_get m k = map_of m k"

definition bt_retain :: "('k \<Rightarrow> bool) \<Rightarrow> ('k, 'v) btree_map \<Rightarrow> ('k, 'v) btree_map" where
  "bt_retain P m = filter (\<lambda>(k, _). P k) m"

definition bt_inv :: "('k::linorder, 'v) btree_map \<Rightarrow> bool" where
  "bt_inv m \<longleftrightarrow> sorted_wrt (<) (map fst m)"

locale ordered_map =
  fixes empty :: "'m"
    and insert :: "'k::linorder \<Rightarrow> 'v \<Rightarrow> 'm \<Rightarrow> 'm"
    and get :: "'m \<Rightarrow> 'k \<Rightarrow> 'v option"
    and retain :: "('k \<Rightarrow> bool) \<Rightarrow> 'm \<Rightarrow> 'm"
    and entries :: "'m \<Rightarrow> ('k \<times> 'v) list"
    and invar :: "'m \<Rightarrow> bool"
  assumes invar_empty: "invar empty"
    and invar_insert: "invar m \<Longrightarrow> invar (insert k v m)"
    and invar_retain: "invar m \<Longrightarrow> invar (retain P m)"
    and get_empty: "get empty = (\<lambda>_. None)"
    and get_insert: "invar m \<Longrightarrow> get (insert k v m) = (get m)(k \<mapsto> v)"
    and get_retain: "invar m \<Longrightarrow> get (retain P m) = (get m) |` {k. P k}"
    and entries_sorted: "invar m \<Longrightarrow> sorted_wrt (<) (map fst (entries m))"
    and entries_get: "invar m \<Longrightarrow> map_of (entries m) = get m"
begin

lemma distinct_entries: "invar m \<Longrightarrow> distinct (map fst (entries m))"
  using entries_sorted strict_sorted_iff by blast

lemma set_entries: "invar m \<Longrightarrow> (k, v) \<in> set (entries m) \<longleftrightarrow> get m k = Some v"
  using distinct_entries entries_get by (metis map_of_eq_Some_iff)

lemma keys_entries: "invar m \<Longrightarrow> fst ` set (entries m) = dom (get m)"
  using entries_get by (metis dom_map_of_conv_image_fst)

lemma keys_insert: "invar m \<Longrightarrow> dom (get (insert k v m)) = Set.insert k (dom (get m))"
  by (simp add: get_insert)

lemma keys_retain: "invar m \<Longrightarrow> dom (get (retain P m)) = {k \<in> dom (get m). P k}"
  by (auto simp: get_retain restrict_map_def split: if_splits)

end

lemma bt_get_map_of: "bt_get m = map_of m"
  by (simp add: fun_eq_iff bt_get_def)

lemma bt_keys: "fst ` set m = dom (bt_get m)"
  by (simp add: bt_get_map_of dom_map_of_conv_image_fst)

lemma fst_set_bt_insert: "fst ` set (bt_insert k v m) = insert k (fst ` set m)"
  by (induction k v m rule: bt_insert.induct) auto

lemma bt_inv_insert: "bt_inv m \<Longrightarrow> bt_inv (bt_insert k v m)"
proof (induction k v m rule: bt_insert.induct)
  case (2 k v k' v' m)
  have "set (map fst (bt_insert k v m)) = insert k (set (map fst m))"
    by (simp add: fst_set_bt_insert)
  then show ?case using 2 by (auto simp: bt_inv_def)
qed (simp add: bt_inv_def)

lemma bt_get_insert: "bt_inv m \<Longrightarrow> bt_get (bt_insert k v m) = (bt_get m)(k \<mapsto> v)"
  by (induction k v m rule: bt_insert.induct) (auto simp: bt_inv_def bt_get_def fun_eq_iff)

lemma bt_inv_retain: "bt_inv m \<Longrightarrow> bt_inv (bt_retain P m)"
proof -
  have "map fst (bt_retain P m) = filter P (map fst m)"
    by (induction m) (auto simp: bt_retain_def)
  then show "bt_inv m \<Longrightarrow> ?thesis" by (simp add: bt_inv_def sorted_wrt_filter)
qed

lemma bt_get_retain: "bt_get (bt_retain P m) = (bt_get m) |` {k. P k}"
  by (induction m) (auto simp: bt_get_def bt_retain_def restrict_map_def fun_eq_iff)

interpretation bt: ordered_map "[]" bt_insert bt_get bt_retain "\<lambda>m. m" bt_inv
  by unfold_locales
    (auto simp: bt_inv_insert bt_inv_retain bt_get_insert bt_get_retain,
     auto simp: bt_inv_def bt_get_def)

end
