(* ===== verification/Sorted_Iter.thy ===== *)
theory Sorted_Iter
  imports Mls_Prelude
begin

text \<open>
  The merging iterators of \<open>sorted_iter.rs\<close> and \<open>reversed_sorted_iter.rs\<close>. Both take two
  ordered inputs, drop the element of the second on a tie and stop after a given number of
  elements. The ascending and the descending iterator share the contract \<open>merge_iter\<close>,
  under which draining one is a prefix of the merge of its inputs.
\<close>

record 'a sorted_iter =
  iter_a :: "'a list"
  iter_b :: "'a list"
  iter_size :: nat
  iter_counter :: nat

definition sorted_iter_new :: "'a list \<Rightarrow> 'a list \<Rightarrow> nat \<Rightarrow> 'a sorted_iter" where
  "sorted_iter_new a b n = \<lparr>iter_a = a, iter_b = b, iter_size = n, iter_counter = 0\<rparr>"

definition sorted_iter_next ::
  "('a \<Rightarrow> 'e::linorder) \<Rightarrow> 'a sorted_iter \<Rightarrow> 'a option \<times> 'a sorted_iter" where
  "sorted_iter_next cmp it =
     (if iter_counter it = iter_size it then (None, it)
      else
        let it = it\<lparr>iter_counter := iter_counter it + 1\<rparr>
        in case (iter_a it, iter_b it) of
             (a # as, b # bs) \<Rightarrow>
               if cmp a < cmp b then (Some a, it\<lparr>iter_a := as\<rparr>)
               else if cmp a = cmp b then (Some a, it\<lparr>iter_a := as, iter_b := bs\<rparr>)
               else (Some b, it\<lparr>iter_b := bs\<rparr>)
           | (a # as, []) \<Rightarrow> (Some a, it\<lparr>iter_a := as\<rparr>)
           | ([], b # bs) \<Rightarrow> (Some b, it\<lparr>iter_b := bs\<rparr>)
           | ([], []) \<Rightarrow> (None, it))"

definition reversed_sorted_iter_next ::
  "('a \<Rightarrow> 'e::linorder) \<Rightarrow> 'a sorted_iter \<Rightarrow> 'a option \<times> 'a sorted_iter" where
  "reversed_sorted_iter_next cmp it =
     (if iter_counter it = iter_size it then (None, it)
      else
        let it = it\<lparr>iter_counter := iter_counter it + 1\<rparr>
        in case (iter_a it, iter_b it) of
             (a # as, b # bs) \<Rightarrow>
               if cmp a < cmp b then (Some b, it\<lparr>iter_b := bs\<rparr>)
               else if cmp a = cmp b then (Some a, it\<lparr>iter_a := as, iter_b := bs\<rparr>)
               else (Some a, it\<lparr>iter_a := as\<rparr>)
           | (a # as, []) \<Rightarrow> (Some a, it\<lparr>iter_a := as\<rparr>)
           | ([], b # bs) \<Rightarrow> (Some b, it\<lparr>iter_b := bs\<rparr>)
           | ([], []) \<Rightarrow> (None, it))"

text \<open>
  Collecting an iterator calls \<open>next\<close> until it yields nothing. Every element it yields
  comes out of one of the inputs, so as many calls as there are elements are enough.
\<close>

fun iter_collect :: "nat \<Rightarrow> ('s \<Rightarrow> 'a option \<times> 's) \<Rightarrow> 's \<Rightarrow> 'a list" where
  "iter_collect 0 nxt it = []"
| "iter_collect (Suc n) nxt it =
     (case nxt it of (None, _) \<Rightarrow> [] | (Some x, it') \<Rightarrow> x # iter_collect n nxt it')"

definition sorted_iter :: "('a \<Rightarrow> 'e::linorder) \<Rightarrow> 'a list \<Rightarrow> 'a list \<Rightarrow> nat \<Rightarrow> 'a list" where
  "sorted_iter cmp a b n =
     iter_collect (length a + length b) (sorted_iter_next cmp) (sorted_iter_new a b n)"

definition reversed_sorted_iter ::
  "('a \<Rightarrow> 'e::linorder) \<Rightarrow> 'a list \<Rightarrow> 'a list \<Rightarrow> nat \<Rightarrow> 'a list" where
  "reversed_sorted_iter cmp a b n =
     iter_collect (length a + length b) (reversed_sorted_iter_next cmp) (sorted_iter_new a b n)"

section \<open>The merge of two ordered inputs\<close>

fun merge_by :: "('e \<Rightarrow> 'e \<Rightarrow> bool) \<Rightarrow> ('a \<Rightarrow> 'e) \<Rightarrow> 'a list \<Rightarrow> 'a list \<Rightarrow> 'a list" where
  "merge_by before key (a # as) (b # bs) =
     (if before (key a) (key b) then a # merge_by before key as (b # bs)
      else if key a = key b then a # merge_by before key as bs
      else b # merge_by before key (a # as) bs)"
| "merge_by before key as [] = as"
| "merge_by before key [] bs = bs"

locale merge_iter =
  fixes key :: "'a \<Rightarrow> 'e"
    and before :: "'e \<Rightarrow> 'e \<Rightarrow> bool"
    and nxt :: "'a sorted_iter \<Rightarrow> 'a option \<times> 'a sorted_iter"
  assumes before_irrefl: "\<not> before x x"
    and before_trans: "before x y \<Longrightarrow> before y z \<Longrightarrow> before x z"
    and before_total: "x \<noteq> y \<Longrightarrow> before x y \<or> before y x"
    and nxt_stop: "iter_counter it = iter_size it \<Longrightarrow> fst (nxt it) = None"
    and nxt_first: "iter_counter it \<noteq> iter_size it \<Longrightarrow> iter_a it = a # as \<Longrightarrow>
      iter_b it = [] \<or> iter_b it = b # bs \<and> before (key a) (key b) \<Longrightarrow>
      nxt it = (Some a, it\<lparr>iter_counter := iter_counter it + 1, iter_a := as\<rparr>)"
    and nxt_tie: "iter_counter it \<noteq> iter_size it \<Longrightarrow> iter_a it = a # as \<Longrightarrow>
      iter_b it = b # bs \<Longrightarrow> key a = key b \<Longrightarrow>
      nxt it = (Some a, it\<lparr>iter_counter := iter_counter it + 1, iter_a := as, iter_b := bs\<rparr>)"
    and nxt_second: "iter_counter it \<noteq> iter_size it \<Longrightarrow> iter_b it = b # bs \<Longrightarrow>
      iter_a it = [] \<or> iter_a it = a # as \<and> before (key b) (key a) \<Longrightarrow>
      nxt it = (Some b, it\<lparr>iter_counter := iter_counter it + 1, iter_b := bs\<rparr>)"
    and nxt_end: "iter_a it = [] \<Longrightarrow> iter_b it = [] \<Longrightarrow> fst (nxt it) = None"
begin

lemma iter_collect_eq:
  assumes "iter_counter it \<le> iter_size it"
    and "length (iter_a it) + length (iter_b it) \<le> n"
  shows "iter_collect n nxt it
    = take (iter_size it - iter_counter it) (merge_by before key (iter_a it) (iter_b it))"
  using assms
proof (induction n arbitrary: it)
  case 0
  then show ?case by simp
next
  case (Suc n)
  show ?case
  proof (cases "iter_counter it = iter_size it")
    case True
    then show ?thesis using nxt_stop [of it] by (cases "nxt it") simp
  next
    case False
    with Suc.prems(1) have pos: "iter_size it - iter_counter it = Suc (iter_size it - (iter_counter it + 1))"
      by simp
    have le: "iter_counter it + 1 \<le> iter_size it" using False Suc.prems(1) by simp
    show ?thesis
    proof (cases "iter_a it"; cases "iter_b it")
      assume "iter_a it = []" "iter_b it = []"
      then show ?thesis using nxt_end [of it] by (cases "nxt it") simp
    next
      fix b bs assume "iter_a it = []" "iter_b it = b # bs"
      then show ?thesis
        using nxt_second [OF False, of b bs] Suc.IH [of "it\<lparr>iter_counter := iter_counter it + 1, iter_b := bs\<rparr>"]
          Suc.prems le pos by (cases bs) simp_all
    next
      fix a as assume "iter_a it = a # as" "iter_b it = []"
      then show ?thesis
        using nxt_first [OF False, of a as] Suc.IH [of "it\<lparr>iter_counter := iter_counter it + 1, iter_a := as\<rparr>"]
          Suc.prems le pos by simp
    next
      fix a as b bs assume ab: "iter_a it = a # as" "iter_b it = b # bs"
      consider "before (key a) (key b)" | "key a = key b" | "before (key b) (key a)" "\<not> before (key a) (key b)"
        using before_total by blast
      then show ?thesis
      proof cases
        case 1
        then show ?thesis
          using ab nxt_first [OF False, of a as b bs]
            Suc.IH [of "it\<lparr>iter_counter := iter_counter it + 1, iter_a := as\<rparr>"] Suc.prems le pos
          by simp
      next
        case 2
        then show ?thesis
          using ab nxt_tie [OF False, of a as b bs] before_irrefl
            Suc.IH [of "it\<lparr>iter_counter := iter_counter it + 1, iter_a := as, iter_b := bs\<rparr>"]
            Suc.prems le pos
          by simp
      next
        case 3
        then show ?thesis
          using ab nxt_second [OF False, of b bs a as] before_irrefl [of "key a"]
            Suc.IH [of "it\<lparr>iter_counter := iter_counter it + 1, iter_b := bs\<rparr>"] Suc.prems le pos
          by (cases "key a = key b") simp_all
      qed
    qed
  qed
qed

lemma collect_new:
  "iter_collect (length a + length b) nxt (sorted_iter_new a b n) = take n (merge_by before key a b)"
  by (simp add: iter_collect_eq sorted_iter_new_def)

lemma set_key_merge: "key ` set (merge_by before key a b) = key ` set a \<union> key ` set b"
  by (induction before key a b rule: merge_by.induct) auto

lemma sorted_merge:
  assumes "sorted_wrt before (map key a)" and "sorted_wrt before (map key b)"
  shows "sorted_wrt before (map key (merge_by before key a b))"
  using assms
proof (induction a arbitrary: b)
  case Nil
  then show ?case by (cases b) simp_all
next
  case (Cons x xs)
  note outer = this
  from Cons.prems(2) show ?case
  proof (induction b)
    case Nil
    then show ?case using outer by simp
  next
    case (Cons y ys)
    have sub: "key z \<in> key ` set c \<union> key ` set d" if "z \<in> set (merge_by before key c d)" for z c d
      using that set_key_merge [of c d] by blast
    consider "before (key x) (key y)" | "key x = key y" | "before (key y) (key x)" "key x \<noteq> key y"
        "\<not> before (key x) (key y)"
      using before_total before_irrefl before_trans by metis
    then show ?case
    proof cases
      case 1
      have "before (key x) (key z)" if "z \<in> set (merge_by before key xs (y # ys))" for z
        using sub [OF that] outer(2) Cons.prems 1 by (auto dest: before_trans)
      then show ?thesis using 1 outer Cons.prems by simp
    next
      case 2
      have "before (key x) (key z)" if "z \<in> set (merge_by before key xs ys)" for z
        using sub [OF that] outer(2) Cons.prems 2 by auto
      then show ?thesis using 2 outer Cons.prems before_irrefl by simp
    next
      case 3
      have "before (key y) (key z)" if "z \<in> set (merge_by before key (x # xs) ys)" for z
        using sub [OF that] outer(2) Cons.prems 3 by (auto dest: before_trans)
      then show ?thesis using 3 Cons outer by simp
    qed
  qed
qed

end

interpretation fwd: merge_iter cmp "(<)" "sorted_iter_next cmp" for cmp :: "'a \<Rightarrow> 'e::linorder"
  by unfold_locales (auto simp: sorted_iter_next_def Let_def split: list.splits)

interpretation bwd: merge_iter cmp "\<lambda>x y. y < x" "reversed_sorted_iter_next cmp"
  for cmp :: "'a \<Rightarrow> 'e::linorder"
  by unfold_locales (auto simp: reversed_sorted_iter_next_def Let_def split: list.splits)

lemma sorted_iter_eq: "sorted_iter cmp a b n = take n (merge_by (<) cmp a b)"
  unfolding sorted_iter_def by (rule fwd.collect_new)

lemma reversed_sorted_iter_eq:
  "reversed_sorted_iter cmp a b n = take n (merge_by (\<lambda>x y. y < x) cmp a b)"
  unfolding reversed_sorted_iter_def by (rule bwd.collect_new)

text \<open>Merging keyed entries: the first input wins.\<close>

lemma map_of_merge:
  assumes irrefl: "\<And>x. \<not> before x x"
    and trans: "\<And>x y z. before x y \<Longrightarrow> before y z \<Longrightarrow> before x z"
    and total: "\<And>x y. x \<noteq> y \<Longrightarrow> before x y \<or> before y x"
    and "sorted_wrt before (map fst a)" and "sorted_wrt before (map fst b)"
  shows "map_of (merge_by before fst a b) = map_of b ++ map_of a"
  using assms(4,5)
proof (induction a arbitrary: b)
  case Nil
  then show ?case by (cases b) simp_all
next
  case (Cons x xs)
  note outer = this
  from Cons.prems(2) show ?case
  proof (induction b)
    case Nil
    then show ?case by simp
  next
    case (Cons y ys)
    consider "before (fst x) (fst y)" | "fst x = fst y"
      | "before (fst y) (fst x)" "fst x \<noteq> fst y" "\<not> before (fst x) (fst y)"
      using total irrefl trans by metis
    then show ?case
    proof cases
      case 1
      then show ?thesis
        using outer(1) [of "y # ys"] outer(2) Cons.prems
        by (cases x) (simp add: fun_eq_iff map_add_def)
    next
      case 2
      then show ?thesis
        using outer(1) [of ys] outer(2) Cons.prems irrefl
        by (cases x; cases y) (simp add: fun_eq_iff map_add_def)
    next
      case 3
      have "before (fst y) k" if "k \<in> fst ` set (x # xs)" for k
        using that outer(2) 3(1) by (auto intro: trans)
      then have "fst y \<notin> dom (map_of (x # xs))"
        unfolding dom_map_of_conv_image_fst using irrefl by blast
      then have "((map_of ys)(fst y \<mapsto> snd y)) ++ map_of (x # xs)
          = (map_of ys ++ map_of (x # xs))(fst y \<mapsto> snd y)"
        by (rule map_add_upd_left)
      moreover have "map_of (merge_by before fst (x # xs) ys) = map_of ys ++ map_of (x # xs)"
        using Cons.prems by (intro Cons.IH) simp
      moreover have "map_of (merge_by before fst (x # xs) (y # ys))
          = (map_of (merge_by before fst (x # xs) ys))(fst y \<mapsto> snd y)"
        using 3 by (simp add: fun_eq_iff)
      moreover have "map_of (y # ys) = (map_of ys)(fst y \<mapsto> snd y)"
        by (simp add: fun_eq_iff)
      ultimately show ?thesis by (simp only:)
    qed
  qed
qed

lemma map_of_rev_distinct: "distinct (map fst xs) \<Longrightarrow> map_of (rev xs) = map_of xs"
  by (subst map_of_inject_set) (simp_all flip: rev_map)

lemma map_of_merge_fwd:
  fixes a b :: "('k::linorder \<times> 'v) list"
  assumes "sorted_wrt (<) (map fst a)" and "sorted_wrt (<) (map fst b)"
  shows "map_of (merge_by (<) fst a b) = map_of b ++ map_of a"
  using assms by (intro map_of_merge) auto

lemma merge_fwd_sorted:
  fixes a b :: "('k::linorder \<times> 'v) list"
  assumes "sorted_wrt (<) (map fst a)" and "sorted_wrt (<) (map fst b)"
  shows "sorted_wrt (<) (map fst (merge_by (<) fst a b))"
  using assms by (rule fwd.sorted_merge)

text \<open>Ordered entries are determined by the map they denote.\<close>

lemma sorted_entries_eqI:
  fixes a b :: "('k::linorder \<times> 'v) list"
  assumes "sorted_wrt (<) (map fst a)" and "sorted_wrt (<) (map fst b)" and "map_of a = map_of b"
  shows "a = b"
proof -
  have d: "distinct (map fst a)" "distinct (map fst b)" "sorted (map fst a)" "sorted (map fst b)"
    using assms by (simp_all add: strict_sorted_iff)
  have "set (map fst a) = set (map fst b)"
    using assms(3) by (metis dom_map_of_conv_image_fst list.set_map)
  then have "map fst a = map fst b"
    using d sorted_distinct_set_unique by blast
  moreover have "set a = set b"
    using d assms(3) by (simp add: map_of_inject_set)
  ultimately show ?thesis
    using d by (intro map_sorted_distinct_set_unique [of fst a b]) (auto simp: distinct_map)
qed

text \<open>The descending merge is the ascending merge of the reversed inputs, reversed.\<close>

lemma merge_bwd_rev:
  fixes a b :: "('k::linorder \<times> 'v) list"
  assumes "sorted_wrt (<) (map fst a)" and "sorted_wrt (<) (map fst b)"
  shows "merge_by (\<lambda>x y. y < x) fst (rev a) (rev b) = rev (merge_by (<) fst a b)"
proof -
  let ?m = "merge_by (\<lambda>x y. y < x) fst (rev a) (rev b)"
  have d: "distinct (map fst a)" "distinct (map fst b)"
    using assms by (simp_all add: strict_sorted_iff)
  have ab: "sorted_wrt (\<lambda>x y. y < x) (map fst (rev a))" "sorted_wrt (\<lambda>x y. y < x) (map fst (rev b))"
    using assms by (simp_all add: sorted_wrt_rev flip: rev_map)
  have "sorted_wrt (\<lambda>x y. y < x) (map fst ?m)"
    using ab by (rule bwd.sorted_merge)
  then have srt: "sorted_wrt (<) (map fst (rev ?m))"
    by (simp add: sorted_wrt_rev flip: rev_map)
  then have "distinct (map fst ?m)"
    by (simp add: strict_sorted_iff flip: rev_map)
  then have "map_of (rev ?m) = map_of ?m"
    by (rule map_of_rev_distinct)
  also have "\<dots> = map_of (rev b) ++ map_of (rev a)"
    using ab by (intro map_of_merge) auto
  also have "\<dots> = map_of (merge_by (<) fst a b)"
    using assms d by (simp only: map_of_rev_distinct map_of_merge_fwd)
  finally have "rev ?m = merge_by (<) fst a b"
    by (rule sorted_entries_eqI [OF srt merge_fwd_sorted [OF assms]])
  then show ?thesis by (simp add: rev_swap)
qed

end
