(* ===== verification/Binary_Tree.thy ===== *)
theory Binary_Tree
  imports Tree_Math Ordered_Map Sorted_Iter
begin

text \<open>
  The array-based binary tree and its diff (\<open>array_representation/tree.rs\<close> and \<open>diff.rs\<close>).
  The tree is changed only by merging a staged diff into it. The locale \<open>tree_diff\<close> is what
  the ratchet tree relies on: reading back what was written, and what growing keeps.
\<close>

section \<open>The tree\<close>

datatype ('l, 'p) tree_node = TreeNodeLeaf 'l | TreeNodeParent 'p

record ('l, 'p) abinary_tree =
  leaf_nodes :: "'l list"
  parent_nodes :: "'p list"
  default_leaf :: 'l
  default_parent :: 'p

datatype abinary_tree_error = OutOfRange | InvalidNumberOfNodes | WrongNodeType

fun split_nodes ::
  "nat \<Rightarrow> ('l, 'p) tree_node list \<Rightarrow> 'l list \<Rightarrow> 'p list \<Rightarrow> abinary_tree_error + 'l list \<times> 'p list"
where
  "split_nodes i [] leaves parents = Inr (leaves, parents)"
| "split_nodes i (TreeNodeLeaf l # nodes) leaves parents =
     (if i mod 2 = 0 then split_nodes (i + 1) nodes (leaves @ [l]) parents else Inl WrongNodeType)"
| "split_nodes i (TreeNodeParent p # nodes) leaves parents =
     (if i mod 2 = 1 then split_nodes (i + 1) nodes leaves (parents @ [p]) else Inl WrongNodeType)"

definition abt_new ::
  "('l::default, 'p::default) tree_node list \<Rightarrow> abinary_tree_error + ('l, 'p) abinary_tree" where
  "abt_new nodes =
     (if length nodes > max_tree_size then Inl OutOfRange
      else if length nodes mod 2 \<noteq> 1 then Inl InvalidNumberOfNodes
      else try_bind (split_nodes 0 nodes [] [])
        (\<lambda>(leaves, parents). Inr
           \<lparr>leaf_nodes = leaves, parent_nodes = parents,
            default_leaf = default, default_parent = default\<rparr>))"

definition abt_leaf_by_index :: "('l, 'p) abinary_tree \<Rightarrow> nat \<Rightarrow> 'l" where
  "abt_leaf_by_index t i = (case vec_get (leaf_nodes t) i of Some l \<Rightarrow> l | None \<Rightarrow> default_leaf t)"

definition abt_parent_by_index :: "('l, 'p) abinary_tree \<Rightarrow> nat \<Rightarrow> 'p" where
  "abt_parent_by_index t i =
     (case vec_get (parent_nodes t) i of Some p \<Rightarrow> p | None \<Rightarrow> default_parent t)"

definition abt_tree_size :: "('l, 'p) abinary_tree \<Rightarrow> nat" where
  "abt_tree_size t = tree_size_new (wrap32 (length (leaf_nodes t) + length (parent_nodes t)))"

definition abt_leaf_count :: "('l, 'p) abinary_tree \<Rightarrow> nat" where
  "abt_leaf_count t = wrap32 (length (leaf_nodes t))"

definition abt_parent_count :: "('l, 'p) abinary_tree \<Rightarrow> nat" where
  "abt_parent_count t = wrap32 (length (parent_nodes t))"

definition abt_leaves :: "('l, 'p) abinary_tree \<Rightarrow> (nat \<times> 'l) list" where
  "abt_leaves t = map (\<lambda>(i, l). (wrap32 i, l)) (enumerate 0 (leaf_nodes t))"

definition abt_leaves_rev :: "('l, 'p) abinary_tree \<Rightarrow> (nat \<times> 'l) list" where
  "abt_leaves_rev t = rev (map (\<lambda>(i, l). (wrap32 i, l)) (enumerate 0 (leaf_nodes t)))"

definition abt_parents :: "('l, 'p) abinary_tree \<Rightarrow> (nat \<times> 'p) list" where
  "abt_parents t = map (\<lambda>(i, p). (wrap32 i, p)) (enumerate 0 (parent_nodes t))"

definition abt_leaf :: "('l, 'p) abinary_tree \<Rightarrow> nat \<Rightarrow> 'l" where
  "abt_leaf t i = (case vec_get (leaf_nodes t) i of Some l \<Rightarrow> l | None \<Rightarrow> default_leaf t)"

definition abt_parent :: "('l, 'p) abinary_tree \<Rightarrow> nat \<Rightarrow> 'p" where
  "abt_parent t i = (case vec_get (parent_nodes t) i of Some p \<Rightarrow> p | None \<Rightarrow> default_parent t)"

definition abt_subtree_path :: "('l, 'p) abinary_tree \<Rightarrow> nat \<Rightarrow> nat \<Rightarrow> nat list option" where
  "abt_subtree_path t i j = common_direct_path i j (abt_tree_size t)"

record ('l, 'p) staged_ab_diff =
  staged_leaf_diff :: "(nat, 'l) btree_map"
  staged_parent_diff :: "(nat, 'p) btree_map"
  staged_size :: nat

text \<open>An entry outside the vector is dropped (the debug assertion is not compiled in).\<close>

fun merge_entries :: "(nat \<times> 'a) list \<Rightarrow> 'a list \<Rightarrow> 'a list" where
  "merge_entries [] xs = xs"
| "merge_entries ((i, x) # m) xs = merge_entries m (if i < length xs then xs[i := x] else xs)"

definition abt_merge_diff ::
  "('l::default, 'p::default) abinary_tree \<Rightarrow> ('l, 'p) staged_ab_diff \<Rightarrow> ('l, 'p) abinary_tree" where
  "abt_merge_diff t diff =
     (let sz = staged_size diff;
          leaves = vec_resize (leaf_nodes t) (leaf_count sz) default;
          parents = vec_resize (parent_nodes t) (parent_count sz) default
      in t\<lparr>leaf_nodes := merge_entries (staged_leaf_diff diff) leaves,
           parent_nodes := merge_entries (staged_parent_diff diff) parents\<rparr>)"

section \<open>The diff\<close>

record ('l, 'p) ab_diff =
  original_tree :: "('l, 'p) abinary_tree"
  leaf_diff :: "(nat, 'l) btree_map"
  parent_diff :: "(nat, 'p) btree_map"
  ab_size :: nat
  ab_default_leaf :: 'l
  ab_default_parent :: 'p

datatype ab_diff_error = AbLibraryError | TreeTooLarge | TreeTooSmall

definition ab_from_tree :: "('l::default, 'p::default) abinary_tree \<Rightarrow> ('l, 'p) ab_diff" where
  "ab_from_tree t =
     \<lparr>original_tree = t, leaf_diff = [], parent_diff = [], ab_size = abt_tree_size t,
      ab_default_leaf = default, ab_default_parent = default\<rparr>"

definition abt_empty_diff :: "('l::default, 'p::default) abinary_tree \<Rightarrow> ('l, 'p) ab_diff" where
  "abt_empty_diff t = ab_from_tree t"

definition ab_into_staged :: "('l, 'p) ab_diff \<Rightarrow> ('l, 'p) staged_ab_diff" where
  "ab_into_staged d =
     \<lparr>staged_leaf_diff = leaf_diff d, staged_parent_diff = parent_diff d, staged_size = ab_size d\<rparr>"

definition ab_leaf_count :: "('l, 'p) ab_diff \<Rightarrow> nat" where
  "ab_leaf_count d = leaf_count (ab_size d)"

definition ab_parent_count :: "('l, 'p) ab_diff \<Rightarrow> nat" where
  "ab_parent_count d = parent_count (ab_size d)"

definition ab_grow_tree :: "('l, 'p) ab_diff \<Rightarrow> ab_diff_error + ('l, 'p) ab_diff" where
  "ab_grow_tree d =
     (if ab_size d > max_tree_size div 2 then Inl TreeTooLarge
      else Inr (d\<lparr>ab_size := tree_size_inc (ab_size d)\<rparr>))"

definition ab_shrink_tree :: "('l, 'p) ab_diff \<Rightarrow> ab_diff_error + ('l, 'p) ab_diff" where
  "ab_shrink_tree d =
     (if ab_size d \<le> min_tree_size then Inl TreeTooSmall
      else
        let sz = tree_size_dec (ab_size d)
        in Inr (d\<lparr>ab_size := sz,
                  leaf_diff := bt_retain (\<lambda>i. i < leaf_count sz) (leaf_diff d),
                  parent_diff := bt_retain (\<lambda>i. i < parent_count sz) (parent_diff d)\<rparr>))"

definition ab_replace_leaf :: "nat \<Rightarrow> 'l \<Rightarrow> ('l, 'p) ab_diff \<Rightarrow> ('l, 'p) ab_diff" where
  "ab_replace_leaf i new_leaf d = d\<lparr>leaf_diff := bt_insert i new_leaf (leaf_diff d)\<rparr>"

definition ab_replace_parent :: "nat \<Rightarrow> 'p \<Rightarrow> ('l, 'p) ab_diff \<Rightarrow> ('l, 'p) ab_diff" where
  "ab_replace_parent i node d = d\<lparr>parent_diff := bt_insert i node (parent_diff d)\<rparr>"

definition ab_leaves :: "('l, 'p) ab_diff \<Rightarrow> (nat \<times> 'l) list" where
  "ab_leaves d = sorted_iter fst (leaf_diff d) (abt_leaves (original_tree d)) (ab_leaf_count d)"

definition ab_leaves_rev :: "('l, 'p) ab_diff \<Rightarrow> (nat \<times> 'l) list" where
  "ab_leaves_rev d =
     reversed_sorted_iter fst (rev (leaf_diff d)) (abt_leaves_rev (original_tree d)) (ab_leaf_count d)"

definition ab_diff_leaves :: "('l, 'p) ab_diff \<Rightarrow> (nat \<times> 'l) list" where
  "ab_diff_leaves d = leaf_diff d"

definition ab_parents :: "('l, 'p) ab_diff \<Rightarrow> (nat \<times> 'p) list" where
  "ab_parents d =
     sorted_iter fst (parent_diff d) (abt_parents (original_tree d)) (ab_parent_count d)"

definition ab_leaf :: "('l, 'p) ab_diff \<Rightarrow> nat \<Rightarrow> 'l" where
  "ab_leaf d i =
     (case bt_get (leaf_diff d) i of
        Some node \<Rightarrow> node
      | None \<Rightarrow>
          if ab_leaf_count d \<le> i then ab_default_leaf d
          else abt_leaf_by_index (original_tree d) i)"

definition ab_parent :: "('l, 'p) ab_diff \<Rightarrow> nat \<Rightarrow> 'p" where
  "ab_parent d i =
     (case bt_get (parent_diff d) i of
        Some node \<Rightarrow> node
      | None \<Rightarrow> abt_parent_by_index (original_tree d) i)"

text \<open>
  \<open>parent_mut\<close> hands out a mutable reference into the diff; the model takes the write the
  caller performs through it.
\<close>

definition ab_parent_mut :: "nat \<Rightarrow> ('p \<Rightarrow> 'p) \<Rightarrow> ('l, 'p) ab_diff \<Rightarrow> ('l, 'p) ab_diff" where
  "ab_parent_mut i write d =
     (case bt_get (parent_diff d) i of
        Some node \<Rightarrow> d\<lparr>parent_diff := bt_insert i (write node) (parent_diff d)\<rparr>
      | None \<Rightarrow>
          (let d' = ab_replace_parent i (abt_parent_by_index (original_tree d) i) d
           in d'\<lparr>parent_diff :=
                bt_insert i (write (abt_parent_by_index (original_tree d) i)) (parent_diff d')\<rparr>))"

definition ab_direct_path :: "('l, 'p) ab_diff \<Rightarrow> nat \<Rightarrow> nat list option" where
  "ab_direct_path d i = direct_path i (ab_size d)"

definition ab_set_direct_path_to_node ::
  "nat \<Rightarrow> 'p \<Rightarrow> ('l, 'p) ab_diff \<Rightarrow> ('l, 'p) ab_diff option" where
  "ab_set_direct_path_to_node i node d =
     (case ab_direct_path d i of
        None \<Rightarrow> None
      | Some path \<Rightarrow> Some (fold (\<lambda>p. ab_replace_parent p node) path d))"

definition ab_copath :: "('l, 'p) ab_diff \<Rightarrow> nat \<Rightarrow> tree_node_index list option" where
  "ab_copath d i = copath i (ab_size d)"

definition ab_lowest_common_ancestor :: "('l, 'p) ab_diff \<Rightarrow> nat \<Rightarrow> nat \<Rightarrow> nat" where
  "ab_lowest_common_ancestor d i j = lowest_common_ancestor i j"

definition ab_subtree_root_copath_node :: "('l, 'p) ab_diff \<Rightarrow> nat \<Rightarrow> nat \<Rightarrow> tree_node_index" where
  "ab_subtree_root_copath_node d leaf_index_1 leaf_index_2 =
     (let subtree_root_node_index = lowest_common_ancestor leaf_index_1 leaf_index_2
      in if leaf_index_2 < leaf_index_1 then left subtree_root_node_index
         else right subtree_root_node_index)"

definition ab_root :: "('l, 'p) ab_diff \<Rightarrow> tree_node_index" where
  "ab_root d = root (ab_size d)"

section \<open>Invariants\<close>

text \<open>A stored tree is full up to its last leaf and within the maximum size.\<close>

definition abt_inv :: "('l::default, 'p::default) abinary_tree \<Rightarrow> bool" where
  "abt_inv t \<longleftrightarrow>
     length (leaf_nodes t) = length (parent_nodes t) + 1 \<and>
     length (leaf_nodes t) + length (parent_nodes t) < max_tree_size \<and>
     default_leaf t = default \<and> default_parent t = default"

definition ab_inv :: "('l::default, 'p::default) ab_diff \<Rightarrow> bool" where
  "ab_inv d \<longleftrightarrow>
     abt_inv (original_tree d) \<and> legal_size (ab_size d) \<and>
     bt_inv (leaf_diff d) \<and> bt_inv (parent_diff d) \<and>
     (\<forall>i \<in> fst ` set (leaf_diff d). i < ab_leaf_count d) \<and>
     (\<forall>i \<in> fst ` set (parent_diff d). i < ab_parent_count d) \<and>
     ab_default_leaf d = default \<and> ab_default_parent d = default"

text \<open>The diff has not been shrunk below the tree it was made from.\<close>

definition ab_covers :: "('l, 'p) ab_diff \<Rightarrow> bool" where
  "ab_covers d \<longleftrightarrow> length (leaf_nodes (original_tree d)) \<le> ab_leaf_count d \<and>
     length (parent_nodes (original_tree d)) \<le> ab_parent_count d"

section \<open>Stored trees\<close>

lemma ex_log2: "0 < n \<Longrightarrow> \<exists>d. 2 ^ d \<le> n \<and> n < 2 ^ (d + 1)" for n :: nat
  using ex_power_ivl1 [of 2 n] by auto

lemma log2_bound: "2 ^ d \<le> n \<Longrightarrow> n < 2 ^ 30 \<Longrightarrow> d < 30" for n :: nat
  by (rule power_less_imp_less_exp [of "2::nat"]) simp_all

lemma abt_tree_sizeE:
  assumes "abt_inv t"
  obtains d where "d < 30" and "abt_tree_size t = full_size d"
    and "length (leaf_nodes t) \<le> 2 ^ d" and "d = 0 \<or> 2 ^ (d - 1) < length (leaf_nodes t)"
proof -
  let ?n = "length (leaf_nodes t) + length (parent_nodes t)"
  have n: "0 < ?n" "?n < 2 ^ 30" "?n = 2 * length (leaf_nodes t) - 1" "0 < length (leaf_nodes t)"
    using assms by (auto simp: abt_inv_def max_tree_size_def)
  then obtain d where d: "2 ^ d \<le> ?n" "?n < 2 ^ (d + 1)"
    using ex_log2 by blast
  then have "d < 30" using n(2) log2_bound by blast
  moreover have "abt_tree_size t = full_size d"
    using n(2) tree_size_new_eq [OF d \<open>d < 30\<close>] by (simp add: abt_tree_size_def)
  moreover have "length (leaf_nodes t) \<le> 2 ^ d"
    using d(2) n(3,4) by simp
  moreover have "d = 0 \<or> 2 ^ (d - 1) < length (leaf_nodes t)"
  proof (cases d)
    case (Suc e)
    with d(1) n(3,4) have "2 * 2 ^ e \<le> 2 * length (leaf_nodes t) - 1" by simp
    with n(4) have "2 ^ e < length (leaf_nodes t)" by linarith
    with Suc show ?thesis by simp
  qed simp
  ultimately show ?thesis using that by blast
qed

lemma legal_abt_tree_size: "abt_inv t \<Longrightarrow> legal_size (abt_tree_size t)"
  by (metis abt_tree_sizeE legal_sizeI)

text \<open>The tree size is the smallest size of a full tree that holds all stored nodes.\<close>

lemma abt_covers_size:
  assumes "abt_inv t"
  shows "length (leaf_nodes t) \<le> leaf_count (abt_tree_size t)"
    and "length (parent_nodes t) \<le> parent_count (abt_tree_size t)"
proof -
  obtain d where "abt_tree_size t = full_size d" "length (leaf_nodes t) \<le> 2 ^ d"
    using assms by (rule abt_tree_sizeE)
  with assms show "length (leaf_nodes t) \<le> leaf_count (abt_tree_size t)"
    and "length (parent_nodes t) \<le> parent_count (abt_tree_size t)"
    by (auto simp: parent_count_full abt_inv_def)
qed

lemma split_nodes_lengths:
  assumes "split_nodes i nodes ls ps = Inr (ls', ps')"
  shows "length ls' = length ls + (length nodes + (if i mod 2 = 0 then 1 else 0)) div 2 \<and>
    length ps' = length ps + (length nodes + (if i mod 2 = 0 then 0 else 1)) div 2"
  using assms
proof (induction i nodes ls ps rule: split_nodes.induct)
  case (2 i l nodes ls ps)
  then have "i mod 2 = 0" by (auto split: if_splits)
  then have "(i + 1) mod 2 \<noteq> 0" by presburger
  with 2 \<open>i mod 2 = 0\<close> show ?case by simp
next
  case (3 i p nodes ls ps)
  then have "i mod 2 = 1" by (auto split: if_splits)
  then have "(i + 1) mod 2 = 0" by presburger
  with 3 \<open>i mod 2 = 1\<close> show ?case by simp
qed auto

lemma abt_new_inv:
  assumes "abt_new nodes = Inr t"
  shows "abt_inv t \<and> length (leaf_nodes t) + length (parent_nodes t) = length nodes"
proof -
  obtain ls ps where s: "split_nodes 0 nodes [] [] = Inr (ls, ps)"
    and t: "t = \<lparr>leaf_nodes = ls, parent_nodes = ps, default_leaf = default, default_parent = default\<rparr>"
    and len: "length nodes mod 2 = 1" "length nodes \<le> max_tree_size"
    using assms by (auto simp: abt_new_def try_bind_eq_Inr split: if_splits)
  have odd_len: "odd (length nodes)" using len(1) by presburger
  have lt: "length nodes < 2 ^ 30"
    using len(2) odd_len by (cases "length nodes = 2 ^ 30") (auto simp: max_tree_size_def)
  have "length ls = (length nodes + 1) div 2" "length ps = length nodes div 2"
    using split_nodes_lengths [OF s] by simp_all
  with odd_len have "length ls = length ps + 1" "length ls + length ps = length nodes"
    by presburger+
  with lt t show ?thesis by (simp add: abt_inv_def max_tree_size_def)
qed

section \<open>Reading the diff\<close>

lemma ab_inv_simps:
  assumes "ab_inv d"
  shows "abt_inv (original_tree d)" "legal_size (ab_size d)" "bt_inv (leaf_diff d)"
    "bt_inv (parent_diff d)" "ab_default_leaf d = default" "ab_default_parent d = default"
    "default_leaf (original_tree d) = default" "default_parent (original_tree d) = default"
  using assms by (auto simp: ab_inv_def abt_inv_def)

lemma ab_inv_keys:
  assumes "ab_inv d"
  shows "bt_get (leaf_diff d) i = Some l \<Longrightarrow> i < ab_leaf_count d"
    and "bt_get (parent_diff d) i = Some p \<Longrightarrow> i < ab_parent_count d"
  using assms by (auto simp: ab_inv_def bt_keys)

lemma ab_from_tree_inv: "abt_inv t \<Longrightarrow> ab_inv (ab_from_tree t) \<and> ab_covers (ab_from_tree t)"
  using legal_abt_tree_size [of t] abt_covers_size [of t]
  by (simp add: ab_inv_def ab_covers_def ab_from_tree_def bt.invar_empty ab_leaf_count_def
      ab_parent_count_def)

lemma abt_leaf_by_index_eq:
  "abt_inv t \<Longrightarrow> abt_leaf_by_index t i = (if i < length (leaf_nodes t) then leaf_nodes t ! i else default)"
  by (simp add: abt_leaf_by_index_def vec_get_def abt_inv_def)

lemma abt_parent_by_index_eq:
  "abt_inv t \<Longrightarrow>
     abt_parent_by_index t i = (if i < length (parent_nodes t) then parent_nodes t ! i else default)"
  by (simp add: abt_parent_by_index_def vec_get_def abt_inv_def)

lemma abt_leaf_eq [simp]: "abt_leaf t i = abt_leaf_by_index t i"
  by (simp add: abt_leaf_def abt_leaf_by_index_def)

lemma abt_parent_eq [simp]: "abt_parent t i = abt_parent_by_index t i"
  by (simp add: abt_parent_def abt_parent_by_index_def)

text \<open>An empty diff reads as the tree.\<close>

lemma ab_leaf_from_tree: "abt_inv t \<Longrightarrow> ab_leaf (ab_from_tree t) i = abt_leaf t i"
  using abt_covers_size(1) [of t]
  by (auto simp: ab_leaf_def ab_from_tree_def bt_get_def ab_leaf_count_def abt_leaf_by_index_eq)

lemma ab_parent_from_tree: "ab_parent (ab_from_tree t) i = abt_parent t i"
  by (simp add: ab_parent_def ab_from_tree_def bt_get_def)

lemma ab_leaf_outside: "ab_inv d \<Longrightarrow> ab_leaf_count d \<le> i \<Longrightarrow> ab_leaf d i = default"
  using ab_inv_keys(1) [of d i] by (auto simp: ab_leaf_def ab_inv_simps split: option.splits)

lemma ab_parent_outside:
  "ab_inv d \<Longrightarrow> ab_covers d \<Longrightarrow> ab_parent_count d \<le> i \<Longrightarrow> ab_parent d i = default"
  using ab_inv_keys(2) [of d i]
  by (auto simp: ab_parent_def abt_parent_by_index_eq ab_inv_simps ab_covers_def split: option.splits)

section \<open>Writing the diff\<close>

locale tree_diff =
  fixes leaf_of :: "'d \<Rightarrow> nat \<Rightarrow> 'l"
    and parent_of :: "'d \<Rightarrow> nat \<Rightarrow> 'p"
    and size_of :: "'d \<Rightarrow> nat"
    and replace_leaf :: "nat \<Rightarrow> 'l \<Rightarrow> 'd \<Rightarrow> 'd"
    and replace_parent :: "nat \<Rightarrow> 'p \<Rightarrow> 'd \<Rightarrow> 'd"
    and invar :: "'d \<Rightarrow> bool"
  assumes legal: "invar d \<Longrightarrow> legal_size (size_of d)"
    and invar_leaf: "invar d \<Longrightarrow> i < leaf_count (size_of d) \<Longrightarrow> invar (replace_leaf i l d)"
    and invar_parent: "invar d \<Longrightarrow> i < parent_count (size_of d) \<Longrightarrow> invar (replace_parent i p d)"
    and size_leaf: "size_of (replace_leaf i l d) = size_of d"
    and size_parent: "size_of (replace_parent i p d) = size_of d"
    and leaf_leaf: "invar d \<Longrightarrow> leaf_of (replace_leaf i l d) = (leaf_of d)(i := l)"
    and leaf_parent: "leaf_of (replace_parent i p d) = leaf_of d"
    and parent_parent: "invar d \<Longrightarrow> parent_of (replace_parent i p d) = (parent_of d)(i := p)"
    and parent_leaf: "parent_of (replace_leaf i l d) = parent_of d"
begin

lemma replace_parents_all:
  assumes "invar d" and "\<forall>i \<in> set is. i < parent_count (size_of d)"
  shows "invar (fold (\<lambda>i. replace_parent i p) is d) \<and>
    size_of (fold (\<lambda>i. replace_parent i p) is d) = size_of d \<and>
    leaf_of (fold (\<lambda>i. replace_parent i p) is d) = leaf_of d \<and>
    parent_of (fold (\<lambda>i. replace_parent i p) is d)
      = (\<lambda>i. if i \<in> set is then p else parent_of d i)"
  using assms
proof (induction "is" arbitrary: d)
  case (Cons j js)
  let ?d = "replace_parent j p d"
  have "invar ?d" and "\<forall>i \<in> set js. i < parent_count (size_of ?d)"
    using Cons.prems by (simp_all add: invar_parent size_parent)
  note IH = Cons.IH [OF this]
  then show ?case
    using Cons.prems by (auto simp: size_parent leaf_parent parent_parent fun_eq_iff)
qed simp

lemma modify_parents_all:
  assumes "invar d" and "\<forall>i \<in> set is. i < parent_count (size_of d)" and "distinct is"
  shows "invar (fold (\<lambda>i d. replace_parent i (f (parent_of d i)) d) is d) \<and>
    size_of (fold (\<lambda>i d. replace_parent i (f (parent_of d i)) d) is d) = size_of d \<and>
    leaf_of (fold (\<lambda>i d. replace_parent i (f (parent_of d i)) d) is d) = leaf_of d \<and>
    parent_of (fold (\<lambda>i d. replace_parent i (f (parent_of d i)) d) is d)
      = (\<lambda>i. if i \<in> set is then f (parent_of d i) else parent_of d i)"
  using assms
proof (induction "is" arbitrary: d)
  case (Cons j js)
  let ?d = "replace_parent j (f (parent_of d j)) d"
  have "invar ?d" and "\<forall>i \<in> set js. i < parent_count (size_of ?d)" and "distinct js"
    using Cons.prems by (simp_all add: invar_parent size_parent)
  note IH = Cons.IH [OF this]
  then show ?case
    using Cons.prems by (auto simp: size_parent leaf_parent parent_parent fun_eq_iff)
qed simp

lemma write_parents_all:
  assumes "invar d" and "\<forall>(i, p) \<in> set ps. i < parent_count (size_of d)" and "distinct (map fst ps)"
  shows "invar (fold (\<lambda>(i, p). replace_parent i p) ps d) \<and>
    size_of (fold (\<lambda>(i, p). replace_parent i p) ps d) = size_of d \<and>
    leaf_of (fold (\<lambda>(i, p). replace_parent i p) ps d) = leaf_of d \<and>
    parent_of (fold (\<lambda>(i, p). replace_parent i p) ps d)
      = (\<lambda>i. case map_of ps i of Some p \<Rightarrow> p | None \<Rightarrow> parent_of d i)"
  using assms
proof (induction ps arbitrary: d)
  case (Cons x ps)
  obtain j p where x: "x = (j, p)" by (cases x)
  let ?d = "replace_parent j p d"
  have "invar ?d" and "\<forall>(i, p) \<in> set ps. i < parent_count (size_of ?d)" and "distinct (map fst ps)"
    using Cons.prems x by (auto simp: invar_parent size_parent)
  note IH = Cons.IH [OF this]
  have "map_of ps j = None" using Cons.prems(3) x by (simp add: map_of_eq_None_iff)
  with IH show ?case
    using Cons.prems x
    by (auto simp: size_parent leaf_parent parent_parent fun_eq_iff split: option.splits)
qed simp

lemmas replace_parents = replace_parents_all [THEN conjunct1]
  replace_parents_all [THEN conjunct2, THEN conjunct1]
  replace_parents_all [THEN conjunct2, THEN conjunct2, THEN conjunct1]
  replace_parents_all [THEN conjunct2, THEN conjunct2, THEN conjunct2]

end

lemma ab_replace_leaf_inv:
  "ab_inv d \<Longrightarrow> i < leaf_count (ab_size d) \<Longrightarrow> ab_inv (ab_replace_leaf i l d)"
  by (auto simp: ab_inv_def ab_replace_leaf_def ab_leaf_count_def ab_parent_count_def
      bt.invar_insert fst_set_bt_insert)

lemma ab_replace_parent_inv:
  "ab_inv d \<Longrightarrow> i < parent_count (ab_size d) \<Longrightarrow> ab_inv (ab_replace_parent i p d)"
  by (auto simp: ab_inv_def ab_replace_parent_def ab_leaf_count_def ab_parent_count_def
      bt.invar_insert fst_set_bt_insert)

interpretation ab: tree_diff ab_leaf ab_parent ab_size ab_replace_leaf ab_replace_parent ab_inv
proof unfold_locales
  show "ab_inv d \<Longrightarrow> legal_size (ab_size d)" for d :: "('a::default, 'b::default) ab_diff"
    by (rule ab_inv_simps)
  show "ab_inv d \<Longrightarrow> i < leaf_count (ab_size d) \<Longrightarrow> ab_inv (ab_replace_leaf i l d)"
    for i l and d :: "('a::default, 'b::default) ab_diff"
    by (rule ab_replace_leaf_inv)
  show "ab_inv d \<Longrightarrow> i < parent_count (ab_size d) \<Longrightarrow> ab_inv (ab_replace_parent i p d)"
    for i p and d :: "('a::default, 'b::default) ab_diff"
    by (rule ab_replace_parent_inv)
qed (auto simp: ab_replace_leaf_def ab_replace_parent_def ab_leaf_def ab_parent_def fun_eq_iff
    ab_leaf_count_def ab_inv_simps bt.get_insert split: option.splits)

lemma bt_insert_twice: "bt_insert k v (bt_insert k w m) = bt_insert k v m"
  by (induction k v m rule: bt_insert.induct) auto

lemma ab_parent_mut_eq:
  "ab_parent_mut i write d = ab_replace_parent i (write (ab_parent d i)) d"
  by (auto simp: ab_parent_mut_def ab_replace_parent_def ab_parent_def bt_insert_twice Let_def
      split: option.splits)

lemma ab_covers_simps [simp]:
  "ab_covers (ab_replace_leaf i l d) = ab_covers d"
  "ab_covers (ab_replace_parent j p d) = ab_covers d"
  by (simp_all add: ab_covers_def ab_replace_leaf_def ab_replace_parent_def ab_leaf_count_def
      ab_parent_count_def)

lemma original_tree_simps [simp]:
  "original_tree (ab_replace_leaf i l d) = original_tree d"
  "original_tree (ab_replace_parent j p d) = original_tree d"
  by (simp_all add: ab_replace_leaf_def ab_replace_parent_def)

subsection \<open>Growing and shrinking\<close>

lemma full_size_le_half: "d < 30 \<Longrightarrow> full_size d \<le> max_tree_size div 2 \<longleftrightarrow> Suc d < 30"
proof (cases "d = 29")
  case True
  then show ?thesis by (simp add: full_size_def max_tree_size_def)
next
  case False
  assume "d < 30"
  with False have "d < 29" by simp
  then have "(2::nat) ^ (d + 1) \<le> 2 ^ 29" by (intro power_increasing) simp_all
  then have "full_size d \<le> 2 ^ 29" using Suc_full_size [of d] by linarith
  with \<open>d < 29\<close> show ?thesis by (simp add: max_tree_size_def)
qed

lemma ab_grow_tree_spec:
  assumes "ab_inv d" and "ab_covers d" and "ab_grow_tree d = Inr d'"
  shows "ab_inv d'" and "ab_covers d'" and "ab_leaf_count d' = 2 * ab_leaf_count d"
    and "ab_leaf d' = ab_leaf d" and "ab_parent d' = ab_parent d"
    and "original_tree d' = original_tree d"
proof -
  obtain h where h: "h < 30" "ab_size d = full_size h"
    using ab_inv_simps(2) [OF assms(1)] by (rule legal_sizeE)
  then have "Suc h < 30" and d': "d' = d\<lparr>ab_size := full_size (Suc h)\<rparr>"
    using assms(3) full_size_le_half [of h]
    by (auto simp: ab_grow_tree_def tree_size_inc_full split: if_splits)
  then have lc: "ab_leaf_count d' = 2 * ab_leaf_count d" "ab_parent_count d \<le> ab_parent_count d'"
    using h by (simp_all add: ab_leaf_count_def ab_parent_count_def parent_count_full)
  then show "ab_leaf_count d' = 2 * ab_leaf_count d" by simp
  show "ab_inv d'"
    using assms(1) lc d' \<open>Suc h < 30\<close> by (auto simp: ab_inv_def)
  show "ab_covers d'" and "original_tree d' = original_tree d" and "ab_parent d' = ab_parent d"
    using assms(2) lc d' by (auto simp: ab_covers_def ab_parent_def fun_eq_iff split: option.splits)
  show "ab_leaf d' = ab_leaf d"
  proof
    fix i
    show "ab_leaf d' i = ab_leaf d i"
      using assms(1,2) d' lc(1)
      by (auto simp: ab_leaf_def ab_covers_def ab_inv_simps abt_leaf_by_index_eq split: option.splits)
  qed
qed

lemma ab_grow_tree_total:
  assumes "ab_inv d" and "ab_leaf_count d < 2 ^ 29"
  shows "\<exists>d'. ab_grow_tree d = Inr d'"
proof -
  obtain h where h: "h < 30" "ab_size d = full_size h"
    using ab_inv_simps(2) [OF assms(1)] by (rule legal_sizeE)
  with assms(2) have "(2::nat) ^ h < 2 ^ 29"
    by (simp add: ab_leaf_count_def)
  then have "h < 29"
    by (rule power_less_imp_less_exp [of "2::nat", rotated]) simp
  with h show ?thesis
    using full_size_le_half [of h] by (auto simp: ab_grow_tree_def)
qed

lemma ab_shrink_tree_spec:
  assumes "ab_inv d" and "ab_shrink_tree d = Inr d'"
  shows "ab_inv d'" and "ab_leaf_count d = 2 * ab_leaf_count d'"
    and "i < ab_leaf_count d' \<Longrightarrow> ab_leaf d' i = ab_leaf d i"
    and "ab_leaf_count d' \<le> i \<Longrightarrow> ab_leaf d' i = default"
proof -
  obtain h where h: "h < 30" "ab_size d = full_size h"
    using ab_inv_simps(2) [OF assms(1)] by (rule legal_sizeE)
  moreover have "h \<noteq> 0"
    using assms(2) h by (cases h) (simp_all add: ab_shrink_tree_def min_tree_size_def)
  ultimately obtain g where g: "h = Suc g" "Suc g < 30" by (cases h) auto
  then have d': "d' = d\<lparr>ab_size := full_size g,
        leaf_diff := bt_retain (\<lambda>i. i < leaf_count (full_size g)) (leaf_diff d),
        parent_diff := bt_retain (\<lambda>i. i < parent_count (full_size g)) (parent_diff d)\<rparr>"
    using assms(2) h by (auto simp: ab_shrink_tree_def tree_size_dec_full Let_def split: if_splits)
  show inv: "ab_inv d'"
    using assms(1) g unfolding d' ab_inv_def
    by (auto simp: bt.invar_retain bt_keys bt.keys_retain ab_leaf_count_def ab_parent_count_def
        simp del: leaf_count_full)
  show lc: "ab_leaf_count d = 2 * ab_leaf_count d'"
    using h g d' by (simp add: ab_leaf_count_def)
  show "i < ab_leaf_count d' \<Longrightarrow> ab_leaf d' i = ab_leaf d i"
    using assms(1) lc unfolding d'
    by (auto simp: ab_leaf_def ab_leaf_count_def bt_get_retain restrict_map_def split: option.splits)
  show "ab_leaf_count d' \<le> i \<Longrightarrow> ab_leaf d' i = default"
    using inv by (rule ab_leaf_outside)
qed

section \<open>Merging a diff\<close>

lemma merge_entries_spec:
  assumes "distinct (map fst m)"
  shows "length (merge_entries m xs) = length xs \<and>
    (\<forall>i < length xs. merge_entries m xs ! i = (case map_of m i of Some x \<Rightarrow> x | None \<Rightarrow> xs ! i))"
  using assms
proof (induction m xs rule: merge_entries.induct)
  case (2 i x m xs)
  then have "map_of m i = None"
    by (simp add: map_of_eq_None_iff)
  with 2 show ?case
    by (auto simp: nth_list_update split: option.splits)
qed simp

lemma merge_entries_btree:
  assumes "bt_inv m"
  shows "length (merge_entries m xs) = length xs"
    and "i < length xs \<Longrightarrow>
      merge_entries m xs ! i = (case bt_get m i of Some x \<Rightarrow> x | None \<Rightarrow> xs ! i)"
  using merge_entries_spec [OF bt.distinct_entries [OF assms], of xs]
  by (auto simp: bt_get_map_of)

lemma abt_merge_diff_inv:
  assumes "ab_inv d" and "original_tree d = t"
  shows "abt_inv (abt_merge_diff t (ab_into_staged d))"
    and "abt_tree_size (abt_merge_diff t (ab_into_staged d)) = ab_size d"
proof -
  let ?t = "abt_merge_diff t (ab_into_staged d)"
  obtain h where h: "h < 30" "ab_size d = full_size h"
    using ab_inv_simps(2) [OF assms(1)] by (rule legal_sizeE)
  have len: "length (leaf_nodes ?t) = 2 ^ h" "length (parent_nodes ?t) = 2 ^ h - 1"
    using assms h
    by (simp_all add: abt_merge_diff_def ab_into_staged_def Let_def merge_entries_btree ab_inv_simps
        parent_count_full)
  have sz: "length (leaf_nodes ?t) + length (parent_nodes ?t) = full_size h"
    using len Suc_full_size [of h] by simp
  then show "abt_inv ?t"
    using assms(1) assms(2) [symmetric] len full_size_bound [OF h(1)]
    by (auto simp: abt_inv_def max_tree_size_def abt_merge_diff_def Let_def ab_inv_simps)
  show "abt_tree_size ?t = ab_size d"
    using h sz full_size_bound [OF h(1)] tree_size_new_eq [of h "full_size h"]
    by (simp add: abt_tree_size_def full_size_def)
qed

lemma abt_merge_diff_leaf:
  assumes "ab_inv d" and "original_tree d = t"
  shows "abt_leaf (abt_merge_diff t (ab_into_staged d)) i = ab_leaf d i"
proof -
  let ?t = "abt_merge_diff t (ab_into_staged d)"
  have len: "length (leaf_nodes ?t) = ab_leaf_count d"
    using assms
    by (simp add: abt_merge_diff_def ab_into_staged_def Let_def merge_entries_btree ab_inv_simps
        ab_leaf_count_def)
  have inv: "abt_inv ?t" using assms by (rule abt_merge_diff_inv)
  show ?thesis
  proof (cases "i < ab_leaf_count d")
    case True
    then have "leaf_nodes ?t ! i = (case bt_get (leaf_diff d) i of Some x \<Rightarrow> x
        | None \<Rightarrow> if i < length (leaf_nodes t) then leaf_nodes t ! i else default)"
      using assms
      by (simp add: abt_merge_diff_def ab_into_staged_def Let_def merge_entries_btree ab_inv_simps
          ab_leaf_count_def nth_vec_resize split: option.splits)
    with True len inv assms show ?thesis
      by (auto simp: abt_leaf_by_index_eq ab_leaf_def ab_inv_simps split: option.splits)
  next
    case False
    with len inv assms show ?thesis
      by (simp add: abt_leaf_by_index_eq ab_leaf_outside)
  qed
qed

lemma abt_merge_diff_parent:
  assumes "ab_inv d" and "original_tree d = t" and "i < ab_parent_count d"
  shows "abt_parent (abt_merge_diff t (ab_into_staged d)) i = ab_parent d i"
proof -
  let ?t = "abt_merge_diff t (ab_into_staged d)"
  have len: "length (parent_nodes ?t) = ab_parent_count d"
    using assms
    by (simp add: abt_merge_diff_def ab_into_staged_def Let_def merge_entries_btree ab_inv_simps
        ab_parent_count_def)
  have inv: "abt_inv ?t" using assms(1,2) by (rule abt_merge_diff_inv)
  have "parent_nodes ?t ! i = (case bt_get (parent_diff d) i of Some x \<Rightarrow> x
      | None \<Rightarrow> if i < length (parent_nodes t) then parent_nodes t ! i else default)"
    using assms
    by (simp add: abt_merge_diff_def ab_into_staged_def Let_def merge_entries_btree ab_inv_simps
        ab_parent_count_def nth_vec_resize split: option.splits)
  with len inv assms show ?thesis
    by (auto simp: abt_parent_by_index_eq ab_parent_def ab_inv_simps split: option.splits)
qed

section \<open>Iterating over the diff\<close>

lemma sorted_filter_prefix:
  assumes "sorted_wrt (<) (map fst (xs :: (nat \<times> 'a) list))"
  shows "xs = filter (\<lambda>x. fst x < n) xs @ filter (\<lambda>x. \<not> fst x < n) xs"
  using assms
proof (induction xs)
  case (Cons x xs)
  show ?case
  proof (cases "fst x < n")
    case True
    with Cons show ?thesis by simp
  next
    case False
    then have "filter (\<lambda>y. fst y < n) (x # xs) = []"
      using Cons.prems by (auto simp: filter_empty_conv)
    with Cons False show ?thesis by (simp add: filter_empty_conv filter_id_conv)
  qed
qed simp

text \<open>
  An ordered list of indexed entries cut after \<open>n\<close> elements holds the entries below \<open>n\<close>,
  if either all entries lie below \<open>n\<close> or no index below \<open>n\<close> is missing.
\<close>

lemma take_sorted_eq_filter:
  assumes "sorted_wrt (<) (map fst (xs :: (nat \<times> 'a) list))"
    and "(\<forall>i \<in> fst ` set xs. i < n) \<or> {0..<n} \<subseteq> fst ` set xs"
  shows "take n xs = filter (\<lambda>x. fst x < n) xs"
proof -
  let ?ys = "filter (\<lambda>x. fst x < n) xs"
  have d: "distinct (map fst ?ys)"
    using assms(1) by (simp add: strict_sorted_iff distinct_map_filter)
  have sub: "set (map fst ?ys) \<subseteq> {0..<n}" by auto
  then have le: "length ?ys \<le> n"
    using d card_mono [OF _ sub] distinct_card [OF d] by simp
  from assms(2) show ?thesis
  proof
    assume "\<forall>i \<in> fst ` set xs. i < n"
    then have "?ys = xs" by (auto simp: filter_id_conv)
    with le show ?thesis by simp
  next
    assume "{0..<n} \<subseteq> fst ` set xs"
    moreover have "set (map fst ?ys) = {i \<in> fst ` set xs. i < n}" by auto
    ultimately have "set (map fst ?ys) = {0..<n}" by auto
    then have "length ?ys = n" using distinct_card [OF d] by simp
    then show ?thesis
      using arg_cong [OF sorted_filter_prefix [OF assms(1), of n], of "take n"] by simp
  qed
qed

lemma map_of_filter_less: "map_of (filter (\<lambda>x. fst x < n) xs) = map_of xs |` {i. i < n}"
  by (induction xs) (auto simp: fun_eq_iff restrict_map_def)

lemma enumerate_eq: "length xs \<le> 2 ^ 32 \<Longrightarrow>
   map (\<lambda>(i, x). (wrap32 i, x)) (enumerate 0 xs) = map (\<lambda>i. (i, xs ! i)) [0..<length xs]"
  by (rule nth_equalityI) (auto simp: nth_enumerate_eq)

lemma sorted_wrt_indices: "sorted_wrt (<) (map fst (map (\<lambda>i. (i, f i)) [0..<n]))"
  by (simp add: comp_def)

lemma sorted_iter_entries:
  assumes m: "bt_inv (m :: (nat, 'a) btree_map)" and "\<forall>i \<in> fst ` set m. i < n"
    and "length xs \<le> 2 ^ 32"
  shows "sorted_iter fst m (map (\<lambda>(i, x). (wrap32 i, x)) (enumerate 0 xs)) n
    = map (\<lambda>i. (i, case bt_get m i of Some x \<Rightarrow> x | None \<Rightarrow> xs ! i))
        (filter (\<lambda>i. i < length xs \<or> i \<in> dom (bt_get m)) [0..<n])"
    (is "_ = map ?e (filter ?P _)")
proof -
  let ?o = "map (\<lambda>i. (i, xs ! i)) [0..<length xs]"
  let ?m = "merge_by (<) fst m ?o"
  have o: "sorted_wrt (<) (map fst ?o)" by (rule sorted_wrt_indices)
  have ms: "sorted_wrt (<) (map fst m)" using m by (rule bt.entries_sorted)
  have s: "sorted_wrt (<) (map fst ?m)" using ms o by (rule merge_fwd_sorted)
  have mo: "map_of ?o i = (if i < length xs then Some (xs ! i) else None)" for i
    by (simp add: map_of_map_restrict restrict_map_def)
  have mm: "map_of ?m i = (case bt_get m i of Some x \<Rightarrow> Some x
      | None \<Rightarrow> if i < length xs then Some (xs ! i) else None)" for i
    using map_of_merge_fwd [OF ms o] mo
    by (simp add: map_add_def bt_get_map_of split: option.splits)
  have keys: "fst ` set ?m = {0..<length xs} \<union> dom (bt_get m)"
    using mm by (auto simp: dom_map_of_conv_image_fst [symmetric] dom_def split: option.splits if_splits)
  have "take n ?m = filter (\<lambda>x. fst x < n) ?m"
  proof (rule take_sorted_eq_filter [OF s])
    show "(\<forall>i \<in> fst ` set ?m. i < n) \<or> {0..<n} \<subseteq> fst ` set ?m"
      using assms(2) [unfolded bt_keys] unfolding keys by (cases "n \<le> length xs") auto
  qed
  also have "\<dots> = map ?e (filter ?P [0..<n])"
  proof (rule sorted_entries_eqI)
    show "sorted_wrt (<) (map fst (filter (\<lambda>x. fst x < n) ?m))"
      using s by (induction ?m) (auto simp: sorted_wrt_map intro: sorted_wrt_filter)
    show "sorted_wrt (<) (map fst (map ?e (filter ?P [0..<n])))"
      by (simp add: comp_def sorted_wrt_filter)
    show "map_of (filter (\<lambda>x. fst x < n) ?m) = map_of (map ?e (filter ?P [0..<n]))"
      by (auto simp: map_of_filter_less mm map_of_map_restrict restrict_map_def fun_eq_iff
          split: option.splits)
  qed
  finally show ?thesis
    using assms(3) by (simp add: sorted_iter_eq enumerate_eq)
qed

lemma ab_inv_lengths:
  assumes "ab_inv d"
  shows "length (leaf_nodes (original_tree d)) \<le> 2 ^ 32"
    and "length (parent_nodes (original_tree d)) \<le> 2 ^ 32"
  using assms by (auto simp: ab_inv_def abt_inv_def max_tree_size_def)

lemma ab_leaves_eq:
  assumes "ab_inv d"
  shows "ab_leaves d = map (\<lambda>i. (i, ab_leaf d i))
    (filter (\<lambda>i. i < length (leaf_nodes (original_tree d)) \<or> i \<in> dom (bt_get (leaf_diff d)))
      [0..<ab_leaf_count d])"
proof -
  have "\<forall>i \<in> fst ` set (leaf_diff d). i < ab_leaf_count d"
    using assms by (simp add: ab_inv_def)
  note eq = sorted_iter_entries [OF ab_inv_simps(3) [OF assms] this ab_inv_lengths(1) [OF assms]]
  show ?thesis
    unfolding ab_leaves_def abt_leaves_def eq
    using assms
    by (auto simp: ab_leaf_def ab_inv_simps abt_leaf_by_index_eq split: option.splits)
qed

lemma ab_parents_eq:
  assumes "ab_inv d"
  shows "ab_parents d = map (\<lambda>i. (i, ab_parent d i))
    (filter (\<lambda>i. i < length (parent_nodes (original_tree d)) \<or> i \<in> dom (bt_get (parent_diff d)))
      [0..<ab_parent_count d])"
proof -
  have "\<forall>i \<in> fst ` set (parent_diff d). i < ab_parent_count d"
    using assms by (simp add: ab_inv_def)
  note eq = sorted_iter_entries [OF ab_inv_simps(4) [OF assms] this ab_inv_lengths(2) [OF assms]]
  show ?thesis
    unfolding ab_parents_def abt_parents_def eq
    using assms
    by (auto simp: ab_parent_def ab_inv_simps abt_parent_by_index_eq split: option.splits)
qed

text \<open>The entries an iteration skips are default nodes.\<close>

lemma ab_leaf_skipped:
  assumes "ab_inv d" and "\<not> i < length (leaf_nodes (original_tree d))"
    and "i \<notin> dom (bt_get (leaf_diff d))"
  shows "ab_leaf d i = default"
  using assms by (auto simp: ab_leaf_def ab_inv_simps abt_leaf_by_index_eq split: option.splits)

lemma ab_parent_skipped:
  assumes "ab_inv d" and "\<not> i < length (parent_nodes (original_tree d))"
    and "i \<notin> dom (bt_get (parent_diff d))"
  shows "ab_parent d i = default"
  using assms by (auto simp: ab_parent_def ab_inv_simps abt_parent_by_index_eq split: option.splits)

lemma filter_ab_leaves:
  assumes "ab_inv d" and "\<not> P default"
  shows "filter (\<lambda>(i, l). P l) (ab_leaves d)
    = map (\<lambda>i. (i, ab_leaf d i)) (filter (\<lambda>i. P (ab_leaf d i)) [0..<ab_leaf_count d])"
proof -
  have kept: "i < length (leaf_nodes (original_tree d)) \<or> i \<in> dom (bt_get (leaf_diff d))"
    if "P (ab_leaf d i)" for i
    using that ab_leaf_skipped [OF assms(1), of i] assms(2) by metis
  have "filter (\<lambda>i. P (ab_leaf d i))
      (filter (\<lambda>i. i < length (leaf_nodes (original_tree d)) \<or> i \<in> dom (bt_get (leaf_diff d)))
        [0..<ab_leaf_count d])
    = filter (\<lambda>i. P (ab_leaf d i)) [0..<ab_leaf_count d]"
    using kept by (auto simp: filter_filter intro!: filter_cong)
  then show ?thesis
    by (simp add: ab_leaves_eq [OF assms(1)] filter_map comp_def)
qed

section \<open>Paths in the diff\<close>

lemma ab_direct_path_eq:
  assumes "ab_inv d" and "i < ab_leaf_count d"
  obtains h where "h < 30" and "ab_size d = full_size h" and "i < 2 ^ h"
    and "ab_direct_path d i = Some (map (\<lambda>j. node_at j (anc i (Suc j))) [0..<h])"
proof -
  obtain h where h: "h < 30" "ab_size d = full_size h"
    using ab_inv_simps(2) [OF assms(1)] by (rule legal_sizeE)
  with assms(2) have "i < 2 ^ h" by (simp add: ab_leaf_count_def)
  with h show ?thesis
    using that by (simp add: ab_direct_path_def direct_path_full)
qed

lemma path_in_tree:
  assumes "i < 2 ^ h" and "p \<in> set (map (\<lambda>j. node_at j (anc i (Suc j))) [0..<h])"
  shows "p < parent_count (full_size h)"
proof -
  obtain j where j: "j < h" "p = node_at j (anc i (Suc j))"
    using assms(2) by auto
  then obtain g where g: "h = Suc g" by (cases h) auto
  have "anc i (Suc j) < 2 ^ (g - j)"
    using anc_less [of i h "Suc j"] assms(1) j g by simp
  then have "p < full_size g"
    using j g by (simp add: node_at_less_full)
  then show ?thesis
    using g by (simp add: parent_count_def full_size_Suc)
qed

lemma original_tree_replace_parents [simp]:
  "original_tree (fold (\<lambda>p. ab_replace_parent p node) ps d) = original_tree d"
  by (induction ps arbitrary: d) simp_all

lemma path_distinct: "distinct (map (\<lambda>j. node_at j (anc i (Suc j))) [0..<h])"
  by (simp add: distinct_map inj_on_def)

lemma ab_set_direct_path_spec:
  assumes "ab_inv d" and "i < ab_leaf_count d"
  obtains d' path where "ab_set_direct_path_to_node i node d = Some d'"
    and "ab_direct_path d i = Some path"
    and "ab_inv d'" and "ab_size d' = ab_size d" and "ab_leaf d' = ab_leaf d"
    and "ab_parent d' = (\<lambda>p. if p \<in> set path then node else ab_parent d p)"
    and "original_tree d' = original_tree d"
proof -
  obtain h where h: "h < 30" "ab_size d = full_size h" "i < 2 ^ h"
    and path: "ab_direct_path d i = Some (map (\<lambda>j. node_at j (anc i (Suc j))) [0..<h])"
    using assms by (rule ab_direct_path_eq)
  let ?path = "map (\<lambda>j. node_at j (anc i (Suc j))) [0..<h]"
  have "\<forall>p \<in> set ?path. p < parent_count (ab_size d)"
    using path_in_tree [OF h(3)] h(2) by auto
  note repl = ab.replace_parents_all [OF assms(1) this, of node]
  then show ?thesis
    using that [of _ ?path] path original_tree_replace_parents [of node ?path d]
    by (simp add: ab_set_direct_path_to_node_def)
qed

end
