(* ===== verification/Tree_Sync_Diff.thy ===== *)
theory Tree_Sync_Diff
  imports Ratchet_Nodes Binary_Tree
begin

text \<open>
  The diff of a ratchet tree (\<open>treesync/diff.rs\<close>): adding, updating and removing members,
  resolutions and filtered paths, the cached tree hashes, parent hashes and update paths. An
  operation that returns an error leaves a partly changed diff behind in the code, which its
  callers drop; the model returns only the error.
\<close>

section \<open>State and results\<close>

type_synonym ts_tree = "(leaf_node option, parent_node option) abinary_tree"
type_synonym ts_ab_diff = "(leaf_node option, parent_node option) ab_diff"

record tree_sync_diff =
  tsd_diff :: ts_ab_diff
  tsd_tree_hashes :: "bytes list"
  blanked_leaves :: "nat list"
  num_members :: nat

text \<open>
  The error enums of \<open>treesync/errors.rs\<close>, which the \<open>From\<close> conversions embed into each other.
  \<open>Panic\<close> is an index out of range and \<open>NoReturn\<close> a loop that does not end.
\<close>

datatype treesync_error =
    TsLibraryError library_error
  | TreeFull
  | InconsistentSenderIndex
  | PathLengthMismatch
  | MissingParentHash
  | ParentHashMismatch
  | InvalidParentHash
  | NoPrivateKeyFound
  | UnableToDecrypt
  | PathMismatch
  | PublicKeyMismatch
  | MalformedTree
  | Panic
  | NoReturn

definition lib :: "library_error + 'a \<Rightarrow> treesync_error + 'a" where
  "lib r = (case r of Inl e \<Rightarrow> Inl (TsLibraryError e) | Inr x \<Rightarrow> Inr x)"

definition returned :: "(treesync_error + 'a) option \<Rightarrow> treesync_error + 'a" where
  "returned r = (case r of None \<Rightarrow> Inl NoReturn | Some x \<Rightarrow> x)"

definition looped :: "'a option \<Rightarrow> treesync_error + 'a" where
  "looped r = (case r of None \<Rightarrow> Inl NoReturn | Some x \<Rightarrow> Inr x)"

definition vec_index :: "'a list \<Rightarrow> nat \<Rightarrow> treesync_error + 'a" where
  "vec_index xs i = (if i < length xs then Inr (xs ! i) else Inl Panic)"

definition vec_assign :: "'a list \<Rightarrow> nat \<Rightarrow> 'a \<Rightarrow> treesync_error + 'a list" where
  "vec_assign xs i x = (if i < length xs then Inr (xs[i := x]) else Inl Panic)"

section \<open>Members\<close>

definition tsd_leaf_count :: "tree_sync_diff \<Rightarrow> nat" where
  "tsd_leaf_count d = ab_leaf_count (tsd_diff d)"

definition tsd_tree_size :: "tree_sync_diff \<Rightarrow> nat" where
  "tsd_tree_size d = ab_size (tsd_diff d)"

definition tsd_leaf :: "tree_sync_diff \<Rightarrow> nat \<Rightarrow> leaf_node option" where
  "tsd_leaf d i = ab_leaf (tsd_diff d) i"

definition rightmost_full_leaf :: "tree_sync_diff \<Rightarrow> nat" where
  "rightmost_full_leaf d =
     wrap32 (usize_sub (usize_add (num_members d) (length (blanked_leaves d))) 1)"

text \<open>An error of \<open>shrink_tree\<close> is dropped and the loop goes on with the diff it left.\<close>

partial_function (option) trim_loop :: "nat \<Rightarrow> ts_ab_diff \<Rightarrow> ts_ab_diff option" where
  "trim_loop rfl d =
     (if leaf_is_left (ab_size d) rfl
      then trim_loop rfl (case ab_shrink_tree d of Inr d' \<Rightarrow> d' | Inl _ \<Rightarrow> d)
      else Some d)"

definition trim_tree :: "tree_sync_diff \<Rightarrow> treesync_error + tree_sync_diff" where
  "trim_tree d =
     (if tsd_leaf_count d = min_tree_size then Inr d
      else try_bind (looped (trim_loop (rightmost_full_leaf d) (tsd_diff d)))
        (\<lambda>diff'. Inr (d\<lparr>tsd_diff := diff'\<rparr>)))"

definition update_leaf :: "leaf_node \<Rightarrow> nat \<Rightarrow> tree_sync_diff \<Rightarrow> treesync_error + tree_sync_diff" where
  "update_leaf leaf i d =
     try_bind (looped (ab_set_direct_path_to_node i None (ab_replace_leaf i (Some leaf) (tsd_diff d))))
       (\<lambda>diff'. Inr (d\<lparr>tsd_diff := diff'\<rparr>))"

definition free_leaf_index :: "tree_sync_diff \<Rightarrow> nat" where
  "free_leaf_index d =
     (if blanked_leaves d \<noteq> [] then Min (set (blanked_leaves d)) else wrap32 (num_members d))"

partial_function (option) grow_loop ::
  "nat \<Rightarrow> ts_ab_diff \<Rightarrow> (treesync_error + ts_ab_diff) option" where
  "grow_loop i d =
     (if i \<ge> leaf_count (ab_size d)
      then ret_bind (Some (case ab_grow_tree d of Inl _ \<Rightarrow> Inl TreeFull | Inr d' \<Rightarrow> Inr d'))
             (\<lambda>d'. grow_loop i d')
      else Some (Inr d))"

fun add_unmerged_to_path :: "nat \<Rightarrow> nat list \<Rightarrow> ts_ab_diff \<Rightarrow> ts_ab_diff" where
  "add_unmerged_to_path i [] d = d"
| "add_unmerged_to_path i (p # path) d =
     add_unmerged_to_path i path (ab_parent_mut p (map_option (add_unmerged_leaf i)) d)"

definition add_leaf :: "leaf_node \<Rightarrow> tree_sync_diff \<Rightarrow> treesync_error + nat \<times> tree_sync_diff" where
  "add_leaf leaf d =
     (let i = free_leaf_index d in
      try_bind (returned (grow_loop i (tsd_diff d))) (\<lambda>grown.
      let diff' = ab_replace_leaf i (Some leaf) grown in
      try_bind (looped (ab_direct_path diff' i)) (\<lambda>path.
        Inr (i, d\<lparr>tsd_diff := add_unmerged_to_path i path diff',
                  blanked_leaves := filter (\<lambda>j. j \<noteq> i) (blanked_leaves d),
                  num_members := usize_add (num_members d) 1\<rparr>))))"

definition blank_leaf :: "nat \<Rightarrow> tree_sync_diff \<Rightarrow> treesync_error + tree_sync_diff" where
  "blank_leaf i d =
     try_bind (looped (ab_set_direct_path_to_node i None (ab_replace_leaf i None (tsd_diff d))))
       (\<lambda>diff'. try_bind (trim_tree (d\<lparr>tsd_diff := diff'\<rparr>)) (\<lambda>d'.
          Inr (d'\<lparr>blanked_leaves := blanked_leaves d' @ [i],
                  num_members := usize_sub (num_members d') 1\<rparr>)))"

definition full_leaves :: "tree_sync_diff \<Rightarrow> leaf_node list" where
  "full_leaves d = List.map_filter snd (ab_leaves (tsd_diff d))"

section \<open>Resolutions and filtered paths\<close>

datatype node_reference = RefLeaf leaf_node | RefParent parent_node

fun unmerged_resolution ::
  "tree_sync_diff \<Rightarrow> nat set \<Rightarrow> nat list \<Rightarrow> (tree_node_index \<times> node_reference) list" where
  "unmerged_resolution d excluded [] = []"
| "unmerged_resolution d excluded (i # is) =
     (if i \<notin> excluded then
        (case ab_leaf (tsd_diff d) i of
           Some leaf_node \<Rightarrow> (Leaf i, RefLeaf leaf_node) # unmerged_resolution d excluded is
         | None \<Rightarrow> unmerged_resolution d excluded is)
      else unmerged_resolution d excluded is)"

definition leaf_resolution ::
  "tree_sync_diff \<Rightarrow> nat set \<Rightarrow> nat \<Rightarrow> (tree_node_index \<times> node_reference) list" where
  "leaf_resolution d excluded i =
     (if i \<in> excluded then []
      else case ab_leaf (tsd_diff d) i of
             Some leaf \<Rightarrow> [(Leaf i, RefLeaf leaf)]
           | None \<Rightarrow> [])"

fun leaf_beyond :: "nat \<Rightarrow> tree_node_index \<Rightarrow> bool" where
  "leaf_beyond rfl (Leaf i) = (i > rfl)"
| "leaf_beyond rfl (Parent _) = False"

partial_function (option) resolution ::
  "tree_node_index \<Rightarrow> tree_sync_diff \<Rightarrow> nat set \<Rightarrow> nat \<Rightarrow>
   (tree_node_index \<times> node_reference) list option" where
  "resolution node_index d excluded rfl =
     (case node_index of
        Leaf i \<Rightarrow> Some (leaf_resolution d excluded i)
      | Parent p \<Rightarrow>
          (case ab_parent (tsd_diff d) p of
             Some pn \<Rightarrow>
               Some ((Parent p, RefParent pn) #
                     unmerged_resolution d excluded (unmerged_leaves pn))
           | None \<Rightarrow>
               if leaf_beyond rfl (leftmost p) then Some []
               else
                 Option.bind (resolution (left p) d excluded rfl) (\<lambda>ls.
                 Option.bind (resolution (right p) d excluded rfl) (\<lambda>rs.
                   Some (ls @ rs)))))"

fun collect_loop :: "('a \<Rightarrow> 'b option) \<Rightarrow> 'a list \<Rightarrow> treesync_error + 'b list" where
  "collect_loop f [] = Inr []"
| "collect_loop f (x # xs) =
     try_bind (looped (f x)) (\<lambda>y. try_bind (collect_loop f xs) (\<lambda>ys. Inr (y # ys)))"

definition copath_resolutions ::
  "tree_sync_diff \<Rightarrow> nat \<Rightarrow> treesync_error + (tree_node_index \<times> node_reference) list list" where
  "copath_resolutions d i =
     (if tsd_leaf_count d = min_tree_size then Inr []
      else
        let rfl = rightmost_full_leaf d in
        try_bind (looped (ab_copath (tsd_diff d) i)) (\<lambda>path.
          collect_loop (\<lambda>node_index. resolution node_index d {} rfl) path))"

definition keep_nonempty :: "'a list \<Rightarrow> 'b list list \<Rightarrow> 'a list" where
  "keep_nonempty indices resolutions =
     List.map_filter (\<lambda>(index, resolution). if resolution \<noteq> [] then Some index else None)
       (zip indices resolutions)"

definition filtered_direct_path :: "tree_sync_diff \<Rightarrow> nat \<Rightarrow> treesync_error + nat list" where
  "filtered_direct_path d i =
     try_bind (looped (ab_direct_path (tsd_diff d) i)) (\<lambda>path.
     try_bind (copath_resolutions d i) (\<lambda>resolutions.
       Inr (keep_nonempty path resolutions)))"

definition filtered_copath :: "tree_sync_diff \<Rightarrow> nat \<Rightarrow> treesync_error + tree_node_index list" where
  "filtered_copath d i =
     try_bind (looped (ab_copath (tsd_diff d) i)) (\<lambda>path.
     try_bind (copath_resolutions d i) (\<lambda>resolutions.
       Inr (keep_nonempty path resolutions)))"

fun not_excluded_leaf :: "nat set \<Rightarrow> tree_node_index \<Rightarrow> bool" where
  "not_excluded_leaf excluded (Leaf i) = (i \<notin> excluded)"
| "not_excluded_leaf excluded (Parent _) = True"

fun filtered_resolutions_loop ::
  "tree_sync_diff \<Rightarrow> nat set \<Rightarrow> tree_node_index list \<Rightarrow>
   treesync_error + (tree_node_index \<times> node_reference) list list" where
  "filtered_resolutions_loop d excluded [] = Inr []"
| "filtered_resolutions_loop d excluded (node_index # path) =
     try_bind (looped (resolution node_index d {} (rightmost_full_leaf d))) (\<lambda>res.
     try_bind (filtered_resolutions_loop d excluded path) (\<lambda>rest.
       Inr (if res \<noteq> [] then filter (\<lambda>(index, node). not_excluded_leaf excluded index) res # rest
            else rest)))"

definition filtered_copath_resolutions ::
  "tree_sync_diff \<Rightarrow> nat \<Rightarrow> nat set \<Rightarrow>
   treesync_error + (tree_node_index \<times> node_reference) list list" where
  "filtered_copath_resolutions d i excluded =
     (if tsd_leaf_count d = 1 then Inr []
      else try_bind (looped (ab_copath (tsd_diff d) i)) (filtered_resolutions_loop d excluded))"

definition subtree_root_position :: "tree_sync_diff \<Rightarrow> nat \<Rightarrow> nat \<Rightarrow> treesync_error + nat" where
  "subtree_root_position d i j =
     (let subtree_root = ab_lowest_common_ancestor (tsd_diff d) i j in
      try_bind (filtered_direct_path d i) (\<lambda>path.
        let position = length (takeWhile (\<lambda>p. p \<noteq> subtree_root) path)
        in if position < length path then Inr position
           else Inl (TsLibraryError (CustomError ''index should be in the direct path''))))"

fun node_ref_key :: "node_reference \<Rightarrow> bytes" where
  "node_ref_key (RefLeaf leaf) = leaf_encryption_key (leaf_payload leaf)"
| "node_ref_key (RefParent pn) = pn_encryption_key pn"

fun find_owned_key ::
  "encryption_key_pair list \<Rightarrow> nat \<Rightarrow> bytes list \<Rightarrow> (encryption_key_pair \<times> nat) option" where
  "find_owned_key owned_keys position [] = None"
| "find_owned_key owned_keys position (pk # pks) =
     (case find (\<lambda>keypair. kp_public_key keypair = pk) owned_keys of
        Some keypair \<Rightarrow> Some (keypair, position)
      | None \<Rightarrow> find_owned_key owned_keys (position + 1) pks)"

definition decryption_key ::
  "tree_sync_diff \<Rightarrow> nat \<Rightarrow> nat set \<Rightarrow> encryption_key_pair list \<Rightarrow> nat \<Rightarrow>
   treesync_error + bytes \<times> nat" where
  "decryption_key d sender_leaf_index excluded owned_keys i =
     (let copath_node = ab_subtree_root_copath_node (tsd_diff d) sender_leaf_index i in
      try_bind (looped (resolution copath_node d excluded (rightmost_full_leaf d))) (\<lambda>res.
        case find_owned_key owned_keys 0 (map (node_ref_key \<circ> snd) res) of
          Some (keypair, position) \<Rightarrow> Inr (kp_private_key keypair, position)
        | None \<Rightarrow> Inl NoPrivateKeyFound))"

definition filtered_common_direct_path ::
  "tree_sync_diff \<Rightarrow> nat \<Rightarrow> nat \<Rightarrow> treesync_error + nat list" where
  "filtered_common_direct_path d i j =
     try_bind (filtered_direct_path d i) (\<lambda>x_path.
     try_bind (filtered_direct_path d j) (\<lambda>y_path.
       Inr (rev (common_prefix (rev x_path) (rev y_path)))))"

definition encryption_keys :: "tree_sync_diff \<Rightarrow> nat \<Rightarrow> treesync_error + bytes list" where
  "encryption_keys d i =
     (let own = (case ab_leaf (tsd_diff d) i of
                   Some leaf \<Rightarrow> [leaf_encryption_key (leaf_payload leaf)]
                 | None \<Rightarrow> []) in
      try_bind (filtered_direct_path d i) (\<lambda>path.
        Inr (own @ List.map_filter
               (\<lambda>p. case ab_parent (tsd_diff d) p of
                      Some node \<Rightarrow>
                        if i \<notin> set (unmerged_leaves node) then Some (pn_encryption_key node)
                        else None
                    | None \<Rightarrow> None)
               path)))"

section \<open>Tree hashes\<close>

definition excluded_leaf_hash ::
  "hash_provider \<Rightarrow> tree_sync_diff \<Rightarrow> nat set \<Rightarrow> nat \<Rightarrow> treesync_error + bytes" where
  "excluded_leaf_hash P d excluded i =
     lib (if i \<in> excluded then leaf_compute_tree_hash P None i
          else leaf_compute_tree_hash P (ab_leaf (tsd_diff d) i) i)"

partial_function (option) compute_tree_hash ::
  "tree_node_index \<Rightarrow> hash_provider \<Rightarrow> tree_sync_diff \<Rightarrow> nat set \<Rightarrow>
   (treesync_error + bytes) option" where
  "compute_tree_hash node_index P d excluded =
     (case node_index of
        Leaf i \<Rightarrow> Some (excluded_leaf_hash P d excluded i)
      | Parent p \<Rightarrow>
          ret_bind (compute_tree_hash (left p) P d excluded) (\<lambda>left_hash.
          ret_bind (compute_tree_hash (right p) P d excluded) (\<lambda>right_hash.
            Some (lib (parent_compute_tree_hash P (ab_parent (tsd_diff d) p) left_hash right_hash
                         excluded)))))"

definition tsd_tree_hash :: "tree_sync_diff \<Rightarrow> tree_node_index \<Rightarrow> treesync_error + bytes" where
  "tsd_tree_hash d node_index = vec_index (tsd_tree_hashes d) (tree_node_index_u32 node_index)"

definition store_tree_hash ::
  "tree_node_index \<Rightarrow> bytes \<Rightarrow> tree_sync_diff \<Rightarrow> treesync_error + bytes \<times> tree_sync_diff" where
  "store_tree_hash node_index h d =
     try_bind (vec_assign (tsd_tree_hashes d) (tree_node_index_u32 node_index) h)
       (\<lambda>hashes. Inr (h, d\<lparr>tsd_tree_hashes := hashes\<rparr>))"

partial_function (option) populate_tree_hashes ::
  "tree_node_index \<Rightarrow> hash_provider \<Rightarrow> nat set \<Rightarrow> tree_sync_diff \<Rightarrow>
   (treesync_error + bytes \<times> tree_sync_diff) option" where
  "populate_tree_hashes node_index P excluded d =
     (case node_index of
        Leaf i \<Rightarrow>
          Some (try_bind (excluded_leaf_hash P d excluded i) (\<lambda>result.
            store_tree_hash (Leaf i) result d))
      | Parent p \<Rightarrow>
          ret_bind (populate_tree_hashes (left p) P excluded d) (\<lambda>l.
          ret_bind (populate_tree_hashes (right p) P excluded (snd l)) (\<lambda>r.
            Some (try_bind
              (lib (parent_compute_tree_hash P (ab_parent (tsd_diff (snd r)) p) (fst l) (fst r)
                      excluded))
              (\<lambda>result. store_tree_hash (Parent p) result (snd r))))))"

text \<open>Leaves without a cached hash join the modified leaves as blanks.\<close>

fun add_missing_leaves ::
  "bytes list \<Rightarrow> nat list \<Rightarrow> (nat \<times> leaf_node option) list \<Rightarrow> (nat \<times> leaf_node option) list" where
  "add_missing_leaves hashes [] modified_leaves = modified_leaves"
| "add_missing_leaves hashes (i # is) modified_leaves =
     add_missing_leaves hashes is
       (if hashes ! i = [] \<and> \<not> list_ex (\<lambda>(idx, _). idx = wrap32 i div 2) modified_leaves
        then modified_leaves @ [(wrap32 i div 2, None)]
        else modified_leaves)"

fun hash_leaves ::
  "hash_provider \<Rightarrow> nat \<Rightarrow> (nat \<times> leaf_node option) list \<Rightarrow> nat list \<Rightarrow> bytes list \<Rightarrow>
   treesync_error + nat list \<times> bytes list" where
  "hash_leaves P sz [] queue hashes = Inr (queue, hashes)"
| "hash_leaves P sz ((index, leaf) # modified_leaves) queue hashes =
     try_bind (lib (leaf_compute_tree_hash P leaf index)) (\<lambda>h.
     try_bind (vec_assign hashes (tree_node_index_u32 (Leaf index)) h) (\<lambda>hashes'.
       hash_leaves P sz modified_leaves
         (if Leaf index \<noteq> root sz then queue @ [parent (Leaf index)] else queue) hashes'))"

definition hash_parent_step ::
  "hash_provider \<Rightarrow> ts_ab_diff \<Rightarrow> nat \<Rightarrow> bytes list \<Rightarrow> treesync_error + bytes list" where
  "hash_parent_step P d p hashes =
     try_bind (vec_index hashes (tree_node_index_u32 (left p))) (\<lambda>left_hash.
     try_bind (vec_index hashes (tree_node_index_u32 (right p))) (\<lambda>right_hash.
     try_bind (lib (parent_compute_tree_hash P (ab_parent d p) left_hash right_hash {})) (\<lambda>h.
       vec_assign hashes (tree_node_index_u32 (Parent p)) h)))"

partial_function (option) hash_queue_loop ::
  "nat list \<Rightarrow> hash_provider \<Rightarrow> ts_ab_diff \<Rightarrow> bytes list \<Rightarrow> (treesync_error + bytes list) option" where
  "hash_queue_loop queue P d hashes =
     (case queue of
        [] \<Rightarrow> Some (Inr hashes)
      | p # rest \<Rightarrow>
          ret_bind (Some (hash_parent_step P d p hashes)) (\<lambda>hashes'.
            hash_queue_loop
              (if Parent p \<noteq> root (ab_size d) then rest @ [parent (Parent p)] else rest)
              P d hashes'))"

definition update_tree_hashes ::
  "hash_provider \<Rightarrow> (nat \<times> leaf_node option) list \<Rightarrow> tree_sync_diff \<Rightarrow>
   treesync_error + bytes \<times> tree_sync_diff" where
  "update_tree_hashes P modified_leaves d =
     (let num_leaves = max (tsd_leaf_count d) min_tree_size;
          hashes = vec_resize (tsd_tree_hashes d) (num_leaves * 2 - 1) [];
          modified = add_missing_leaves hashes
            (filter (\<lambda>i. i mod 2 = 0) [0..<length hashes]) modified_leaves in
      try_bind (hash_leaves P (ab_size (tsd_diff d)) modified [] hashes) (\<lambda>(queue, hashes').
      try_bind (returned (hash_queue_loop queue P (tsd_diff d) hashes')) (\<lambda>hashes''.
      try_bind (vec_index hashes'' (tree_node_index_u32 (root (ab_size (tsd_diff d)))))
        (\<lambda>root_hash. Inr (root_hash, d\<lparr>tsd_tree_hashes := hashes''\<rparr>)))))"

definition tsd_root_hash :: "tree_sync_diff \<Rightarrow> treesync_error + bytes" where
  "tsd_root_hash d =
     vec_index (tsd_tree_hashes d) (tree_node_index_u32 (root (ab_size (tsd_diff d))))"

section \<open>Parent hashes and update paths\<close>

text \<open>The path from its root end: each node gets the parent hash of the node above it.\<close>

fun set_hashes_from_root ::
  "hash_provider \<Rightarrow> tree_sync_diff \<Rightarrow> ((nat \<times> parent_node) \<times> tree_node_index) list \<Rightarrow> bytes \<Rightarrow>
   treesync_error + (nat \<times> parent_node) list \<times> bytes" where
  "set_hashes_from_root P d [] previous = Inr ([], previous)"
| "set_hashes_from_root P d (((index, node), copath_node) # rest) previous =
     (let node' = set_parent_hash previous node in
      try_bind (tsd_tree_hash d copath_node) (\<lambda>original_sibling_tree_hash.
      try_bind (lib (compute_parent_hash P node' original_sibling_tree_hash)) (\<lambda>parent_hash.
      try_bind (set_hashes_from_root P d rest parent_hash) (\<lambda>(nodes, last).
        Inr ((index, node') # nodes, last)))))"

definition set_parent_hashes ::
  "hash_provider \<Rightarrow> (nat \<times> parent_node) list \<Rightarrow> nat \<Rightarrow> tree_sync_diff \<Rightarrow>
   treesync_error + bytes \<times> (nat \<times> parent_node) list \<times> tree_sync_diff" where
  "set_parent_hashes P path i d =
     (if path = [] then Inr ([], path, d)
      else
        try_bind (filtered_copath d i) (\<lambda>copath_nodes.
        try_bind (update_tree_hashes P (ab_diff_leaves (tsd_diff d)) d) (\<lambda>(_, d').
        try_bind (set_hashes_from_root P d' (zip (rev path) (rev copath_nodes)) [])
          (\<lambda>(nodes, last).
             Inr (last, take (length path - length nodes) path @ rev nodes, d')))))"

definition process_update_path ::
  "hash_provider \<Rightarrow> nat \<Rightarrow> (nat \<times> parent_node) list \<Rightarrow> tree_sync_diff \<Rightarrow>
   treesync_error + bytes \<times> tree_sync_diff" where
  "process_update_path P i path d =
     try_bind (set_parent_hashes P path i d) (\<lambda>(parent_hash, path', d').
     try_bind (looped (ab_direct_path (tsd_diff d') i)) (\<lambda>direct.
       let blanked = fold (\<lambda>p. ab_parent_mut p (\<lambda>_. None)) direct (tsd_diff d');
           filled = fold (\<lambda>(p, node). ab_parent_mut p (\<lambda>_. Some node)) path' blanked
       in Inr (parent_hash, d'\<lparr>tsd_diff := filled\<rparr>)))"

definition apply_own_update_path ::
  "hash_provider \<Rightarrow> leaf_codec \<Rightarrow> (bytes \<Rightarrow> bytes option) \<Rightarrow> library_error + encryption_key_pair \<Rightarrow>
   bytes \<Rightarrow> nat \<Rightarrow> update_leaf_node_params \<Rightarrow> (nat \<times> parent_node) list \<Rightarrow> tree_sync_diff \<Rightarrow>
   treesync_error + encryption_key_pair list \<times> tree_sync_diff" where
  "apply_own_update_path P C signer random_pair group_id i params path d =
     try_bind (process_update_path P i path d) (\<lambda>(parent_hash, d').
     try_bind (lib (leaf_new_with_parent_hash C signer random_pair parent_hash params group_id i))
       (\<lambda>(leaf, keypair).
     try_bind (update_tree_hashes P [(i, Some leaf)] d') (\<lambda>(_, d'').
       Inr ([keypair], d''\<lparr>tsd_diff := ab_replace_leaf i (Some leaf) (tsd_diff d'')\<rparr>))))"

record hpke_ciphertext =
  kem_output :: bytes
  ciphertext :: bytes

record update_path_node =
  upn_public_key :: bytes
  encrypted_path_secrets :: "hpke_ciphertext list"

record update_path =
  up_leaf_node :: leaf_node
  up_nodes :: "update_path_node list"

text \<open>A committer without a leaf in the tree (an external commit) is added first.\<close>

definition ensure_sender_leaf ::
  "nat \<Rightarrow> leaf_node \<Rightarrow> tree_sync_diff \<Rightarrow> treesync_error + tree_sync_diff" where
  "ensure_sender_leaf sender leaf d =
     (if ab_leaf (tsd_diff d) sender = None \<or> sender \<ge> tsd_leaf_count d
      then try_bind (add_leaf leaf d) (\<lambda>(new_leaf_index, d').
             if sender \<noteq> new_leaf_index then Inl InconsistentSenderIndex else Inr d')
      else Inr d)"

definition apply_received_update_path ::
  "hash_provider \<Rightarrow> nat \<Rightarrow> update_path \<Rightarrow> tree_sync_diff \<Rightarrow> treesync_error + tree_sync_diff" where
  "apply_received_update_path P sender up d =
     try_bind (ensure_sender_leaf sender (up_leaf_node up) d) (\<lambda>d1.
     try_bind (filtered_direct_path d1 sender) (\<lambda>indices.
       if length indices \<noteq> length (up_nodes up) then Inl PathLengthMismatch
       else
         try_bind (process_update_path P sender
             (zip indices (map (parent_node_from_key \<circ> upn_public_key) (up_nodes up))) d1)
           (\<lambda>(parent_hash, d2).
         case leaf_parent_hash (up_leaf_node up) of
           None \<Rightarrow> Inl MissingParentHash
         | Some leaf_parent_hash' \<Rightarrow>
             if leaf_parent_hash' \<noteq> parent_hash then Inl ParentHashMismatch
             else
               try_bind (update_tree_hashes P [(sender, Some (up_leaf_node up))] d2)
                 (\<lambda>(_, d3).
                    Inr (d3\<lparr>tsd_diff :=
                      ab_replace_leaf sender (Some (up_leaf_node up)) (tsd_diff d3)\<rparr>)))))"

end
