(* ===== verification/Tree_Members.thy ===== *)
theory Tree_Members
  imports Tree_Sync_Diff
begin

text \<open>
  What the membership operations of the diff (\<open>add_leaf\<close>, \<open>update_leaf\<close>, \<open>blank_leaf\<close>,
  \<open>free_leaf_index\<close> and \<open>trim_tree\<close> of \<open>treesync/diff.rs\<close>) do to the leaves, to the two counters
  and to the lists of unmerged leaves. The abstract view of a tree is the map from leaf index
  to leaf node; the operations refine an update of that map.
\<close>

section \<open>Invariants\<close>

text \<open>
  The high-water mark: one more than the right-most leaf that has been in use since the tree
  was created or imported.
\<close>

definition high_water :: "tree_sync_diff \<Rightarrow> nat" where
  "high_water d = num_members d + length (blanked_leaves d)"

definition members :: "tree_sync_diff \<Rightarrow> nat \<rightharpoonup> leaf_node" where
  "members d = ab_leaf (tsd_diff d)"

definition members_inv :: "tree_sync_diff \<Rightarrow> bool" where
  "members_inv d \<longleftrightarrow>
     ab_inv (tsd_diff d) \<and> ab_covers (tsd_diff d) \<and>
     num_members d = card (dom (members d)) \<and>
     distinct (blanked_leaves d) \<and>
     set (blanked_leaves d) = {i. i < high_water d \<and> i \<notin> dom (members d)} \<and>
     high_water d \<le> tsd_leaf_count d \<and> tsd_leaf_count d < 2 * high_water d"

text \<open>
  A parent node at height \<open>k + 1\<close> has a member below each of its children, and its unmerged
  leaves are members below it, listed in increasing order.
\<close>

definition parents_inv :: "tree_sync_diff \<Rightarrow> bool" where
  "parents_inv d \<longleftrightarrow>
     (\<forall>k m pn. ab_parent (tsd_diff d) (node_at k m) = Some pn \<longrightarrow>
        (\<exists>i \<in> dom (members d). anc i k = 2 * m) \<and>
        (\<exists>i \<in> dom (members d). anc i k = 2 * m + 1) \<and>
        sorted_wrt (<) (unmerged_leaves pn) \<and>
        (\<forall>i \<in> set (unmerged_leaves pn). anc i (Suc k) = m \<and> i \<in> dom (members d)))"

section \<open>The counters\<close>

lemma members_outside: "members_inv d \<Longrightarrow> tsd_leaf_count d \<le> i \<Longrightarrow> members d i = None"
  using ab_leaf_outside [of "tsd_diff d" i]
  by (simp add: members_inv_def members_def tsd_leaf_count_def default_option_def)

lemma member_in_tree: "members_inv d \<Longrightarrow> i \<in> dom (members d) \<Longrightarrow> i < tsd_leaf_count d"
  using members_outside [of d i] by (cases "i < tsd_leaf_count d") auto

lemma finite_members: "members_inv d \<Longrightarrow> finite (dom (members d))"
  using members_outside [of d]
  by (intro finite_subset [of "dom (members d)" "{..<tsd_leaf_count d}"])
    (auto simp: dom_def not_le [symmetric])

lemma leaf_count_bound:
  assumes "ab_inv d"
  obtains h where "h < 30" and "ab_size d = full_size h" and "ab_leaf_count d = 2 ^ h"
    and "ab_leaf_count d \<le> 2 ^ 29"
proof -
  obtain h where h: "h < 30" "ab_size d = full_size h"
    using ab_inv_simps(2) [OF assms] by (rule legal_sizeE)
  moreover have "(2::nat) ^ h \<le> 2 ^ 29" using h(1) by (intro power_increasing) simp_all
  ultimately show ?thesis using that by (simp add: ab_leaf_count_def)
qed

lemma high_water_bound: "members_inv d \<Longrightarrow> high_water d \<le> 2 ^ 29"
proof -
  assume inv: "members_inv d"
  then have "ab_inv (tsd_diff d)" by (simp add: members_inv_def)
  then obtain h where "ab_leaf_count (tsd_diff d) \<le> 2 ^ 29" by (rule leaf_count_bound)
  then show ?thesis using inv by (simp add: members_inv_def tsd_leaf_count_def)
qed

text \<open>Every member sits below the high-water mark.\<close>

lemma members_below_high_water:
  assumes "members_inv d"
  shows "dom (members d) \<subseteq> {..<high_water d}"
proof -
  let ?M = "dom (members d)"
  let ?B = "{i. i < high_water d \<and> i \<notin> ?M}"
  have "card ?B = length (blanked_leaves d)"
    using assms distinct_card [of "blanked_leaves d"] by (simp add: members_inv_def)
  moreover have "{..<high_water d} = ?B \<union> (?M \<inter> {..<high_water d})" by auto
  then have "high_water d = card ?B + card (?M \<inter> {..<high_water d})"
    using card_Un_disjoint [of ?B "?M \<inter> {..<high_water d}"]
    by (metis (no_types, lifting) card_lessThan disjoint_iff finite_Un finite_lessThan mem_Collect_eq Int_iff)
  ultimately have "card (?M \<inter> {..<high_water d}) = card ?M"
    using assms by (simp add: members_inv_def high_water_def)
  then have "?M \<inter> {..<high_water d} = ?M"
    using finite_members [OF assms] by (intro card_subset_eq) auto
  then show ?thesis by blast
qed

lemma rightmost_full_leaf_eq:
  assumes "members_inv d"
  shows "rightmost_full_leaf d = high_water d - 1"
proof -
  have "0 < high_water d" "high_water d \<le> 2 ^ 29"
    using assms high_water_bound [OF assms] by (simp_all add: members_inv_def)
  then have "usize_sub (high_water d) 1 = high_water d - 1" and "high_water d < 2 ^ 32"
    using usize_sub_id [of 1 "high_water d"] by simp_all
  moreover have "usize_add (num_members d) (length (blanked_leaves d)) = high_water d"
    using \<open>high_water d \<le> 2 ^ 29\<close> by (simp add: high_water_def usize_add_id)
  ultimately show ?thesis
    by (simp add: rightmost_full_leaf_def)
qed

text \<open>The counters point at the left-most blank leaf, counting the leaf after the last one.\<close>

lemma free_leaf_index_least:
  assumes "members_inv d"
  shows "free_leaf_index d = (LEAST i. members d i = None)"
    and "free_leaf_index d \<le> tsd_leaf_count d"
    and "free_leaf_index d \<le> high_water d"
proof -
  let ?f = "free_leaf_index d"
  have below: "members d i \<noteq> None \<Longrightarrow> i < high_water d" for i
    using members_below_high_water [OF assms] by blast
  have blanked: "i \<in> set (blanked_leaves d) \<longleftrightarrow> i < high_water d \<and> members d i = None" for i
    using assms by (auto simp: members_inv_def dom_def)
  have "members d ?f = None \<and> ?f \<le> high_water d \<and> (\<forall>i < ?f. members d i \<noteq> None)"
  proof (cases "blanked_leaves d = []")
    case True
    then have "?f = high_water d"
      using high_water_bound [OF assms] by (simp add: free_leaf_index_def high_water_def)
    then show ?thesis
      using blanked True below by (metis empty_iff le_refl less_irrefl list.set(1))
  next
    case False
    then have f: "?f = Min (set (blanked_leaves d))" "?f \<in> set (blanked_leaves d)"
      by (simp_all add: free_leaf_index_def)
    have "members d i \<noteq> None" if "i < ?f" for i
    proof
      assume "members d i = None"
      with that f(2) blanked have "i \<in> set (blanked_leaves d)"
        by (meson less_trans)
      then have "?f \<le> i" using f(1) by simp
      with that show False by simp
    qed
    with f(2) blanked show ?thesis by (simp add: less_imp_le)
  qed
  then show "?f \<le> high_water d" and "?f = (LEAST i. members d i = None)"
    by (auto intro!: Least_equality [symmetric] leI)
  then show "?f \<le> tsd_leaf_count d"
    using assms by (simp add: members_inv_def)
qed

lemma free_leaf_index_blank: "members_inv d \<Longrightarrow> members d (free_leaf_index d) = None"
  using LeastI [of "\<lambda>i. members d i = None" "tsd_leaf_count d"]
    free_leaf_index_least(1) members_outside [of d "tsd_leaf_count d"] by simp

section \<open>Parents on a path\<close>

lemma anc_child: "anc i (Suc k) = m \<longleftrightarrow> anc i k = 2 * m \<or> anc i k = 2 * m + 1"
  using anc_div_2 [of i k] by presburger

lemma in_path_iff:
  "node_at k m \<in> set (map (\<lambda>j. node_at j (anc i (Suc j))) [0..<h]) \<longleftrightarrow> k < h \<and> anc i (Suc k) = m"
  by auto

lemma ab_parent_above:
  assumes "ab_inv d" and "ab_covers d" and "ab_size d = full_size h" and "h \<le> k"
  shows "ab_parent d (node_at k m) = None"
proof -
  have "ab_parent_count d \<le> node_at k m"
  proof (cases h)
    case 0
    then show ?thesis using assms(3) by (simp add: ab_parent_count_def parent_count_def)
  next
    case (Suc g)
    then have "ab_parent_count d = full_size g"
      using assms(3) by (simp add: ab_parent_count_def parent_count_def full_size_Suc)
    moreover have "\<not> node_at k m < full_size g"
      using assms(4) Suc by (simp add: node_at_less_full_iff)
    ultimately show ?thesis by simp
  qed
  then have "ab_parent d (node_at k m) = default"
    by (rule ab_parent_outside [OF assms(1,2)])
  then show ?thesis by (simp add: default_option_def)
qed

text \<open>The parents that a write along the direct path of a leaf reaches are those above it.\<close>

lemma path_write:
  assumes "ab_inv d" and "ab_covers d" and "ab_size d = full_size h" and "f None = None"
  shows "(if node_at k m \<in> set (map (\<lambda>j. node_at j (anc i (Suc j))) [0..<h])
          then f (ab_parent d (node_at k m)) else ab_parent d (node_at k m))
    = (if anc i (Suc k) = m then f (ab_parent d (node_at k m)) else ab_parent d (node_at k m))"
proof (cases "k < h")
  case True
  then show ?thesis by (simp only: in_path_iff) simp
next
  case False
  then have "ab_parent d (node_at k m) = None"
    by (intro ab_parent_above [OF assms(1-3)]) simp
  with assms(4) show ?thesis by simp
qed

section \<open>Adding a member\<close>

lemma grow_loop_inside: "i < leaf_count (ab_size d) \<Longrightarrow> grow_loop i d = Some (Inr d)"
  by (subst grow_loop.simps) simp

lemma grow_loop_edge:
  assumes "ab_inv d" and "ab_covers d" and "i = ab_leaf_count d"
  shows "ab_leaf_count d < 2 ^ 29 \<Longrightarrow>
      \<exists>d'. ab_grow_tree d = Inr d' \<and> grow_loop i d = Some (Inr d')"
    and "ab_leaf_count d = 2 ^ 29 \<Longrightarrow> grow_loop i d = Some (Inl TreeFull)"
proof -
  assume "ab_leaf_count d < 2 ^ 29"
  then obtain d' where d': "ab_grow_tree d = Inr d'"
    using ab_grow_tree_total [OF assms(1)] by blast
  obtain h where "ab_leaf_count d = 2 ^ h"
    using assms(1) by (rule leaf_count_bound)
  then have "i < leaf_count (ab_size d')"
    using ab_grow_tree_spec(3) [OF assms(1,2) d'] assms(3) by (simp add: ab_leaf_count_def)
  then have "grow_loop i d' = Some (Inr d')" by (rule grow_loop_inside)
  then have "grow_loop i d = Some (Inr d')"
    using assms(3) d' by (subst grow_loop.simps) (simp add: ab_leaf_count_def)
  with d' show "\<exists>d'. ab_grow_tree d = Inr d' \<and> grow_loop i d = Some (Inr d')" by blast
next
  assume full: "ab_leaf_count d = 2 ^ 29"
  obtain h where h: "h < 30" "ab_size d = full_size h" "ab_leaf_count d = 2 ^ h"
    using assms(1) by (rule leaf_count_bound)
  with full have "h = 29" by (metis one_less_numeral_iff power_inject_exp semiring_norm(76))
  then have "\<exists>e. ab_grow_tree d = Inl e"
    using h full_size_le_half [of 29] by (simp add: ab_grow_tree_def)
  then show "grow_loop i d = Some (Inl TreeFull)"
    using assms(3) by (subst grow_loop.simps) (auto simp: ab_leaf_count_def)
qed

lemma add_unmerged_to_path_fold:
  "add_unmerged_to_path i path d
    = fold (\<lambda>p d. ab_replace_parent p (map_option (add_unmerged_leaf i) (ab_parent d p)) d) path d"
  by (induction path arbitrary: d) (simp_all add: ab_parent_mut_eq)

lemma original_tree_modify_parents [simp]:
  "original_tree (fold (\<lambda>p d. ab_replace_parent p (f (ab_parent d p)) d) ps d) = original_tree d"
  by (induction ps arbitrary: d) simp_all

lemma ab_covers_cong:
  "original_tree d' = original_tree d \<Longrightarrow> ab_size d' = ab_size d \<Longrightarrow> ab_covers d' = ab_covers d"
  by (simp add: ab_covers_def ab_leaf_count_def ab_parent_count_def)

text \<open>Writing a leaf and adding it to the unmerged leaves above it.\<close>

lemma insert_leaf_spec:
  assumes "ab_inv d" and "ab_covers d" and "i < ab_leaf_count d"
  obtains d' path where "ab_direct_path (ab_replace_leaf i l d) i = Some path"
    and "d' = add_unmerged_to_path i path (ab_replace_leaf i l d)"
    and "ab_inv d'" and "ab_covers d'" and "ab_size d' = ab_size d"
    and "ab_leaf d' = (ab_leaf d)(i := l)"
    and "\<And>k m. ab_parent d' (node_at k m)
      = (if anc i (Suc k) = m then map_option (add_unmerged_leaf i) (ab_parent d (node_at k m))
         else ab_parent d (node_at k m))"
    and "original_tree d' = original_tree d"
proof -
  let ?d = "ab_replace_leaf i l d"
  let ?f = "map_option (add_unmerged_leaf i)"
  have inv: "ab_inv ?d" and cov: "ab_covers ?d" and size: "ab_size ?d = ab_size d"
    using assms by (simp_all add: ab.invar_leaf ab.size_leaf ab_leaf_count_def)
  have i: "i < ab_leaf_count ?d" using assms(3) size by (simp add: ab_leaf_count_def)
  obtain h where h: "ab_size ?d = full_size h" "i < 2 ^ h"
    and path: "ab_direct_path ?d i = Some (map (\<lambda>j. node_at j (anc i (Suc j))) [0..<h])"
    using inv i by (rule ab_direct_path_eq)
  let ?path = "map (\<lambda>j. node_at j (anc i (Suc j))) [0..<h]"
  let ?d' = "add_unmerged_to_path i ?path ?d"
  have "\<forall>p \<in> set ?path. p < parent_count (ab_size ?d)"
    using path_in_tree [OF h(2)] h(1) by auto
  note mod = ab.modify_parents_all [OF inv this path_distinct, of ?f]
  have "ab_parent ?d' (node_at k m) = (if anc i (Suc k) = m then ?f (ab_parent d (node_at k m))
      else ab_parent d (node_at k m))" for k m
    using mod path_write [OF inv cov h(1), of ?f k m i]
    by (simp add: add_unmerged_to_path_fold ab.parent_leaf)
  then show ?thesis
    using that [of ?path ?d'] mod path cov size assms(1)
    by (simp add: add_unmerged_to_path_fold ab.leaf_leaf
        ab_covers_cong [of "fold (\<lambda>p d. ab_replace_parent p (?f (ab_parent d p)) d) ?path ?d" ?d])
qed

lemma members_inv_simps:
  assumes "members_inv d"
  shows "ab_inv (tsd_diff d)" and "ab_covers (tsd_diff d)"
    and "num_members d = card (dom (members d))" and "distinct (blanked_leaves d)"
    and "i \<in> set (blanked_leaves d) \<longleftrightarrow> i < high_water d \<and> members d i = None"
    and "high_water d \<le> tsd_leaf_count d" and "tsd_leaf_count d < 2 * high_water d"
  using assms by (auto simp: members_inv_def dom_def)

text \<open>The counters after a leaf has been filled.\<close>

lemma members_inv_fill:
  assumes inv: "members_inv d" and d': "ab_inv (tsd_diff d')" "ab_covers (tsd_diff d')"
    and fill: "members d' = (members d)(free_leaf_index d \<mapsto> leaf)"
    and blanked: "blanked_leaves d' = filter (\<lambda>j. j \<noteq> free_leaf_index d) (blanked_leaves d)"
    and num: "num_members d' = num_members d + 1"
    and count: "tsd_leaf_count d' = (if free_leaf_index d < tsd_leaf_count d then tsd_leaf_count d
      else 2 * tsd_leaf_count d)"
  shows "members_inv d'"
proof -
  let ?i = "free_leaf_index d"
  note simps = members_inv_simps [OF inv]
  have new: "members d ?i = None" using inv by (rule free_leaf_index_blank)
  have card: "num_members d' = card (dom (members d'))"
    using num fill new simps(3) finite_members [OF inv]
    by (simp add: domIff)
  have dist: "distinct (blanked_leaves d')"
    using simps(4) blanked by simp
  show ?thesis
  proof (cases "blanked_leaves d = []")
    case True
    have H: "?i = high_water d" "high_water d' = high_water d + 1"
      using True num blanked high_water_bound [OF inv]
      by (simp_all add: free_leaf_index_def high_water_def)
    have "\<forall>j < high_water d. members d j \<noteq> None"
      using simps(5) True by simp
    then have "set (blanked_leaves d') = {j. j < high_water d' \<and> j \<notin> dom (members d')}"
      using H True blanked fill by (auto simp: less_Suc_eq domIff)
    then show ?thesis
      using d' card dist H simps(6,7) count by (auto simp: members_inv_def)
  next
    case False
    have i: "?i \<in> set (blanked_leaves d)"
      using False by (simp add: free_leaf_index_def)
    have "blanked_leaves d' = remove1 ?i (blanked_leaves d)"
      using simps(4)
      by (auto simp: blanked distinct_remove1_removeAll removeAll_filter_not_eq intro!: filter_cong)
    with i have "length (blanked_leaves d') + 1 = length (blanked_leaves d)"
      using length_pos_if_in_set [OF i] by (simp add: length_remove1)
    then have H: "high_water d' = high_water d"
      using num by (simp add: high_water_def)
    have "?i < tsd_leaf_count d"
      using i simps(5,6) by (meson less_le_trans)
    moreover have "set (blanked_leaves d') = {j. j < high_water d' \<and> j \<notin> dom (members d')}"
      using H blanked fill simps(5) by (auto simp: domIff)
    ultimately show ?thesis
      using d' card dist H simps(6,7) count by (auto simp: members_inv_def)
  qed
qed

lemma parents_inv_fill:
  assumes "parents_inv d" and new: "members d i = None"
    and fill: "members d' = (members d)(i \<mapsto> leaf)"
    and parents: "\<And>k m. ab_parent (tsd_diff d') (node_at k m)
      = (if anc i (Suc k) = m then map_option (add_unmerged_leaf i) (ab_parent (tsd_diff d) (node_at k m))
         else ab_parent (tsd_diff d) (node_at k m))"
  shows "parents_inv d'"
  unfolding parents_inv_def
proof (intro allI impI)
  fix k m pn'
  assume pn': "ab_parent (tsd_diff d') (node_at k m) = Some pn'"
  show "(\<exists>j \<in> dom (members d'). anc j k = 2 * m) \<and> (\<exists>j \<in> dom (members d'). anc j k = 2 * m + 1) \<and>
    sorted_wrt (<) (unmerged_leaves pn') \<and>
    (\<forall>j \<in> set (unmerged_leaves pn'). anc j (Suc k) = m \<and> j \<in> dom (members d'))"
  proof (cases "anc i (Suc k) = m")
    case True
    then obtain pn where pn: "ab_parent (tsd_diff d) (node_at k m) = Some pn"
      and eq: "pn' = add_unmerged_leaf i pn"
      using pn' parents by auto
    have old: "\<exists>j \<in> dom (members d). anc j k = 2 * m" "\<exists>j \<in> dom (members d). anc j k = 2 * m + 1"
      "sorted_wrt (<) (unmerged_leaves pn)"
      "\<forall>j \<in> set (unmerged_leaves pn). anc j (Suc k) = m \<and> j \<in> dom (members d)"
      using assms(1) pn by (auto simp: parents_inv_def)
    then have "i \<notin> set (unmerged_leaves pn)" using new by (auto simp: domIff)
    then show ?thesis
      using old True fill
      by (auto simp: eq add_unmerged_leaf_def strict_sorted_unmerged_add set_unmerged_add)
  next
    case False
    then have "ab_parent (tsd_diff d) (node_at k m) = Some pn'" using pn' parents by simp
    then show ?thesis
      using assms(1) fill by (auto simp: parents_inv_def)
  qed
qed

lemma add_leaf_spec:
  assumes inv: "members_inv d" and um: "parents_inv d" and room: "free_leaf_index d < 2 ^ 29"
  obtains d' where "add_leaf leaf d = Inr (free_leaf_index d, d')"
    and "members_inv d'" and "parents_inv d'"
    and "members d' = (members d)(free_leaf_index d \<mapsto> leaf)"
    and "tsd_leaf_count d' = (if free_leaf_index d < tsd_leaf_count d then tsd_leaf_count d
      else 2 * tsd_leaf_count d)"
    and "\<And>k m. ab_parent (tsd_diff d') (node_at k m)
      = (if anc (free_leaf_index d) (Suc k) = m
         then map_option (add_unmerged_leaf (free_leaf_index d)) (ab_parent (tsd_diff d) (node_at k m))
         else ab_parent (tsd_diff d) (node_at k m))"
    and "tsd_tree_hashes d' = tsd_tree_hashes d"
    and "original_tree (tsd_diff d') = original_tree (tsd_diff d)"
proof -
  let ?i = "free_leaf_index d"
  let ?c = "tsd_leaf_count d"
  note simps = members_inv_simps [OF inv]
  obtain g where g: "grow_loop ?i (tsd_diff d) = Some (Inr g)" "ab_inv g" "ab_covers g"
    "ab_leaf g = ab_leaf (tsd_diff d)" "ab_parent g = ab_parent (tsd_diff d)"
    "ab_leaf_count g = (if ?i < ?c then ?c else 2 * ?c)"
    "original_tree g = original_tree (tsd_diff d)"
  proof (cases "?i < ?c")
    case True
    then show ?thesis
      using that [of "tsd_diff d"] simps grow_loop_inside [of ?i "tsd_diff d"]
      by (simp add: tsd_leaf_count_def ab_leaf_count_def)
  next
    case False
    with free_leaf_index_least(2) [OF inv] have eq: "?i = ab_leaf_count (tsd_diff d)"
      by (simp add: tsd_leaf_count_def)
    with room have "ab_leaf_count (tsd_diff d) < 2 ^ 29" by simp
    from grow_loop_edge(1) [OF simps(1,2) eq this]
    obtain g where gr: "ab_grow_tree (tsd_diff d) = Inr g"
      and loop: "grow_loop ?i (tsd_diff d) = Some (Inr g)"
      by blast
    show ?thesis
      using that [of g] loop False ab_grow_tree_spec [OF simps(1,2) gr]
      by (simp add: tsd_leaf_count_def)
  qed
  have "?i < ab_leaf_count g"
    using g(6) free_leaf_index_least(2) [OF inv] simps(6,7) by (cases "?i < ?c") simp_all
  with g(2,3) obtain diff' path
    where path: "ab_direct_path (ab_replace_leaf ?i (Some leaf) g) ?i = Some path"
      and diff': "diff' = add_unmerged_to_path ?i path (ab_replace_leaf ?i (Some leaf) g)"
      and ok: "ab_inv diff'" "ab_covers diff'" "ab_size diff' = ab_size g"
        "ab_leaf diff' = (ab_leaf g)(?i := Some leaf)"
      and parents: "\<And>k m. ab_parent diff' (node_at k m)
        = (if anc ?i (Suc k) = m then map_option (add_unmerged_leaf ?i) (ab_parent g (node_at k m))
           else ab_parent g (node_at k m))"
      and orig: "original_tree diff' = original_tree g"
    by (rule insert_leaf_spec [of g ?i "Some leaf"]) blast
  define d' where "d' = d\<lparr>tsd_diff := diff',
      blanked_leaves := filter (\<lambda>j. j \<noteq> ?i) (blanked_leaves d),
      num_members := usize_add (num_members d) 1\<rparr>"
  have num: "num_members d' = num_members d + 1"
    using high_water_bound [OF inv] by (simp add: d'_def high_water_def usize_add_id)
  have mem: "members d' = (members d)(?i \<mapsto> leaf)"
    using ok(4) g(4) by (simp add: members_def d'_def)
  have count: "tsd_leaf_count d' = (if ?i < ?c then ?c else 2 * ?c)"
    using g(6) ok(3) by (simp add: tsd_leaf_count_def d'_def ab_leaf_count_def)
  have par: "ab_parent (tsd_diff d') (node_at k m)
      = (if anc ?i (Suc k) = m then map_option (add_unmerged_leaf ?i) (ab_parent (tsd_diff d) (node_at k m))
         else ab_parent (tsd_diff d) (node_at k m))" for k m
    using parents g(5) by (simp add: d'_def)
  have "add_leaf leaf d = Inr (?i, d')"
    using g(1) path diff'
    by (simp add: add_leaf_def Let_def returned_def looped_def d'_def)
  moreover have "members_inv d'"
    using ok(1,2) num count mem by (intro members_inv_fill [OF inv]) (simp_all add: d'_def)
  moreover have "parents_inv d'"
    using um free_leaf_index_blank [OF inv] mem par by (rule parents_inv_fill)
  ultimately show ?thesis
    using that mem count par orig g(7) by (simp add: d'_def)
qed

lemma add_leaf_full:
  assumes "members_inv d" and "free_leaf_index d = 2 ^ 29"
  shows "add_leaf leaf d = Inl TreeFull"
proof -
  note simps = members_inv_simps [OF assms(1)]
  have "ab_leaf_count (tsd_diff d) \<le> 2 ^ 29"
    using simps(1) by (rule leaf_count_bound)
  with free_leaf_index_least(2) [OF assms(1)] assms(2)
  have eq: "ab_leaf_count (tsd_diff d) = 2 ^ 29" by (simp add: tsd_leaf_count_def)
  then have "grow_loop (free_leaf_index d) (tsd_diff d) = Some (Inl TreeFull)"
    using assms(2) simps by (intro grow_loop_edge(2)) simp_all
  then show ?thesis
    by (simp add: add_leaf_def Let_def returned_def)
qed

section \<open>Updating and removing a member\<close>

text \<open>Writing a leaf and blanking its direct path.\<close>

lemma replace_and_blank_spec:
  assumes "ab_inv d" and "ab_covers d" and "i < ab_leaf_count d"
  obtains d' where "ab_set_direct_path_to_node i None (ab_replace_leaf i l d) = Some d'"
    and "ab_inv d'" and "ab_covers d'" and "ab_size d' = ab_size d"
    and "ab_leaf d' = (ab_leaf d)(i := l)"
    and "\<And>k m. ab_parent d' (node_at k m)
      = (if anc i (Suc k) = m then None else ab_parent d (node_at k m))"
    and "original_tree d' = original_tree d"
proof -
  let ?d = "ab_replace_leaf i l d"
  have inv: "ab_inv ?d" and cov: "ab_covers ?d" and size: "ab_size ?d = ab_size d"
    using assms by (simp_all add: ab.invar_leaf ab.size_leaf ab_leaf_count_def)
  have i: "i < ab_leaf_count ?d" using assms(3) size by (simp add: ab_leaf_count_def)
  obtain h where h: "ab_size ?d = full_size h"
    and path: "ab_direct_path ?d i = Some (map (\<lambda>j. node_at j (anc i (Suc j))) [0..<h])"
    using inv i by (rule ab_direct_path_eq)
  obtain d' path' where d': "ab_set_direct_path_to_node i None ?d = Some d'"
    "ab_direct_path ?d i = Some path'" "ab_inv d'" "ab_size d' = ab_size ?d" "ab_leaf d' = ab_leaf ?d"
    "ab_parent d' = (\<lambda>p. if p \<in> set path' then None else ab_parent ?d p)"
    "original_tree d' = original_tree ?d"
    using inv i by (rule ab_set_direct_path_spec)
  have "ab_parent d' (node_at k m) = (if anc i (Suc k) = m then None else ab_parent d (node_at k m))"
    for k m
  proof -
    have "ab_parent d' (node_at k m) = (if node_at k m \<in> set path' then None
        else ab_parent ?d (node_at k m))"
      by (simp only: d'(6))
    also have "\<dots> = (if anc i (Suc k) = m then None else ab_parent ?d (node_at k m))"
      using path_write [OF inv cov h, of "\<lambda>_. None" k m i] d'(2) path by (simp only: option.inject)
    finally show ?thesis by (simp only: ab.parent_leaf)
  qed
  then show ?thesis
    using that d' size cov assms(1) by (simp add: ab.leaf_leaf ab_covers_cong [of d' ?d])
qed

lemma parents_inv_blanked_path:
  assumes "parents_inv d" and "\<And>j. j \<noteq> i \<Longrightarrow> members d' j = members d j"
    and "\<And>k m. ab_parent (tsd_diff d') (node_at k m)
      = (if anc i (Suc k) = m then None else ab_parent (tsd_diff d) (node_at k m))"
  shows "parents_inv d'"
  unfolding parents_inv_def
proof (intro allI impI)
  fix k m pn
  assume pn: "ab_parent (tsd_diff d') (node_at k m) = Some pn"
  then have ne: "anc i (Suc k) \<noteq> m" and "ab_parent (tsd_diff d) (node_at k m) = Some pn"
    using assms(3) [of k m] by (auto split: if_splits)
  then have old: "\<exists>j \<in> dom (members d). anc j k = 2 * m" "\<exists>j \<in> dom (members d). anc j k = 2 * m + 1"
    "sorted_wrt (<) (unmerged_leaves pn)"
    "\<forall>j \<in> set (unmerged_leaves pn). anc j (Suc k) = m \<and> j \<in> dom (members d)"
    using assms(1) unfolding parents_inv_def by blast+
  have kept: "j \<in> dom (members d')" if "j \<in> dom (members d)" "anc j (Suc k) = m" for j
    using that ne assms(2) [of j] by (cases "j = i") (auto simp: domIff)
  have "anc j (Suc k) = m" if "anc j k = 2 * m \<or> anc j k = 2 * m + 1" for j
    using that by (simp only: anc_child)
  with old(1,2) kept have "\<exists>j \<in> dom (members d'). anc j k = 2 * m"
    and "\<exists>j \<in> dom (members d'). anc j k = 2 * m + 1" by blast+
  with old(3,4) kept show "(\<exists>j \<in> dom (members d'). anc j k = 2 * m) \<and>
    (\<exists>j \<in> dom (members d'). anc j k = 2 * m + 1) \<and>
    sorted_wrt (<) (unmerged_leaves pn) \<and>
    (\<forall>j \<in> set (unmerged_leaves pn). anc j (Suc k) = m \<and> j \<in> dom (members d'))"
    by blast
qed

lemma update_leaf_spec:
  assumes inv: "members_inv d" and um: "parents_inv d" and i: "i \<in> dom (members d)"
  obtains d' where "update_leaf leaf i d = Inr d'" and "members_inv d'" and "parents_inv d'"
    and "members d' = (members d)(i \<mapsto> leaf)" and "tsd_tree_size d' = tsd_tree_size d"
    and "\<And>k m. ab_parent (tsd_diff d') (node_at k m)
      = (if anc i (Suc k) = m then None else ab_parent (tsd_diff d) (node_at k m))"
    and "tsd_tree_hashes d' = tsd_tree_hashes d"
    and "original_tree (tsd_diff d') = original_tree (tsd_diff d)"
proof -
  note simps = members_inv_simps [OF inv]
  have lt: "i < ab_leaf_count (tsd_diff d)"
    using i by (simp add: member_in_tree [OF inv] flip: tsd_leaf_count_def)
  obtain diff' where diff':
    "ab_set_direct_path_to_node i None (ab_replace_leaf i (Some leaf) (tsd_diff d)) = Some diff'"
    "ab_inv diff'" "ab_covers diff'" "ab_size diff' = ab_size (tsd_diff d)"
    "ab_leaf diff' = (ab_leaf (tsd_diff d))(i := Some leaf)"
    "\<And>k m. ab_parent diff' (node_at k m)
      = (if anc i (Suc k) = m then None else ab_parent (tsd_diff d) (node_at k m))"
    "original_tree diff' = original_tree (tsd_diff d)"
    by (rule replace_and_blank_spec [OF simps(1,2) lt, of "Some leaf"]) blast
  let ?d = "d\<lparr>tsd_diff := diff'\<rparr>"
  have mem: "members ?d = (members d)(i \<mapsto> leaf)"
    using diff'(5) by (simp add: members_def)
  have count: "tsd_leaf_count ?d = tsd_leaf_count d" "high_water ?d = high_water d"
    using diff'(4) by (simp_all add: tsd_leaf_count_def ab_leaf_count_def high_water_def)
  have dom: "dom (members ?d) = dom (members d)" using mem i by auto
  have "members_inv ?d"
    using inv diff'(2,3) count unfolding members_inv_def dom by simp
  moreover have "parents_inv ?d"
    using um by (rule parents_inv_blanked_path [where i = i]) (simp_all add: mem diff'(6))
  moreover have "update_leaf leaf i d = Inr ?d"
    using diff'(1) by (simp add: update_leaf_def looped_def)
  ultimately show ?thesis
    using that mem diff'(4,6,7) by (simp add: tsd_tree_size_def)
qed

text \<open>
  Trimming never shrinks the tree: the right-most leaf the counters report is the high-water
  mark, which lies in the right half.
\<close>

lemma trim_tree_noop:
  assumes "members_inv d" and "ab_size (tsd_diff d') = ab_size (tsd_diff d)"
    and "num_members d' = num_members d" and "blanked_leaves d' = blanked_leaves d"
  shows "trim_tree d' = Inr d'"
proof (cases "tsd_leaf_count d' = min_tree_size")
  case True
  then show ?thesis by (simp add: trim_tree_def)
next
  case False
  note simps = members_inv_simps [OF assms(1)]
  have "rightmost_full_leaf d' = high_water d - 1"
    using rightmost_full_leaf_eq [OF assms(1)] assms(3,4) by (simp add: rightmost_full_leaf_def)
  moreover obtain h where h: "ab_size (tsd_diff d) = full_size h" "ab_leaf_count (tsd_diff d) = 2 ^ h"
    using simps(1) by (rule leaf_count_bound)
  moreover have "h \<noteq> 0"
    using False h assms(2) by (auto simp: tsd_leaf_count_def ab_leaf_count_def min_tree_size_def)
  ultimately have "\<not> leaf_is_left (ab_size (tsd_diff d')) (rightmost_full_leaf d')"
    using simps(7) assms(2)
    by (cases h) (simp_all add: leaf_is_left_def tsd_leaf_count_def)
  then have "trim_loop (rightmost_full_leaf d') (tsd_diff d') = Some (tsd_diff d')"
    by (subst trim_loop.simps) simp
  with False show ?thesis
    by (simp add: trim_tree_def looped_def)
qed

lemma members_inv_blank:
  assumes inv: "members_inv d" and d': "ab_inv (tsd_diff d')" "ab_covers (tsd_diff d')"
    and i: "i \<in> dom (members d)" and blank: "members d' = (members d)(i := None)"
    and blanked: "blanked_leaves d' = blanked_leaves d @ [i]"
    and num: "num_members d' = num_members d - 1"
    and count: "tsd_leaf_count d' = tsd_leaf_count d"
  shows "members_inv d'"
proof -
  note simps = members_inv_simps [OF inv]
  have card: "num_members d' = card (dom (members d'))" and pos: "0 < num_members d"
    using num blank i simps(3) finite_members [OF inv] by (auto simp: card_gt_0_iff)
  have H: "high_water d' = high_water d"
    using num pos blanked by (simp add: high_water_def)
  have "i < high_water d" using members_below_high_water [OF inv] i by blast
  then have "set (blanked_leaves d') = {j. j < high_water d' \<and> j \<notin> dom (members d')}"
    using H blanked blank simps(5) i by (auto simp: domIff)
  moreover have "distinct (blanked_leaves d')"
    using blanked simps(4,5) i by auto
  ultimately show ?thesis
    using d' card H simps(6,7) count by (auto simp: members_inv_def)
qed

lemma blank_leaf_spec:
  assumes inv: "members_inv d" and um: "parents_inv d" and i: "i \<in> dom (members d)"
  obtains d' where "blank_leaf i d = Inr d'" and "members_inv d'" and "parents_inv d'"
    and "members d' = (members d)(i := None)" and "tsd_tree_size d' = tsd_tree_size d"
    and "\<And>k m. ab_parent (tsd_diff d') (node_at k m)
      = (if anc i (Suc k) = m then None else ab_parent (tsd_diff d) (node_at k m))"
    and "tsd_tree_hashes d' = tsd_tree_hashes d"
    and "original_tree (tsd_diff d') = original_tree (tsd_diff d)"
proof -
  note simps = members_inv_simps [OF inv]
  have lt: "i < ab_leaf_count (tsd_diff d)"
    using i by (simp add: member_in_tree [OF inv] flip: tsd_leaf_count_def)
  obtain diff' where diff':
    "ab_set_direct_path_to_node i None (ab_replace_leaf i None (tsd_diff d)) = Some diff'"
    "ab_inv diff'" "ab_covers diff'" "ab_size diff' = ab_size (tsd_diff d)"
    "ab_leaf diff' = (ab_leaf (tsd_diff d))(i := None)"
    "\<And>k m. ab_parent diff' (node_at k m)
      = (if anc i (Suc k) = m then None else ab_parent (tsd_diff d) (node_at k m))"
    "original_tree diff' = original_tree (tsd_diff d)"
    by (rule replace_and_blank_spec [OF simps(1,2) lt, of None]) blast
  have trim: "trim_tree (d\<lparr>tsd_diff := diff'\<rparr>) = Inr (d\<lparr>tsd_diff := diff'\<rparr>)"
    using inv diff'(4) by (intro trim_tree_noop) simp_all
  have pos: "0 < num_members d"
    using simps(3) i finite_members [OF inv] by (auto simp: card_gt_0_iff)
  define d' where "d' = d\<lparr>tsd_diff := diff', blanked_leaves := blanked_leaves d @ [i],
      num_members := usize_sub (num_members d) 1\<rparr>"
  have num: "num_members d' = num_members d - 1"
    using pos high_water_bound [OF inv] usize_sub_id [of 1 "num_members d"]
    by (simp add: d'_def high_water_def)
  have mem: "members d' = (members d)(i := None)"
    using diff'(5) by (simp add: members_def d'_def)
  have "members_inv d'"
    using diff'(2-4) i mem num
    by (intro members_inv_blank [OF inv]) (simp_all add: d'_def tsd_leaf_count_def ab_leaf_count_def)
  moreover have "parents_inv d'"
  proof (rule parents_inv_blanked_path [OF um])
    show "members d' j = members d j" if "j \<noteq> i" for j using that by (simp add: mem)
    show "ab_parent (tsd_diff d') (node_at k m)
      = (if anc i (Suc k) = m then None else ab_parent (tsd_diff d) (node_at k m))" for k m
      using diff'(6) by (simp add: d'_def)
  qed
  moreover have "blank_leaf i d = Inr d'"
    using diff'(1) trim by (simp add: blank_leaf_def looped_def d'_def)
  ultimately show ?thesis
    using that mem diff'(4,6,7) by (simp add: tsd_tree_size_def d'_def)
qed

end
