(* ===== verification/Tree_Resolution.thy ===== *)
theory Tree_Resolution
  imports Tree_Members
begin

text \<open>
  Resolutions and filtered paths of the diff (\<open>treesync/diff.rs\<close>). The resolution of a node, cut
  off at the right-most leaf in use, equals the recursive definition of the protocol; it covers
  the members below the node. The filtered direct path of a leaf has the nodes whose copath
  subtree holds a member, two members share it from their lowest common ancestor upwards, and
  the key a receiver picks is the key the committer encrypted to.
\<close>

section \<open>The reference resolution\<close>

fun ref_resolution ::
  "tree_sync_diff \<Rightarrow> nat set \<Rightarrow> nat \<Rightarrow> nat \<Rightarrow> (tree_node_index \<times> node_reference) list" where
  "ref_resolution d excluded 0 m = leaf_resolution d excluded m"
| "ref_resolution d excluded (Suc k) m =
     (case ab_parent (tsd_diff d) (node_at k m) of
        Some pn \<Rightarrow> (Parent (node_at k m), RefParent pn) #
          unmerged_resolution d excluded (unmerged_leaves pn)
      | None \<Rightarrow> ref_resolution d excluded k (2 * m) @ ref_resolution d excluded k (2 * m + 1))"

text \<open>The resolution covers a leaf: by itself, or by a parent it has been merged into.\<close>

definition covers_leaf :: "(tree_node_index \<times> node_reference) list \<Rightarrow> nat \<Rightarrow> bool" where
  "covers_leaf res j \<longleftrightarrow>
     (\<exists>l. (Leaf j, RefLeaf l) \<in> set res) \<or>
     (\<exists>k pn. (Parent (node_at k (anc j (Suc k))), RefParent pn) \<in> set res \<and>
        j \<notin> set (unmerged_leaves pn))"

lemma tsd_height:
  assumes "members_inv d"
  obtains h where "h < 30" and "ab_size (tsd_diff d) = full_size h" and "tsd_leaf_count d = 2 ^ h"
  using leaf_count_bound [OF members_inv_simps(1) [OF assms]] by (metis tsd_leaf_count_def)

lemma unmerged_resolution_filter:
  "unmerged_resolution d E is
    = filter (\<lambda>(index, node). not_excluded_leaf E index) (unmerged_resolution d {} is)"
  by (induction "is") (auto split: option.splits)

text \<open>Excluding leaves while resolving is the same as filtering them out afterwards.\<close>

lemma ref_resolution_filter:
  "ref_resolution d E k m
    = filter (\<lambda>(index, node). not_excluded_leaf E index) (ref_resolution d {} k m)"
proof (induction k arbitrary: m)
  case 0
  show ?case by (simp add: leaf_resolution_def split: option.splits)
next
  case (Suc k)
  show ?case
    using Suc [of "2 * m"] Suc [of "2 * m + 1"] unmerged_resolution_filter [of d E]
    by (simp split: option.splits)
qed

lemma ref_resolution_empty_iff:
  assumes "parents_inv d"
  shows "ref_resolution d {} k m = [] \<longleftrightarrow> (\<forall>i \<in> dom (members d). anc i k \<noteq> m)"
proof (induction k arbitrary: m)
  case 0
  show ?case
    by (auto simp: leaf_resolution_def members_def domIff split: option.splits)
next
  case (Suc k)
  show ?case
  proof (cases "ab_parent (tsd_diff d) (node_at k m)")
    case None
    then show ?thesis
      using Suc.IH [of "2 * m"] Suc.IH [of "2 * m + 1"] by (auto simp: anc_child)
  next
    case (Some pn)
    then obtain i where "i \<in> dom (members d)" "anc i k = 2 * m"
      using assms unfolding parents_inv_def by blast
    with Some show ?thesis by (auto simp: anc_child)
  qed
qed

lemma ref_resolution_excluded_empty:
  "ref_resolution d {} k m = [] \<Longrightarrow> ref_resolution d E k m = []"
  by (subst ref_resolution_filter) simp

lemma unmerged_resolution_covers:
  "j \<in> set is \<Longrightarrow> members d j = Some l \<Longrightarrow> (Leaf j, RefLeaf l) \<in> set (unmerged_resolution d {} is)"
  by (induction "is") (auto simp: members_def split: option.splits)

lemma covers_leaf_append: "covers_leaf (xs @ ys) j \<longleftrightarrow> covers_leaf xs j \<or> covers_leaf ys j"
  unfolding covers_leaf_def set_append by blast

lemma ref_resolution_covers:
  assumes "members d j = Some l" and "anc j k = m"
  shows "covers_leaf (ref_resolution d {} k m) j"
  using assms(2)
proof (induction k arbitrary: m)
  case 0
  then show ?case
    using assms(1) by (auto simp: covers_leaf_def leaf_resolution_def members_def)
next
  case (Suc k)
  show ?case
  proof (cases "ab_parent (tsd_diff d) (node_at k m)")
    case None
    then show ?thesis
      using Suc.IH [OF refl] Suc.prems by (auto simp: covers_leaf_append anc_child)
  next
    case (Some pn)
    then show ?thesis
      using unmerged_resolution_covers [of j "unmerged_leaves pn" d l] assms(1) Suc.prems
      by (cases "j \<in> set (unmerged_leaves pn)") (auto simp: covers_leaf_def)
  qed
qed

section \<open>The resolution of the code\<close>

lemma below_leftmost: "anc i k = m \<Longrightarrow> 2 ^ k * m \<le> i"
  by (auto simp: anc_def)

lemma resolution_ref:
  assumes inv: "members_inv d" and par: "parents_inv d"
    and h: "h < 30" "ab_size (tsd_diff d) = full_size h"
    and k: "k \<le> h" "m < 2 ^ (h - k)"
  shows "resolution (node_ix k m) d E (rightmost_full_leaf d) = Some (ref_resolution d E k m)"
  using k
proof (induction k arbitrary: m)
  case 0
  show ?case by (subst resolution.simps) simp
next
  case (Suc k)
  have "node_at k m < full_size (h - 1)"
    using Suc.prems by (intro node_at_less_full) simp_all
  then have bound: "node_at k m < 2 ^ 30"
    using full_size_bound [of "h - 1"] h(1) by linarith
  have m: "2 * m < 2 ^ (h - k)" "2 * m + 1 < 2 ^ (h - k)"
    using Suc.prems by (simp_all add: Suc_diff_Suc [symmetric])
  have IH: "resolution (node_ix k (2 * m)) d E (rightmost_full_leaf d) = Some (ref_resolution d E k (2 * m))"
    "resolution (node_ix k (2 * m + 1)) d E (rightmost_full_leaf d) = Some (ref_resolution d E k (2 * m + 1))"
    using Suc.IH m Suc.prems(1) by simp_all
  show ?case
  proof (cases "ab_parent (tsd_diff d) (node_at k m)")
    case Some
    then show ?thesis by (subst resolution.simps) simp
  next
    case None
    show ?thesis
    proof (cases "leaf_beyond (rightmost_full_leaf d) (leftmost (node_at k m))")
      case True
      then have "high_water d \<le> 2 ^ Suc k * m"
        using bound rightmost_full_leaf_eq [OF inv] by (simp add: leftmost_node_at)
      moreover have "i < high_water d" if "i \<in> dom (members d)" for i
        using members_below_high_water [OF inv] that by blast
      ultimately have "\<forall>i \<in> dom (members d). anc i (Suc k) \<noteq> m"
        using below_leftmost [of _ "Suc k" m] by (meson le_less_trans not_less)
      then have "ref_resolution d E (Suc k) m = []"
        by (rule ref_resolution_empty_iff [OF par, THEN iffD2, THEN ref_resolution_excluded_empty])
      moreover have "resolution (node_ix (Suc k) m) d E (rightmost_full_leaf d) = Some []"
        using None True by (subst resolution.simps) simp
      ultimately show ?thesis by (simp only:)
    next
      case False
      have "resolution (node_ix (Suc k) m) d E (rightmost_full_leaf d)
          = Some (ref_resolution d E k (2 * m) @ ref_resolution d E k (2 * m + 1))"
        using None IH False left_node_at [OF bound] right_node_at [OF bound]
        by (subst resolution.simps) (simp del: One_nat_def)
      then show ?thesis using None by (simp del: One_nat_def)
    qed
  qed
qed

section \<open>Filtered paths\<close>

definition has_member :: "tree_sync_diff \<Rightarrow> nat \<Rightarrow> nat \<Rightarrow> bool" where
  "has_member d k m \<longleftrightarrow> (\<exists>i \<in> dom (members d). anc i k = m)"

text \<open>The heights on the path of a leaf at which the copath subtree holds a member.\<close>

definition live_heights :: "tree_sync_diff \<Rightarrow> nat \<Rightarrow> nat \<Rightarrow> nat \<Rightarrow> nat list" where
  "live_heights d i lo hi = filter (\<lambda>k. has_member d k (sib (anc i k))) [lo..<hi]"

lemma sib_bound: "m < 2 ^ n \<Longrightarrow> 0 < n \<Longrightarrow> sib m < 2 ^ n"
  using sib_less [of m n] by (auto simp: sib_def)

lemma collect_loop_map:
  "(\<And>x. x \<in> set xs \<Longrightarrow> f x = Some (g x)) \<Longrightarrow> collect_loop f xs = Inr (map g xs)"
  by (induction xs) (simp_all add: looped_def)

lemma keep_nonempty_map: "keep_nonempty (map f ks) (map g ks) = map f (filter (\<lambda>k. g k \<noteq> []) ks)"
  by (induction ks) (simp_all add: keep_nonempty_def map_filter_def)

lemma keep_nonempty_Nil [simp]: "keep_nonempty xs [] = []"
  by (simp add: keep_nonempty_def map_filter_def)

lemma live_heights_eq:
  assumes "parents_inv d"
  shows "filter (\<lambda>k. ref_resolution d {} k (sib (anc i k)) \<noteq> []) [lo..<hi] = live_heights d i lo hi"
  using ref_resolution_empty_iff [OF assms] by (simp add: live_heights_def has_member_def)

text \<open>A well-formed diff whose tree has height \<open>h\<close>.\<close>

definition tree_ok :: "tree_sync_diff \<Rightarrow> nat \<Rightarrow> bool" where
  "tree_ok d h \<longleftrightarrow>
     members_inv d \<and> parents_inv d \<and> h < 30 \<and> ab_size (tsd_diff d) = full_size h"

lemma tree_okD:
  assumes "tree_ok d h"
  shows "members_inv d" "parents_inv d" "h < 30" "ab_size (tsd_diff d) = full_size h"
    "tsd_leaf_count d = 2 ^ h"
  using assms by (simp_all add: tree_ok_def tsd_leaf_count_def ab_leaf_count_def)

lemma tree_ok_exists: "members_inv d \<Longrightarrow> parents_inv d \<Longrightarrow> \<exists>h. tree_ok d h"
  by (metis tree_ok_def tsd_height)

lemma tree_ok_member: "tree_ok d h \<Longrightarrow> i \<in> dom (members d) \<Longrightarrow> i < 2 ^ h"
  using member_in_tree [of d i] tree_okD [of d h] by simp

lemma copath_node_resolution:
  assumes "tree_ok d h" and "i < 2 ^ h" and "k < h"
  shows "resolution (node_ix k (sib (anc i k))) d E (rightmost_full_leaf d)
    = Some (ref_resolution d E k (sib (anc i k)))"
  using assms tree_okD [OF assms(1)] by (intro resolution_ref [of d h] sib_bound anc_less) simp_all

lemma copath_eq:
  assumes "tree_ok d h" and "i < 2 ^ h" and "h \<noteq> 0"
  shows "ab_copath (tsd_diff d) i = Some (map (\<lambda>k. node_ix k (sib (anc i k))) [0..<h])"
  using assms tree_okD [OF assms(1)] by (simp add: ab_copath_def copath_full)

lemma leaf_count_single: "tree_ok d h \<Longrightarrow> tsd_leaf_count d = min_tree_size \<longleftrightarrow> h = 0"
  by (simp add: tree_okD min_tree_size_def)

lemma copath_resolutions_eq:
  assumes "tree_ok d h" and "i < 2 ^ h"
  shows "copath_resolutions d i = Inr (map (\<lambda>k. ref_resolution d {} k (sib (anc i k))) [0..<h])"
proof (cases "h = 0")
  case True
  then show ?thesis
    using leaf_count_single [OF assms(1)] by (simp add: copath_resolutions_def)
next
  case False
  have "collect_loop (\<lambda>n. resolution n d {} (rightmost_full_leaf d))
      (map (\<lambda>k. node_ix k (sib (anc i k))) ks)
    = Inr (map (\<lambda>k. ref_resolution d {} k (sib (anc i k))) ks)" if "set ks \<subseteq> {..<h}" for ks
    using that copath_node_resolution [OF assms] by (induction ks) (simp_all add: looped_def)
  from this [of "[0..<h]"] show ?thesis
    using False leaf_count_single [OF assms(1)] copath_eq [OF assms]
    by (simp add: copath_resolutions_def Let_def looped_def atLeast0LessThan)
qed

lemma filtered_direct_path_eq:
  assumes "tree_ok d h" and "i < 2 ^ h"
  shows "filtered_direct_path d i
    = Inr (map (\<lambda>k. node_at k (anc i (Suc k))) (live_heights d i 0 h))"
proof -
  have "ab_direct_path (tsd_diff d) i = Some (map (\<lambda>k. node_at k (anc i (Suc k))) [0..<h])"
    using assms tree_okD [OF assms(1)] by (simp add: ab_direct_path_def direct_path_full)
  then show ?thesis
    using copath_resolutions_eq [OF assms] live_heights_eq [OF tree_okD(2) [OF assms(1)]]
    by (simp add: filtered_direct_path_def looped_def keep_nonempty_map)
qed

lemma filtered_copath_eq:
  assumes "tree_ok d h" and "i < 2 ^ h"
  shows "filtered_copath d i
    = Inr (map (\<lambda>k. node_ix k (sib (anc i k))) (live_heights d i 0 h))"
proof (cases "h = 0")
  case True
  then have "ab_copath (tsd_diff d) i = Some [Leaf 1]"
    using assms tree_okD [OF assms(1)] copath_single by (simp add: ab_copath_def)
  with True show ?thesis
    using copath_resolutions_eq [OF assms]
    by (simp add: filtered_copath_def looped_def live_heights_def)
next
  case False
  then show ?thesis
    using copath_resolutions_eq [OF assms] copath_eq [OF assms]
      live_heights_eq [OF tree_okD(2) [OF assms(1)]]
    by (simp add: filtered_copath_def looped_def keep_nonempty_map)
qed

text \<open>
  The resolutions the committer encrypts to, one per node of the filtered direct path, with the
  excluded leaves left out.
\<close>

lemma filtered_copath_resolutions_eq:
  assumes "tree_ok d h" and "i < 2 ^ h"
  shows "filtered_copath_resolutions d i E
    = Inr (map (\<lambda>k. ref_resolution d E k (sib (anc i k))) (live_heights d i 0 h))"
proof (cases "h = 0")
  case True
  then show ?thesis
    using leaf_count_single [OF assms(1)]
    by (simp add: filtered_copath_resolutions_def live_heights_def min_tree_size_def)
next
  case False
  have nonempty: "ref_resolution d {} k m \<noteq> [] \<longleftrightarrow> has_member d k m" for k m
    using ref_resolution_empty_iff [OF tree_okD(2) [OF assms(1)]] by (simp add: has_member_def)
  have "filtered_resolutions_loop d E (map (\<lambda>k. node_ix k (sib (anc i k))) ks)
    = Inr (map (\<lambda>k. ref_resolution d E k (sib (anc i k)))
        (filter (\<lambda>k. has_member d k (sib (anc i k))) ks))" if "set ks \<subseteq> {..<h}" for ks
    using that copath_node_resolution [OF assms] ref_resolution_filter [of d E] nonempty
    by (induction ks) (simp_all add: looped_def)
  from this [of "[0..<h]"] show ?thesis
    using False leaf_count_single [OF assms(1)] copath_eq [OF assms]
    by (simp add: filtered_copath_resolutions_def looped_def live_heights_def min_tree_size_def
        atLeast0LessThan)
qed

section \<open>Two members\<close>

lemma sib_eqI: "a div 2 = b div 2 \<Longrightarrow> a \<noteq> b \<Longrightarrow> sib a = b"
  by (cases "even a"; cases "even b") (auto simp: sib_def elim!: evenE oddE)

lemma sib_lca:
  assumes "i \<noteq> j"
  shows "sib (anc i (lca_height i j - 1)) = anc j (lca_height i j - 1)"
proof -
  let ?k = "lca_height i j - 1"
  have k: "lca_height i j = Suc ?k" using lca_height_pos [OF assms] by simp
  have "anc i (Suc ?k) = anc j (Suc ?k)" using k by (simp only: anc_eq_iff)
  moreover have "anc i ?k \<noteq> anc j ?k" using k by (simp add: anc_eq_iff)
  ultimately show ?thesis by (intro sib_eqI) simp_all
qed

lemma live_at_lca:
  assumes "i \<noteq> j" and "j \<in> dom (members d)"
  shows "has_member d (lca_height i j - 1) (sib (anc i (lca_height i j - 1)))"
  unfolding sib_lca [OF assms(1)] has_member_def using assms(2) by blast

lemma live_heights_split:
  "lo \<le> k \<Longrightarrow> k \<le> hi \<Longrightarrow> live_heights d i lo hi = live_heights d i lo k @ live_heights d i k hi"
  using upt_add_eq_append [of lo k "hi - k"] by (simp add: live_heights_def)

lemma live_heights_Cons:
  assumes "k < hi" and "has_member d k (sib (anc i k))"
  shows "live_heights d i k hi = k # live_heights d i (Suc k) hi"
  using assms by (simp add: live_heights_def upt_conv_Cons)

lemma live_heights_set: "k \<in> set (live_heights d i lo hi) \<Longrightarrow> lo \<le> k \<and> k < hi"
  by (simp add: live_heights_def)

lemma takeWhile_map_upto:
  assumes "\<And>k. k \<in> set xs \<Longrightarrow> f k \<noteq> f k0"
  shows "takeWhile (\<lambda>p. p \<noteq> f k0) (map f (xs @ k0 # ys)) = map f xs"
  using assms by (induction xs) auto

lemma subtree_root_position_eq:
  assumes ok: "tree_ok d h" and i: "i < 2 ^ h" and j: "j \<in> dom (members d)" and "i \<noteq> j"
  shows "subtree_root_position d i j = Inr (length (live_heights d i 0 (lca_height i j - 1)))"
proof -
  let ?k = "lca_height i j - 1"
  let ?f = "\<lambda>k. node_at k (anc i (Suc k))"
  have j': "j < 2 ^ h" using ok j by (rule tree_ok_member)
  have k: "?k < h" "lca_height i j = Suc ?k"
    using lca_height_le [OF i j'] lca_height_pos [OF \<open>i \<noteq> j\<close>] by simp_all
  have split: "live_heights d i 0 h
      = live_heights d i 0 ?k @ ?k # live_heights d i (Suc ?k) h"
    using live_heights_split [of 0 ?k h d i] k(1)
      live_heights_Cons [OF k(1) live_at_lca [OF \<open>i \<noteq> j\<close> j]] by simp
  have root: "ab_lowest_common_ancestor (tsd_diff d) i j = ?f ?k"
    using lowest_common_ancestor_eq [OF \<open>i \<noteq> j\<close> i j' tree_okD(3) [OF ok]] k(2)
    by (simp add: ab_lowest_common_ancestor_def)
  have "takeWhile (\<lambda>p. p \<noteq> ?f ?k) (map ?f (live_heights d i 0 h)) = map ?f (live_heights d i 0 ?k)"
    unfolding split by (rule takeWhile_map_upto) (auto dest: live_heights_set)
  moreover have "length (live_heights d i 0 ?k) < length (live_heights d i 0 h)"
    unfolding split by simp
  ultimately show ?thesis
    by (simp add: subtree_root_position_def filtered_direct_path_eq [OF ok i] root)
qed

lemma common_prefix_append: "common_prefix (zs @ xs) (zs @ ys) = zs @ common_prefix xs ys"
  by (induction zs) simp_all

lemma common_prefix_disjoint: "set xs \<inter> set ys = {} \<Longrightarrow> common_prefix xs ys = []"
  by (cases xs; cases ys) auto

lemma live_tail:
  assumes ok: "tree_ok d h" and i: "i \<in> dom (members d)" and j: "j \<in> dom (members d)"
    and "i \<noteq> j"
  shows "map (\<lambda>k. node_at k (anc j (Suc k))) (live_heights d j (lca_height i j - 1) h)
    = map (\<lambda>k. node_at k (anc i (Suc k))) (live_heights d i (lca_height i j - 1) h)"
proof -
  let ?k = "lca_height i j - 1"
  have i': "i < 2 ^ h" and j': "j < 2 ^ h" using ok i j by (auto intro: tree_ok_member)
  have k: "?k < h" "lca_height i j = Suc ?k" and kj: "lca_height j i - 1 = ?k"
    using lca_height_le [OF i' j'] lca_height_pos [OF \<open>i \<noteq> j\<close>] lca_height_commute [of i j]
    by simp_all
  have same: "anc i l = anc j l" if "Suc ?k \<le> l" for l
    using that k(2) by (simp only: anc_eq_iff)
  have "live_heights d i (Suc ?k) h = live_heights d j (Suc ?k) h"
    unfolding live_heights_def using same by (intro filter_cong) auto
  then have tail: "live_heights d i ?k h = live_heights d j ?k h"
    using live_heights_Cons [OF k(1) live_at_lca [OF \<open>i \<noteq> j\<close> j]]
      live_heights_Cons [of ?k h d j] live_at_lca [of j i d] i k(1) \<open>i \<noteq> j\<close> kj by simp
  show ?thesis
    unfolding tail using same by (auto dest!: live_heights_set)
qed

text \<open>Two members share their filtered paths from the lowest common ancestor upwards.\<close>

lemma filtered_common_direct_path_eq:
  assumes ok: "tree_ok d h" and i: "i \<in> dom (members d)" and j: "j \<in> dom (members d)"
    and "i \<noteq> j"
  shows "filtered_common_direct_path d i j
    = Inr (map (\<lambda>k. node_at k (anc i (Suc k))) (live_heights d i (lca_height i j - 1) h))"
proof -
  let ?k = "lca_height i j - 1"
  let ?f = "\<lambda>i k. node_at k (anc i (Suc k))"
  have i': "i < 2 ^ h" and j': "j < 2 ^ h" using ok i j by (auto intro: tree_ok_member)
  have k: "?k < h" "lca_height i j = Suc ?k"
    using lca_height_le [OF i' j'] lca_height_pos [OF \<open>i \<noteq> j\<close>] by simp_all
  have "?f i l \<noteq> ?f j l'" if "l < ?k" "l' < ?k" for l l'
    using that by (auto simp: anc_eq_iff)
  then have disj: "set (rev (map (?f i) (live_heights d i 0 ?k)))
      \<inter> set (rev (map (?f j) (live_heights d j 0 ?k))) = {}"
    by (auto dest!: live_heights_set)
  have "rev (common_prefix (rev (map (?f i) (live_heights d i 0 h)))
      (rev (map (?f j) (live_heights d j 0 h)))) = map (?f i) (live_heights d i ?k h)"
    using live_heights_split [of 0 ?k h d i] live_heights_split [of 0 ?k h d j] k(1)
      live_tail [OF assms] common_prefix_disjoint [OF disj]
    by (simp add: common_prefix_append rev_map)
  then show ?thesis
    by (simp add: filtered_common_direct_path_def filtered_direct_path_eq [OF ok i']
        filtered_direct_path_eq [OF ok j'])
qed

section \<open>The key a receiver decrypts with\<close>

lemma subtree_root_copath_node_eq:
  assumes ok: "tree_ok d h" and i: "i < 2 ^ h" and j: "j < 2 ^ h" and "i \<noteq> j"
  shows "ab_subtree_root_copath_node (tsd_diff d) i j
    = node_ix (lca_height i j - 1) (sib (anc i (lca_height i j - 1)))"
proof -
  let ?k = "lca_height i j - 1"
  let ?m = "anc i (Suc ?k)"
  have k: "?k < h" "lca_height i j = Suc ?k"
    using lca_height_le [OF i j] lca_height_pos [OF \<open>i \<noteq> j\<close>] by simp_all
  have "?m < 2 ^ (h - Suc ?k)" using i k(1) by (intro anc_less) simp_all
  then have "node_at ?k ?m < full_size (h - 1)"
    using k(1) by (intro node_at_less_full) simp_all
  then have bound: "node_at ?k ?m < 2 ^ 30"
    using full_size_bound [of "h - 1"] tree_okD(3) [OF ok] by linarith
  have root: "lowest_common_ancestor i j = node_at ?k ?m"
    using lowest_common_ancestor_eq [OF \<open>i \<noteq> j\<close> i j tree_okD(3) [OF ok]] k(2) by simp
  have ij: "anc i ?k div 2 = ?m" "anc j ?k div 2 = ?m" "anc i ?k \<noteq> anc j ?k"
    using k(2) anc_eq_iff [of i "Suc ?k" j] anc_eq_iff [of i ?k j] by simp_all
  have "anc j ?k = (if j < i then 2 * ?m else 2 * ?m + 1)"
  proof (cases "j < i")
    case True
    then have "anc j ?k \<le> anc i ?k" by (simp add: anc_def div_le_mono)
    with ij True show ?thesis by presburger
  next
    case False
    then have "anc i ?k \<le> anc j ?k" by (simp add: anc_def div_le_mono)
    with ij False show ?thesis by presburger
  qed
  then show ?thesis
    using left_node_at [OF bound] right_node_at [OF bound] sib_lca [OF \<open>i \<noteq> j\<close>]
    by (simp add: ab_subtree_root_copath_node_def root)
qed

lemma find_owned_key_spec:
  "find_owned_key keys p pks = Some (kp, q) \<Longrightarrow>
     kp \<in> set keys \<and> p \<le> q \<and> q < p + length pks \<and> kp_public_key kp = pks ! (q - p)"
proof (induction pks arbitrary: p)
  case (Cons pk pks)
  show ?case
  proof (cases "find (\<lambda>keypair. kp_public_key keypair = pk) keys")
    case None
    then have "find_owned_key keys (p + 1) pks = Some (kp, q)" using Cons.prems by simp
    from Cons.IH [OF this] show ?thesis by (auto simp: nth_Cons')
  next
    case (Some kp')
    then have "kp = kp'" "q = p" using Cons.prems by simp_all
    with Some show ?thesis by (auto simp: find_Some_iff)
  qed
qed simp

lemma decryption_key_spec:
  assumes ok: "tree_ok d h" and i: "i < 2 ^ h" and j: "j \<in> dom (members d)" and "i \<noteq> j"
    and key: "decryption_key d i E owned_keys j = Inr (sk, q)"
    and rs: "filtered_copath_resolutions d i E = Inr rs"
    and pos: "subtree_root_position d i j = Inr p"
  shows "p < length rs" and "q < length (rs ! p)"
    and "\<exists>kp \<in> set owned_keys. kp_private_key kp = sk \<and>
      kp_public_key kp = node_ref_key (snd (rs ! p ! q))"
proof -
  let ?k = "lca_height i j - 1"
  have j': "j < 2 ^ h" using ok j by (rule tree_ok_member)
  have k: "?k < h" using lca_height_le [OF i j'] lca_height_pos [OF \<open>i \<noteq> j\<close>] by simp
  have p: "p = length (live_heights d i 0 ?k)"
    using pos subtree_root_position_eq [OF ok i j \<open>i \<noteq> j\<close>] by simp
  have split: "live_heights d i 0 h = live_heights d i 0 ?k @ ?k # live_heights d i (Suc ?k) h"
    using live_heights_split [of 0 ?k h d i] k
      live_heights_Cons [OF k live_at_lca [OF \<open>i \<noteq> j\<close> j]] by simp
  have rs': "rs = map (\<lambda>k. ref_resolution d E k (sib (anc i k))) (live_heights d i 0 h)"
    using rs filtered_copath_resolutions_eq [OF ok i] by simp
  show "p < length rs" by (simp add: rs' split p)
  have at: "rs ! p = ref_resolution d E ?k (sib (anc i ?k))"
    by (simp add: rs' split p nth_append)
  have res: "resolution (ab_subtree_root_copath_node (tsd_diff d) i j) d E (rightmost_full_leaf d)
      = Some (rs ! p)"
    using subtree_root_copath_node_eq [OF ok i j' \<open>i \<noteq> j\<close>] copath_node_resolution [OF ok i k] at
    by simp
  obtain kp where kp: "find_owned_key owned_keys 0 (map (node_ref_key \<circ> snd) (rs ! p)) = Some (kp, q)"
    and sk: "sk = kp_private_key kp"
    using key res by (auto simp: decryption_key_def looped_def split: option.splits)
  show "q < length (rs ! p)" and "\<exists>kp \<in> set owned_keys. kp_private_key kp = sk \<and>
      kp_public_key kp = node_ref_key (snd (rs ! p ! q))"
    using find_owned_key_spec [OF kp] sk by auto
qed

end
