(* ===== verification/Tree_Kem.thy ===== *)
theory Tree_Kem
  imports Tree_Resolution
begin

text \<open>
  Encrypting a path to the copath resolutions and decrypting it (\<open>treesync/treekem.rs\<close>,
  \<open>PublicGroupDiff::decrypt_path\<close> of \<open>group/public_group/diff.rs\<close>, and \<open>PathSecret\<close> of
  \<open>messages/mod.rs\<close>). A receiver that holds a key of the resolution it belongs to derives the
  key pairs and the commit secret the committer derived.
\<close>

section \<open>Encrypting and decrypting\<close>

text \<open>HPKE sealing and opening, with the TLS encoding of their context, are arguments.\<close>

record hpke_provider =
  hpke_seal :: "bytes \<Rightarrow> string \<Rightarrow> bytes \<Rightarrow> bytes \<Rightarrow> hpke_ciphertext option"
  hpke_open :: "bytes \<Rightarrow> string \<Rightarrow> bytes \<Rightarrow> hpke_ciphertext \<Rightarrow> bytes option"

definition encryption_key_encrypt ::
  "hpke_provider \<Rightarrow> bytes \<Rightarrow> bytes \<Rightarrow> bytes \<Rightarrow> library_error + hpke_ciphertext" where
  "encryption_key_encrypt X pk context plaintext =
     (case hpke_seal X pk ''UpdatePathNode'' context plaintext of
        Some c \<Rightarrow> Inr c
      | None \<Rightarrow> Inl (CustomError ''Encryption failed. A serialization issue really''))"

definition path_secret_decrypt ::
  "hpke_provider \<Rightarrow> hpke_ciphertext \<Rightarrow> bytes \<Rightarrow> bytes \<Rightarrow> bytes option" where
  "path_secret_decrypt X c sk group_context = hpke_open X sk ''UpdatePathNode'' group_context c"

fun collect_results :: "('a \<Rightarrow> 'e + 'b) \<Rightarrow> 'a list \<Rightarrow> 'e + 'b list" where
  "collect_results f [] = Inr []"
| "collect_results f (x # xs) =
     try_bind (f x) (\<lambda>y. try_bind (collect_results f xs) (\<lambda>ys. Inr (y # ys)))"

definition plain_node_encrypt ::
  "hpke_provider \<Rightarrow> plain_update_path_node \<Rightarrow> bytes list \<Rightarrow> bytes \<Rightarrow> library_error + update_path_node" where
  "plain_node_encrypt X node public_keys group_context =
     try_bind (collect_results
         (\<lambda>pk. encryption_key_encrypt X pk group_context (plain_path_secret node)) public_keys)
       (\<lambda>encrypted. Inr \<lparr>upn_public_key = plain_public_key node, encrypted_path_secrets = encrypted\<rparr>)"

definition encrypt_path ::
  "hpke_provider \<Rightarrow> plain_update_path_node list \<Rightarrow> bytes \<Rightarrow> bytes list list \<Rightarrow>
   library_error + update_path_node list" where
  "encrypt_path X path group_context resolutions =
     collect_results (\<lambda>(node, keys). plain_node_encrypt X node keys group_context)
       (zip path resolutions)"

fun path_keys_match :: "update_path_node list \<Rightarrow> (nat \<times> parent_node) list \<Rightarrow> bool" where
  "path_keys_match (u # us) ((i, pn) # derived) =
     (if upn_public_key u \<noteq> pn_encryption_key pn then False else path_keys_match us derived)"
| "path_keys_match _ _ = True"

definition decrypt_path ::
  "hpke_provider \<Rightarrow> path_deriver \<Rightarrow> update_path_node list \<Rightarrow> nat \<Rightarrow> nat set \<Rightarrow> bytes \<Rightarrow>
   encryption_key_pair list \<Rightarrow> nat \<Rightarrow> nat list \<Rightarrow> nat \<Rightarrow> tree_sync_diff \<Rightarrow>
   treesync_error + encryption_key_pair list \<times> bytes" where
  "decrypt_path X K update_path sender excluded group_context owned_keys own_leaf_index
     common_path path_position d =
     (case vec_get update_path path_position of
        None \<Rightarrow> Inl (TsLibraryError (CustomError ''Expected to find ciphertext in update path 1''))
      | Some node \<Rightarrow>
          (case decryption_key d sender excluded owned_keys own_leaf_index of
             Inl _ \<Rightarrow> Inl (TsLibraryError (CustomError ''Expected sender to be in the tree''))
           | Inr (sk, resolution_position) \<Rightarrow>
               (case vec_get (encrypted_path_secrets node) resolution_position of
                  None \<Rightarrow>
                    Inl (TsLibraryError (CustomError ''Expected to find ciphertext in update path 2''))
                | Some c \<Rightarrow>
                    (case path_secret_decrypt X c sk group_context of
                       None \<Rightarrow> Inl UnableToDecrypt
                     | Some path_secret \<Rightarrow>
                         try_bind (lib (derive_path K path_secret common_path))
                           (\<lambda>(derived, plain, keypairs, commit_secret).
                              if path_keys_match (drop path_position update_path) derived
                              then Inr (keypairs, commit_secret)
                              else Inl PathMismatch)))))"

definition group_decrypt_path ::
  "hpke_provider \<Rightarrow> path_deriver \<Rightarrow> bytes option \<Rightarrow> encryption_key_pair list \<Rightarrow> nat \<Rightarrow> nat \<Rightarrow>
   update_path_node list \<Rightarrow> nat set \<Rightarrow> tree_sync_diff \<Rightarrow>
   treesync_error + encryption_key_pair list \<times> bytes" where
  "group_decrypt_path X K serialized_context owned_keys own_leaf_index sender update_path excluded d =
     (case serialized_context of
        None \<Rightarrow> Inl (TsLibraryError MissingBoundCheck)
      | Some group_context \<Rightarrow>
          (case subtree_root_position d sender own_leaf_index of
             Inl _ \<Rightarrow> Inl (TsLibraryError (CustomError ''Expected own leaf to be in the tree''))
           | Inr path_position \<Rightarrow>
               try_bind (filtered_common_direct_path d own_leaf_index sender) (\<lambda>common_path.
                 decrypt_path X K update_path sender excluded group_context owned_keys
                   own_leaf_index common_path path_position d)))"

section \<open>The receiver derives what the committer derived\<close>

lemma collect_results_nth:
  "collect_results f xs = Inr ys \<Longrightarrow> length ys = length xs \<and> (\<forall>i < length xs. f (xs ! i) = Inr (ys ! i))"
  by (induction xs arbitrary: ys) (auto simp: try_bind_eq_Inr nth_Cons split: nat.splits)

lemma encrypt_path_nth:
  assumes "encrypt_path X plain ctx keys = Inr nodes" and "length keys = length plain"
    and "p < length plain"
  shows "length nodes = length plain"
    and "upn_public_key (nodes ! p) = plain_public_key (plain ! p)"
    and "q < length (keys ! p) \<Longrightarrow> \<exists>c. vec_get (encrypted_path_secrets (nodes ! p)) q = Some c \<and>
      hpke_seal X (keys ! p ! q) ''UpdatePathNode'' ctx (plain_path_secret (plain ! p)) = Some c"
proof -
  have all: "length nodes = length (zip plain keys)"
    "\<forall>i < length (zip plain keys). (\<lambda>(node, ks). plain_node_encrypt X node ks ctx) (zip plain keys ! i)
      = Inr (nodes ! i)"
    using collect_results_nth [of _ "zip plain keys" nodes] assms(1) unfolding encrypt_path_def by blast+
  then show "length nodes = length plain" using assms(2) by simp
  have "plain_node_encrypt X (plain ! p) (keys ! p) ctx = Inr (nodes ! p)"
    using all(2) assms(2,3) by simp
  then obtain cs where cs: "collect_results
      (\<lambda>pk. encryption_key_encrypt X pk ctx (plain_path_secret (plain ! p))) (keys ! p) = Inr cs"
    and node: "nodes ! p = \<lparr>upn_public_key = plain_public_key (plain ! p), encrypted_path_secrets = cs\<rparr>"
    by (auto simp: plain_node_encrypt_def try_bind_eq_Inr)
  show "upn_public_key (nodes ! p) = plain_public_key (plain ! p)" by (simp add: node)
  show "\<exists>c. vec_get (encrypted_path_secrets (nodes ! p)) q = Some c \<and>
      hpke_seal X (keys ! p ! q) ''UpdatePathNode'' ctx (plain_path_secret (plain ! p)) = Some c"
    if "q < length (keys ! p)"
    using collect_results_nth [OF cs] that node
    by (auto simp: vec_get_def encryption_key_encrypt_def split: option.splits)
qed

lemma path_keys_match_eq:
  "map upn_public_key us = map (pn_encryption_key \<circ> snd) derived \<Longrightarrow> path_keys_match us derived"
  by (induction us derived rule: path_keys_match.induct) auto

text \<open>
  The committer \<open>i\<close> derives its path from \<open>s\<close> and encrypts it to the filtered copath
  resolutions; the member \<open>j\<close> finds a key of its own among them.
\<close>

lemma decrypt_encrypted_path:
  assumes ok: "tree_ok d h" and i: "i \<in> dom (members d)" and j: "j \<in> dom (members d)"
    and "i \<noteq> j"
    and indices: "filtered_direct_path d i = Inr indices"
    and derived: "derive_path K s indices = Inr (path, plain, keypairs, commit_secret)"
    and rs: "filtered_copath_resolutions d i E = Inr rs"
    and enc: "encrypt_path X plain ctx (map (map (node_ref_key \<circ> snd)) rs) = Inr nodes"
    and key: "decryption_key d i E owned_keys j = Inr (sk, q)"
    and hpke: "\<And>kp m c. kp \<in> set owned_keys \<Longrightarrow>
      hpke_seal X (kp_public_key kp) ''UpdatePathNode'' ctx m = Some c \<Longrightarrow>
      hpke_open X (kp_private_key kp) ''UpdatePathNode'' ctx c = Some m"
    and pos: "subtree_root_position d i j = Inr p"
  shows "group_decrypt_path X K (Some ctx) owned_keys j i nodes E d
    = Inr (drop p keypairs, commit_secret)"
proof -
  let ?k = "lca_height i j - 1"
  let ?f = "\<lambda>i k. node_at k (anc i (Suc k))"
  let ?A = "map (?f i) (live_heights d i 0 ?k)"
  let ?C = "map (?f i) (live_heights d i ?k h)"
  have i': "i < 2 ^ h" and j': "j < 2 ^ h" using ok i j by (auto intro: tree_ok_member)
  have k: "?k < h" "lca_height j i = lca_height i j"
    using lca_height_le [OF i' j'] lca_height_pos [OF \<open>i \<noteq> j\<close>] lca_height_commute [of i j]
    by simp_all
  have idx: "indices = ?A @ ?C"
    using indices filtered_direct_path_eq [OF ok i'] live_heights_split [of 0 ?k h d i] k(1) by simp
  have p: "p = length ?A"
    using pos subtree_root_position_eq [OF ok i' j \<open>i \<noteq> j\<close>] by simp
  have C: "?C \<noteq> []"
    using live_heights_Cons [OF k(1) live_at_lca [OF \<open>i \<noteq> j\<close> j]] by simp
  have common: "filtered_common_direct_path d j i = Inr ?C"
    using filtered_common_direct_path_eq [OF ok j i] live_tail [OF ok i j \<open>i \<noteq> j\<close>] \<open>i \<noteq> j\<close> k(2)
    by simp
  note lens = derive_path_indices [OF derived]
  have p_lt: "p < length plain" using lens(2) idx p C by simp
  note dk = decryption_key_spec [OF ok i' j \<open>i \<noteq> j\<close> key rs pos]
  have lrs: "length rs = length plain"
    using rs filtered_copath_resolutions_eq [OF ok i'] filtered_direct_path_eq [OF ok i'] indices lens(2)
    by auto
  have lks: "length (map (map (node_ref_key \<circ> snd)) rs) = length plain" using lrs by simp
  note en = encrypt_path_nth [OF enc lks p_lt]
  obtain kp where kp: "kp \<in> set owned_keys" "kp_private_key kp = sk"
    "kp_public_key kp = node_ref_key (snd (rs ! p ! q))"
    using dk(3) by blast
  have q: "q < length (map (map (node_ref_key \<circ> snd)) rs ! p)" using dk(1,2) by simp
  obtain c where c: "vec_get (encrypted_path_secrets (nodes ! p)) q = Some c"
    "hpke_seal X (kp_public_key kp) ''UpdatePathNode'' ctx (plain_path_secret (plain ! p)) = Some c"
    using en(3) [OF q] dk(1,2) kp(3) by auto
  have dec: "path_secret_decrypt X c sk ctx = Some (plain_path_secret (plain ! p))"
    using hpke [OF kp(1) c(2)] kp(2) by (simp add: path_secret_decrypt_def)
  have deriv: "derive_path K (plain_path_secret (plain ! p)) ?C
      = Inr (drop p path, drop p plain, drop p keypairs, commit_secret)"
    using derive_path_suffix [of K s ?A ?C] derived idx p C by simp
  have "map upn_public_key nodes = map plain_public_key plain"
    using encrypt_path_nth(1,2) [OF enc lks] p_lt by (auto intro!: nth_equalityI)
  then have keys: "map upn_public_key (drop p nodes) = map (pn_encryption_key \<circ> snd) (drop p path)"
    using lens(4,5) by (simp flip: drop_map)
  have "vec_get nodes p = Some (nodes ! p)"
    using en(1) p_lt by (simp add: vec_get_def)
  then show ?thesis
    using pos common key c(1) dec deriv path_keys_match_eq [OF keys]
    by (simp add: group_decrypt_path_def decrypt_path_def lib_def)
qed

end
