(* ===== verification/Tree_Agreement.thy ===== *)
theory Tree_Agreement
  imports Tree_Kem
begin

text \<open>
  The ratchet tree over a run of operations (\<open>treesync/diff.rs\<close>): a step relation for adding,
  updating and removing members with its invariant, and the agreement of all members that hold
  the private keys of their path on the secret of a commit.
\<close>

section \<open>Runs of membership changes\<close>

inductive tree_step :: "tree_sync_diff \<Rightarrow> tree_sync_diff \<Rightarrow> bool" where
  step_add: "add_leaf leaf d = Inr (i, d') \<Longrightarrow> tree_step d d'"
| step_update: "i \<in> dom (members d) \<Longrightarrow> update_leaf leaf i d = Inr d' \<Longrightarrow> tree_step d d'"
| step_blank: "i \<in> dom (members d) \<Longrightarrow> blank_leaf i d = Inr d' \<Longrightarrow> tree_step d d'"

inductive_cases tree_stepE: "tree_step d d'"

lemma add_leaf_cases:
  assumes "members_inv d" and "parents_inv d"
  obtains (full) "free_leaf_index d = 2 ^ 29" "add_leaf leaf d = Inl TreeFull"
  | (added) d' where "free_leaf_index d < 2 ^ 29" "add_leaf leaf d = Inr (free_leaf_index d, d')"
      "members_inv d'" "parents_inv d'" "members d' = (members d)(free_leaf_index d \<mapsto> leaf)"
proof -
  have "free_leaf_index d \<le> 2 ^ 29"
    using free_leaf_index_least(3) [OF assms(1)] high_water_bound [OF assms(1)] by linarith
  then consider "free_leaf_index d = 2 ^ 29" | "free_leaf_index d < 2 ^ 29" by linarith
  then show ?thesis
  proof cases
    case 1
    then show ?thesis using full add_leaf_full [OF assms(1)] by simp
  next
    case 2
    obtain d' where "add_leaf leaf d = Inr (free_leaf_index d, d')" "members_inv d'" "parents_inv d'"
      "members d' = (members d)(free_leaf_index d \<mapsto> leaf)"
      by (rule add_leaf_spec [OF assms 2]) (rule that)
    then show ?thesis using added 2 by simp
  qed
qed

lemma tree_step_inv:
  assumes "tree_step d d'" and inv: "members_inv d" "parents_inv d"
  shows "members_inv d' \<and> parents_inv d'"
  using assms(1)
proof (rule tree_stepE)
  fix leaf i
  assume "add_leaf leaf d = Inr (i, d')"
  then show ?thesis by (rule_tac add_leaf_cases [OF inv, of leaf]) simp_all
next
  fix leaf i
  assume i: "i \<in> dom (members d)" and up: "update_leaf leaf i d = Inr d'"
  show ?thesis by (rule update_leaf_spec [OF inv i, of leaf]) (use up in simp)
next
  fix i
  assume i: "i \<in> dom (members d)" and bl: "blank_leaf i d = Inr d'"
  show ?thesis by (rule blank_leaf_spec [OF inv i]) (use bl in simp)
qed

lemma tree_steps_inv:
  "tree_step\<^sup>*\<^sup>* d d' \<Longrightarrow> members_inv d \<Longrightarrow> parents_inv d \<Longrightarrow> members_inv d' \<and> parents_inv d'"
  by (induction rule: rtranclp_induct) (use tree_step_inv in blast)+

text \<open>The tree of a new group: its creator at the first leaf.\<close>

definition one_member_tree :: "leaf_node \<Rightarrow> ts_tree" where
  "one_member_tree leaf =
     \<lparr>leaf_nodes = [Some leaf], parent_nodes = [], default_leaf = None, default_parent = None\<rparr>"

definition one_member_diff :: "leaf_node \<Rightarrow> tree_sync_diff" where
  "one_member_diff leaf =
     \<lparr>tsd_diff = ab_from_tree (one_member_tree leaf), tsd_tree_hashes = [], blanked_leaves = [],
      num_members = 1\<rparr>"

lemma members_one: "members (one_member_diff leaf) = [0 \<mapsto> leaf]"
proof -
  have "leaf_count 1 = 1" using leaf_count_full [of 0] by simp
  then have "ab_leaf (ab_from_tree (one_member_tree leaf)) i = (if i = 0 then Some leaf else None)" for i
    by (simp add: ab_leaf_def ab_from_tree_def one_member_tree_def abt_leaf_by_index_def vec_get_def
        abt_tree_size_def tree_size_new_eq [of 0] ab_leaf_count_def wrap32_def bt_get_def default_option_def)
  then show ?thesis by (auto simp: members_def one_member_diff_def)
qed

lemma one_member_inv: "members_inv (one_member_diff leaf)" "parents_inv (one_member_diff leaf)"
proof -
  have abt: "abt_inv (one_member_tree leaf)"
    by (simp add: abt_inv_def one_member_tree_def max_tree_size_def default_option_def)
  have size: "abt_tree_size (one_member_tree leaf) = full_size 0"
    using tree_size_new_eq [of 0 1] by (simp add: abt_tree_size_def one_member_tree_def wrap32_def)
  have "tsd_leaf_count (one_member_diff leaf) = 1"
    by (simp add: tsd_leaf_count_def one_member_diff_def ab_leaf_count_def ab_from_tree_def size
        del: full_size_0)
  then show "members_inv (one_member_diff leaf)"
    using ab_from_tree_inv [OF abt]
    unfolding members_inv_def members_one by (auto simp: one_member_diff_def high_water_def)
  show "parents_inv (one_member_diff leaf)"
    by (simp add: parents_inv_def one_member_diff_def ab_parent_from_tree abt_parent_by_index_def
        one_member_tree_def vec_get_def)
qed

section \<open>Every member finds a key to decrypt with\<close>

text \<open>The keys a member holds: its leaf key and the keys of its path that it has merged.\<close>

definition holds_keys :: "tree_sync_diff \<Rightarrow> nat \<Rightarrow> encryption_key_pair list \<Rightarrow> bool" where
  "holds_keys d j keys \<longleftrightarrow>
     (\<forall>l. members d j = Some l \<longrightarrow> leaf_encryption_key (leaf_payload l) \<in> kp_public_key ` set keys) \<and>
     (\<forall>k pn. ab_parent (tsd_diff d) (node_at k (anc j (Suc k))) = Some pn \<longrightarrow>
        j \<notin> set (unmerged_leaves pn) \<longrightarrow> pn_encryption_key pn \<in> kp_public_key ` set keys)"

lemma unmerged_resolution_sound:
  "(n, r) \<in> set (unmerged_resolution d E is) \<Longrightarrow> \<exists>i l. n = Leaf i \<and> r = RefLeaf l \<and> members d i = Some l"
  by (induction "is") (auto simp: members_def split: if_splits option.splits)

lemma leaf_resolution_sound:
  "(n, r) \<in> set (leaf_resolution d E i) \<Longrightarrow> n = Leaf i \<and> (\<exists>l. r = RefLeaf l \<and> members d i = Some l)"
  by (auto simp: leaf_resolution_def members_def split: if_splits option.splits)

lemma ref_resolution_sound:
  assumes "(n, r) \<in> set (ref_resolution d E k m)"
  shows "(\<exists>i l. n = Leaf i \<and> r = RefLeaf l \<and> members d i = Some l) \<or>
    (\<exists>p pn. n = Parent p \<and> r = RefParent pn \<and> ab_parent (tsd_diff d) p = Some pn)"
  using assms
proof (induction k arbitrary: m)
  case 0
  then show ?case using leaf_resolution_sound by fastforce
next
  case (Suc k)
  show ?case
  proof (cases "ab_parent (tsd_diff d) (node_at k m)")
    case None
    then show ?thesis using Suc by auto
  next
    case (Some pn)
    then show ?thesis using Suc.prems unmerged_resolution_sound [of n r d E "unmerged_leaves pn"] by auto
  qed
qed

lemma find_owned_key_exists:
  "set pks \<inter> kp_public_key ` set keys \<noteq> {} \<Longrightarrow> find_owned_key keys p pks \<noteq> None"
  by (induction pks arbitrary: p) (auto simp: find_None_iff split: option.splits)

lemma decryption_key_exists:
  assumes ok: "tree_ok d h" and i: "i < 2 ^ h" and j: "j \<in> dom (members d)" and "i \<noteq> j"
    and "j \<notin> E" and holds: "holds_keys d j keys"
  shows "\<exists>sk q. decryption_key d i E keys j = Inr (sk, q)"
proof -
  let ?k = "lca_height i j - 1"
  let ?res = "ref_resolution d E ?k (sib (anc i ?k))"
  have j': "j < 2 ^ h" using ok j by (rule tree_ok_member)
  have k: "?k < h" using lca_height_le [OF i j'] lca_height_pos [OF \<open>i \<noteq> j\<close>] by simp
  have res: "resolution (ab_subtree_root_copath_node (tsd_diff d) i j) d E (rightmost_full_leaf d) = Some ?res"
    using subtree_root_copath_node_eq [OF ok i j' \<open>i \<noteq> j\<close>] copath_node_resolution [OF ok i k] by simp
  obtain l where l: "members d j = Some l" using j by blast
  have "covers_leaf (ref_resolution d {} ?k (sib (anc i ?k))) j"
    by (rule ref_resolution_covers [OF l]) (rule sib_lca [OF \<open>i \<noteq> j\<close>, symmetric])
  then consider l' where "(Leaf j, RefLeaf l') \<in> set ?res"
    | k' pn where "(Parent (node_at k' (anc j (Suc k'))), RefParent pn) \<in> set ?res" "j \<notin> set (unmerged_leaves pn)"
    using \<open>j \<notin> E\<close> unfolding covers_leaf_def ref_resolution_filter [of d E] by fastforce
  then have "\<exists>x \<in> set ?res. node_ref_key (snd x) \<in> kp_public_key ` set keys"
  proof cases
    case 1
    have "members d j = Some l'" using ref_resolution_sound [OF 1] by auto
    then have "leaf_encryption_key (leaf_payload l') \<in> kp_public_key ` set keys"
      using holds unfolding holds_keys_def by blast
    then show ?thesis using 1 by force
  next
    case 2
    then have "ab_parent (tsd_diff d) (node_at k' (anc j (Suc k'))) = Some pn"
      using ref_resolution_sound [OF 2(1)] by auto
    then have "pn_encryption_key pn \<in> kp_public_key ` set keys"
      using 2(2) holds unfolding holds_keys_def by blast
    then show ?thesis using 2(1) by force
  qed
  then have "find_owned_key keys 0 (map (node_ref_key \<circ> snd) ?res) \<noteq> None"
    by (intro find_owned_key_exists) auto
  then show ?thesis
    using res by (auto simp: decryption_key_def looped_def split: option.splits)
qed

text \<open>
  The commit of \<open>i\<close> reaches every other member that is not new in it: whoever holds its keys
  recovers the commit secret and the key pairs of the common path.
\<close>

lemma commit_secret_recovered:
  assumes ok: "tree_ok d h" and i: "i \<in> dom (members d)" and j: "j \<in> dom (members d)"
    and "i \<noteq> j" and "j \<notin> E" and holds: "holds_keys d j keys"
    and indices: "filtered_direct_path d i = Inr indices"
    and derived: "derive_path K s indices = Inr (path, plain, keypairs, commit_secret)"
    and rs: "filtered_copath_resolutions d i E = Inr rs"
    and enc: "encrypt_path X plain ctx (map (map (node_ref_key \<circ> snd)) rs) = Inr nodes"
    and hpke: "\<And>kp m c. kp \<in> set keys \<Longrightarrow>
      hpke_seal X (kp_public_key kp) ''UpdatePathNode'' ctx m = Some c \<Longrightarrow>
      hpke_open X (kp_private_key kp) ''UpdatePathNode'' ctx c = Some m"
  shows "\<exists>p. group_decrypt_path X K (Some ctx) keys j i nodes E d = Inr (drop p keypairs, commit_secret)"
proof -
  have i': "i < 2 ^ h" using ok i by (rule tree_ok_member)
  obtain sk q where key: "decryption_key d i E keys j = Inr (sk, q)"
    using decryption_key_exists [OF ok i' j \<open>i \<noteq> j\<close> \<open>j \<notin> E\<close> holds] by blast
  note pos = subtree_root_position_eq [OF ok i' j \<open>i \<noteq> j\<close>]
  show ?thesis
    using decrypt_encrypted_path [OF ok i j \<open>i \<noteq> j\<close> indices derived rs enc key hpke pos] by blast
qed

end
