(* ===== verification/Sender_Ratchet.thy ===== *)
theory Sender_Ratchet
  imports Ciphersuites
begin

text \<open>
  The symmetric ratchets of a sender (\<open>tree/sender_ratchet.rs\<close> and \<open>derive_tree_secret\<close> of
  \<open>tree/secret_tree.rs\<close>): one key and nonce per generation, a window of past keys on the
  receiving side. Generations are 32-bit words. The operations that can fail half way return
  the state they leave behind together with the error.
\<close>

section \<open>Configuration and errors\<close>

record sender_ratchet_configuration =
  out_of_order_tolerance :: "32 word"
  maximum_forward_distance :: "32 word"

definition sender_ratchet_configuration_default :: sender_ratchet_configuration where
  "sender_ratchet_configuration_default =
     \<lparr>out_of_order_tolerance = 5, maximum_forward_distance = 1000\<rparr>"

text \<open>
  \<open>StPanic\<close> stands for the panic of \<open>AeadNonce::from_secret\<close> and \<open>StNoReturn\<close> for a path
  computation that does not end.
\<close>

datatype secret_tree_error =
    TooDistantInThePast
  | TooDistantInTheFuture
  | IndexOutOfBounds
  | SecretReuseError
  | RatchetTypeError
  | RatchetTooLong
  | StLibraryError
  | StCryptoError crypto_error
  | StPanic
  | StNoReturn

definition to_be_bytes32 :: "32 word \<Rightarrow> bytes" where
  "to_be_bytes32 w = map (\<lambda>k. ucast (drop_bit k w)) [24, 16, 8, 0]"

definition derive_tree_secret ::
  "crypto_provider \<Rightarrow> ciphersuite \<Rightarrow> bytes \<Rightarrow> string \<Rightarrow> 32 word \<Rightarrow> nat \<Rightarrow> secret_tree_error + bytes" where
  "derive_tree_secret P cs secret label generation len =
     map_err StCryptoError (kdf_expand_label P cs secret label (to_be_bytes32 generation) len)"

section \<open>The ratchets\<close>

type_synonym ratchet_key_material = "aead_key \<times> bytes"

record ratchet_secret =
  rs_secret :: bytes
  rs_generation :: "32 word"

definition initial_ratchet_secret :: "bytes \<Rightarrow> ratchet_secret" where
  "initial_ratchet_secret secret = \<lparr>rs_secret = secret, rs_generation = 0\<rparr>"

text \<open>An error leaves the ratchet as it was: the secret is overwritten last.\<close>

definition ratchet_forward ::
  "crypto_provider \<Rightarrow> ciphersuite \<Rightarrow> ratchet_secret \<Rightarrow>
   secret_tree_error + (32 word \<times> ratchet_key_material) \<times> ratchet_secret" where
  "ratchet_forward P cs r =
     (if rs_generation r = - 1 then Inl RatchetTooLong
      else
        try_bind (derive_tree_secret P cs (rs_secret r) ''nonce'' (rs_generation r)
                    (aead_nonce_length cs)) (\<lambda>nonce.
        try_bind (derive_tree_secret P cs (rs_secret r) ''key'' (rs_generation r)
                    (aead_key_length cs)) (\<lambda>key.
        try_bind (derive_tree_secret P cs (rs_secret r) ''secret'' (rs_generation r)
                    (hash_length cs)) (\<lambda>secret.
        case nonce_from_secret nonce of
          None \<Rightarrow> Inl StPanic
        | Some n \<Rightarrow>
            Inr ((rs_generation r, (aead_key_from_secret cs key, n)),
                 \<lparr>rs_secret = secret, rs_generation = rs_generation r + 1\<rparr>)))))"

record decryption_ratchet =
  past_secrets :: "ratchet_key_material option list"
  ratchet_head :: ratchet_secret

definition decryption_ratchet_new :: "bytes \<Rightarrow> decryption_ratchet" where
  "decryption_ratchet_new secret =
     \<lparr>past_secrets = [], ratchet_head = initial_ratchet_secret secret\<rparr>"

definition prune_past_secrets ::
  "sender_ratchet_configuration \<Rightarrow> decryption_ratchet \<Rightarrow> decryption_ratchet" where
  "prune_past_secrets cfg r =
     r\<lparr>past_secrets := take (unat (out_of_order_tolerance cfg)) (past_secrets r)\<rparr>"

abbreviation dr_generation :: "decryption_ratchet \<Rightarrow> 32 word" where
  "dr_generation r \<equiv> rs_generation (ratchet_head r)"

text \<open>The loop that ratchets forward and keeps the keys it skips.\<close>

fun skip_forward ::
  "crypto_provider \<Rightarrow> ciphersuite \<Rightarrow> nat \<Rightarrow> decryption_ratchet \<Rightarrow>
   (secret_tree_error + unit) \<times> decryption_ratchet" where
  "skip_forward P cs 0 r = (Inr (), r)"
| "skip_forward P cs (Suc n) r =
     (case ratchet_forward P cs (ratchet_head r) of
        Inl e \<Rightarrow> (Inl e, r)
      | Inr ((_, key_material), head') \<Rightarrow>
          skip_forward P cs n
            \<lparr>past_secrets = Some key_material # past_secrets r, ratchet_head = head'\<rparr>)"

definition forward_secret ::
  "crypto_provider \<Rightarrow> ciphersuite \<Rightarrow> sender_ratchet_configuration \<Rightarrow> decryption_ratchet \<Rightarrow>
   (secret_tree_error + ratchet_key_material) \<times> decryption_ratchet" where
  "forward_secret P cs cfg r =
     (case ratchet_forward P cs (ratchet_head r) of
        Inl e \<Rightarrow> (Inl e, r)
      | Inr ((_, key_material), head') \<Rightarrow>
          (Inr key_material,
           prune_past_secrets cfg
             \<lparr>past_secrets = None # past_secrets r, ratchet_head = head'\<rparr>))"

text \<open>The index into the window is computed in 32-bit signed arithmetic.\<close>

definition take_past_secret ::
  "32 word \<Rightarrow> decryption_ratchet \<Rightarrow> (secret_tree_error + ratchet_key_material) \<times> decryption_ratchet" where
  "take_past_secret generation r =
     (let window_index = dr_generation r - generation - 1 in
      if \<not> 0 \<le>s window_index then (Inl TooDistantInThePast, r)
      else case vec_get (past_secrets r) (unat window_index) of
             None \<Rightarrow> (Inl IndexOutOfBounds, r)
           | Some None \<Rightarrow> (Inl SecretReuseError, r)
           | Some (Some key_material) \<Rightarrow>
               (Inr key_material,
                r\<lparr>past_secrets := (past_secrets r)[unat window_index := None]\<rparr>))"

definition ratchet_secret_for_decryption ::
  "crypto_provider \<Rightarrow> ciphersuite \<Rightarrow> sender_ratchet_configuration \<Rightarrow> 32 word \<Rightarrow> decryption_ratchet \<Rightarrow>
   (secret_tree_error + ratchet_key_material) \<times> decryption_ratchet" where
  "ratchet_secret_for_decryption P cs cfg generation r =
     (if dr_generation r < - 1 - maximum_forward_distance cfg \<and>
         generation > dr_generation r + maximum_forward_distance cfg
      then (Inl TooDistantInTheFuture, r)
      else if generation < dr_generation r \<and>
              dr_generation r - generation > out_of_order_tolerance cfg
      then (Inl TooDistantInThePast, r)
      else if generation \<ge> dr_generation r
      then (case skip_forward P cs (unat (generation - dr_generation r)) r of
              (Inl e, r') \<Rightarrow> (Inl e, r')
            | (Inr _, r') \<Rightarrow> forward_secret P cs cfg r')
      else take_past_secret generation r)"

datatype sender_ratchet =
    EncryptionRatchet ratchet_secret
  | DecryptionRatchet decryption_ratchet

section \<open>Key derivation that succeeds\<close>

text \<open>
  What the ratchets rely on of the provider: HKDF gives as many bytes as it is asked for, up to
  255 times the hash length, and labels and contexts that are not too long can be encoded.
\<close>

definition kdf_ok :: "crypto_provider \<Rightarrow> ciphersuite \<Rightarrow> bool" where
  "kdf_ok P cs \<longleftrightarrow>
     (\<forall>prk info len. 0 < len \<and> len \<le> 255 * hash_length cs \<longrightarrow>
        (\<exists>okm. hkdf_expand_prim P (hash_algorithm cs) prk info len = Inr okm \<and> length okm = len)) \<and>
     (\<forall>len label context. length label < 2 ^ 30 \<and> length context < 2 ^ 30 \<longrightarrow>
        serialize_kdf_label P len label context \<noteq> None)"

definition expand :: "crypto_provider \<Rightarrow> ciphersuite \<Rightarrow> bytes \<Rightarrow> string \<Rightarrow> bytes \<Rightarrow> nat \<Rightarrow> bytes" where
  "expand P cs secret label context len =
     (case kdf_expand_label P cs secret label context len of Inr okm \<Rightarrow> okm | Inl _ \<Rightarrow> [])"

lemma kdf_expand_label_ok:
  assumes "kdf_ok P cs" and "0 < len" and "len \<le> 64" and "length label < 2 ^ 10"
    and "length context < 2 ^ 30"
  shows "kdf_expand_label P cs secret label context len = Inr (expand P cs secret label context len)"
    and "length (expand P cs secret label context len) = len"
proof -
  let ?label = "str_bytes (''MLS 1.0 '' @ label)"
  have label: "length ?label < 2 ^ 30"
    using assms(4) by (simp add: str_bytes_def)
  have "serialize_kdf_label P (of_nat len) ?label context \<noteq> None"
    using conjunct2 [OF assms(1) [unfolded kdf_ok_def]] label assms(5) by blast
  then obtain info where info: "serialize_kdf_label P (of_nat len) ?label context = Some info"
    by blast
  have "len \<le> 255 * hash_length cs" using assms(3) by (cases cs) (simp_all add: hash_length_def)
  then obtain okm where okm: "hkdf_expand_prim P (hash_algorithm cs) secret info len = Inr okm"
    "length okm = len"
    using assms(1,2) conjunct1 [OF assms(1) [unfolded kdf_ok_def]] by blast
  have "kdf_expand_label P cs secret label context len = Inr okm"
    using info okm assms(2,3)
    by (auto simp: kdf_expand_label_def serialized_label_def hkdf_expand_def)
  then show "kdf_expand_label P cs secret label context len = Inr (expand P cs secret label context len)"
    and "length (expand P cs secret label context len) = len"
    using okm(2) by (simp_all add: expand_def)
qed

lemma derive_tree_secret_ok:
  assumes "kdf_ok P cs" and "0 < len" and "len \<le> 64" and "length label < 2 ^ 10"
  shows "derive_tree_secret P cs secret label g len = Inr (expand P cs secret label (to_be_bytes32 g) len)"
    and "length (expand P cs secret label (to_be_bytes32 g) len) = len"
  using kdf_expand_label_ok [OF assms, of "to_be_bytes32 g" secret]
  by (simp_all add: derive_tree_secret_def to_be_bytes32_def)

section \<open>The chain of keys\<close>

text \<open>The key of every generation, by iteration from the initial secret.\<close>

fun chain_secret :: "crypto_provider \<Rightarrow> ciphersuite \<Rightarrow> bytes \<Rightarrow> nat \<Rightarrow> bytes" where
  "chain_secret P cs s 0 = s"
| "chain_secret P cs s (Suc n) =
     expand P cs (chain_secret P cs s n) ''secret'' (to_be_bytes32 (of_nat n)) (hash_length cs)"

definition chain_key :: "crypto_provider \<Rightarrow> ciphersuite \<Rightarrow> bytes \<Rightarrow> nat \<Rightarrow> ratchet_key_material" where
  "chain_key P cs s n =
     (aead_key_from_secret cs
        (expand P cs (chain_secret P cs s n) ''key'' (to_be_bytes32 (of_nat n)) (aead_key_length cs)),
      expand P cs (chain_secret P cs s n) ''nonce'' (to_be_bytes32 (of_nat n)) (aead_nonce_length cs))"

definition ratchet_at :: "crypto_provider \<Rightarrow> ciphersuite \<Rightarrow> bytes \<Rightarrow> nat \<Rightarrow> ratchet_secret" where
  "ratchet_at P cs s n = \<lparr>rs_secret = chain_secret P cs s n, rs_generation = of_nat n\<rparr>"

lemma ratchet_at_0: "ratchet_at P cs s 0 = initial_ratchet_secret s"
  by (simp add: ratchet_at_def initial_ratchet_secret_def)

lemma ratchet_at_sel [simp]:
  "rs_secret (ratchet_at P cs s n) = chain_secret P cs s n"
  "rs_generation (ratchet_at P cs s n) = of_nat n"
  by (simp_all add: ratchet_at_def)

lemma of_nat_max: "n < 2 ^ 32 \<Longrightarrow> (of_nat n :: 32 word) = - 1 \<longleftrightarrow> n = 2 ^ 32 - 1"
proof -
  assume n: "n < 2 ^ 32"
  have "unat (of_nat n :: 32 word) = n" using n by (simp add: unat_of_nat)
  moreover have "unat (- 1 :: 32 word) = 2 ^ 32 - 1" 
    by (simp add: unsigned_minus_1_eq_mask mask_eq_exp_minus_1)
  ultimately show ?thesis unfolding word_unat_eq_iff by simp
qed

lemma ratchet_forward_at:
  assumes "kdf_ok P cs" and "n < 2 ^ 32 - 1"
  shows "ratchet_forward P cs (ratchet_at P cs s n)
    = Inr ((of_nat n, chain_key P cs s n), ratchet_at P cs s (Suc n))"
proof -
  have "(of_nat n :: 32 word) \<noteq> - 1" using assms(2) of_nat_max [of n] by simp
  moreover note ciphersuite_lengths [of cs]
  moreover have "nonce_bytes \<le> 64" "0 < nonce_bytes" by (simp_all add: nonce_bytes_def)
  ultimately show ?thesis
    using derive_tree_secret_ok [OF assms(1)]
    by (simp add: ratchet_forward_def nonce_from_secret_def chain_key_def ratchet_at_def add.commute)
qed

lemma ratchet_forward_end:
  "ratchet_forward P cs (ratchet_at P cs s (2 ^ 32 - 1)) = Inl RatchetTooLong"
  using of_nat_max [of "2 ^ 32 - 1"] by (simp add: ratchet_forward_def)

lemma skip_forward_at:
  assumes "kdf_ok P cs" and "n + k \<le> 2 ^ 32 - 1"
  shows "skip_forward P cs k \<lparr>past_secrets = past, ratchet_head = ratchet_at P cs s n\<rparr>
    = (Inr (), \<lparr>past_secrets = map (\<lambda>x. Some (chain_key P cs s x)) (rev [n..<n + k]) @ past,
                ratchet_head = ratchet_at P cs s (n + k)\<rparr>)"
  using assms(2)
proof (induction k arbitrary: n past)
  case 0
  then show ?case by simp
next
  case (Suc k)
  then have "n < 2 ^ 32 - 1" by simp
  moreover have "[n..<n + Suc k] = n # [Suc n..<Suc n + k]" by (simp add: upt_rec)
  ultimately show ?case
    using Suc.prems Suc.IH [of "Suc n"] ratchet_forward_at [OF assms(1), of n s] by simp
qed

section \<open>The window of past keys\<close>

text \<open>
  The receiving ratchet as a window: the next generation and the past keys that are still
  available.
\<close>

record key_window =
  kw_next :: nat
  kw_keys :: "nat \<rightharpoonup> ratchet_key_material"

definition window_decrypt ::
  "(nat \<Rightarrow> ratchet_key_material) \<Rightarrow> nat \<Rightarrow> nat \<Rightarrow> nat \<Rightarrow> key_window \<Rightarrow>
   (secret_tree_error + ratchet_key_material) \<times> key_window" where
  "window_decrypt key tol fwd g w =
     (let n = kw_next w in
      if n + fwd < 2 ^ 32 - 1 \<and> n + fwd < g then (Inl TooDistantInTheFuture, w)
      else if g < n then
        (if tol < n - g \<or> 2 ^ 31 < n - g then (Inl TooDistantInThePast, w)
         else case kw_keys w g of
                None \<Rightarrow> (Inl SecretReuseError, w)
              | Some km \<Rightarrow> (Inr km, w\<lparr>kw_keys := (kw_keys w)(g := None)\<rparr>))
      else if g = 2 ^ 32 - 1 then
        (Inl RatchetTooLong,
         \<lparr>kw_next = g, kw_keys = (\<lambda>x. if n \<le> x \<and> x < g then Some (key x) else kw_keys w x)\<rparr>)
      else
        (Inr (key g),
         \<lparr>kw_next = g + 1,
          kw_keys = (\<lambda>x. if x < g \<and> g < x + tol
                          then (if n \<le> x then Some (key x) else kw_keys w x) else None)\<rparr>))"

definition window_of :: "decryption_ratchet \<Rightarrow> key_window" where
  "window_of r =
     (let n = unat (dr_generation r) in
      \<lparr>kw_next = n,
       kw_keys = (\<lambda>x. if x < n then Option.bind (vec_get (past_secrets r) (n - 1 - x)) id else None)\<rparr>)"

text \<open>
  The ratchet holds the chain of the secret \<open>s\<close>, and no key inside the tolerance has been
  pruned.
\<close>

definition ratchet_inv ::
  "crypto_provider \<Rightarrow> ciphersuite \<Rightarrow> sender_ratchet_configuration \<Rightarrow> bytes \<Rightarrow> decryption_ratchet \<Rightarrow> bool" where
  "ratchet_inv P cs cfg s r \<longleftrightarrow>
     (let n = unat (dr_generation r) in
      ratchet_head r = ratchet_at P cs s n \<and>
      length (past_secrets r) \<le> n \<and>
      min n (unat (out_of_order_tolerance cfg)) \<le> length (past_secrets r) \<and>
      (\<forall>x km. kw_keys (window_of r) x = Some km \<longrightarrow> km = chain_key P cs s x))"

lemma word_unat_less: "unat (w :: 32 word) < 2 ^ 32"
proof -
  have "unat w < 2 ^ LENGTH(32)" by (rule unsigned_less)
  then show ?thesis by simp
qed

lemma zero_sle_iff: "0 \<le>s w \<longleftrightarrow> unat w < 2 ^ 31" for w :: "32 word"
proof -
  have "0 \<le>s w \<longleftrightarrow> \<not> bit (uint w) 31"
    by (simp add: word_sle_eq sint_uint)
  also have "\<dots> \<longleftrightarrow> \<not> odd (unat w div 2 ^ 31)"
  proof -
    have "uint w div 2 ^ 31 = int (unat w div 2 ^ 31)" by (simp add: zdiv_int)
    then show ?thesis by (simp add: bit_iff_odd)
  qed
  also have "\<dots> \<longleftrightarrow> unat w < 2 ^ 31"
  proof (cases "unat w < 2 ^ 31")
    case False
    then have "unat w div 2 ^ 31 = 1"
      using word_unat_less [of w] by (intro div_nat_eqI) simp_all
    with False show ?thesis by simp
  qed simp
  finally show ?thesis .
qed

lemma future_check:
  fixes n fwd g :: "32 word"
  shows "n < - 1 - fwd \<and> n + fwd < g \<longleftrightarrow>
    unat n + unat fwd < 2 ^ 32 - 1 \<and> unat n + unat fwd < unat g"
proof -
  have m: "unat (- 1 :: 32 word) = 2 ^ 32 - 1"
    by (simp add: unsigned_minus_1_eq_mask mask_eq_exp_minus_1)
  have "unat (- 1 - fwd) = 2 ^ 32 - 1 - unat fwd"
    using m word_unat_less [of fwd] by (subst unat_sub) (simp_all add: word_le_nat_alt)
  then have "n < - 1 - fwd \<longleftrightarrow> unat n + unat fwd < 2 ^ 32 - 1"
    unfolding word_less_nat_alt by linarith
  moreover have "unat (n + fwd) = unat n + unat fwd" if "unat n + unat fwd < 2 ^ 32 - 1"
    using that by (simp add: unat_plus_if')
  ultimately show ?thesis by (auto simp: word_less_nat_alt)
qed

lemma vec_get_take: "vec_get (take t xs) i = (if i < t then vec_get xs i else None)"
  by (simp add: vec_get_def)

lemma vec_get_Cons: "vec_get (x # xs) i = (case i of 0 \<Rightarrow> Some x | Suc j \<Rightarrow> vec_get xs j)"
  by (simp add: vec_get_def split: nat.splits)

lemma vec_get_skipped:
  assumes "n \<le> m" and "x < m"
  shows "vec_get (map f (rev [n..<m]) @ past) (m - 1 - x)
    = (if n \<le> x then Some (f x) else vec_get past (n - 1 - x))"
proof (cases "n \<le> x")
  case True
  then have "m - 1 - x < m - n" using assms by linarith
  then have "rev [n..<m] ! (m - 1 - x) = x" using assms True by (simp add: rev_nth)
  with True \<open>m - 1 - x < m - n\<close> show ?thesis by (simp add: vec_get_def nth_append)
next
  case False
  obtain d where d: "d = n - 1 - x" by blast
  then have "m - 1 - x = (m - n) + d" using False assms by linarith
  with False show ?thesis unfolding d [symmetric] by (simp add: vec_get_def nth_append)
qed

lemma window_of_at:
  "n < 2 ^ 32 \<Longrightarrow> window_of \<lparr>past_secrets = past, ratchet_head = ratchet_at P cs s n\<rparr>
    = \<lparr>kw_next = n, kw_keys = (\<lambda>x. if x < n then Option.bind (vec_get past (n - 1 - x)) id else None)\<rparr>"
  by (simp add: window_of_def unat_of_nat cong: if_cong)

lemma ratchet_invE:
  assumes "ratchet_inv P cs cfg s r"
  obtains n past where "r = \<lparr>past_secrets = past, ratchet_head = ratchet_at P cs s n\<rparr>"
    and "n < 2 ^ 32" and "n = unat (dr_generation r)" and "length past \<le> n"
    and "min n (unat (out_of_order_tolerance cfg)) \<le> length past"
    and "\<And>x km. kw_keys (window_of r) x = Some km \<Longrightarrow> km = chain_key P cs s x"
proof (rule that [of "past_secrets r" "unat (dr_generation r)"])
  show "r = \<lparr>past_secrets = past_secrets r, ratchet_head = ratchet_at P cs s (unat (dr_generation r))\<rparr>"
    using assms by (simp add: ratchet_inv_def Let_def)
qed (use assms word_unat_less [of "dr_generation r"] in \<open>auto simp: ratchet_inv_def Let_def\<close>)

lemma ratchet_inv_at:
  assumes "n < 2 ^ 32"
  shows "ratchet_inv P cs cfg s \<lparr>past_secrets = past, ratchet_head = ratchet_at P cs s n\<rparr> \<longleftrightarrow>
    length past \<le> n \<and> min n (unat (out_of_order_tolerance cfg)) \<le> length past \<and>
    (\<forall>x km. kw_keys (window_of \<lparr>past_secrets = past, ratchet_head = ratchet_at P cs s n\<rparr>) x = Some km
       \<longrightarrow> km = chain_key P cs s x)"
  using assms by (simp add: ratchet_inv_def unat_of_nat)

lemma ratchet_inv_keys:
  "ratchet_inv P cs cfg s r \<Longrightarrow> kw_keys (window_of r) x = Some km \<Longrightarrow> km = chain_key P cs s x"
  unfolding ratchet_inv_def Let_def by blast

lemma ratchet_inv_new: "ratchet_inv P cs cfg s (decryption_ratchet_new s)"
  using ratchet_inv_at [of 0 P cs cfg s "[]"] window_of_at [of 0 "[]" P cs s]
  by (simp add: decryption_ratchet_new_def ratchet_at_0)

text \<open>Ratcheting forward to a generation that is still in range.\<close>

lemma forward_refines:
  fixes cfg P cs s n g past
  defines "tol \<equiv> unat (out_of_order_tolerance cfg)"
    and "r' \<equiv> \<lparr>past_secrets = take (unat (out_of_order_tolerance cfg))
        (None # map (\<lambda>x. Some (chain_key P cs s x)) (rev [n..<g]) @ past),
      ratchet_head = ratchet_at P cs s (Suc g)\<rparr>"
  assumes "kdf_ok P cs" and "n \<le> g" and "g < 2 ^ 32 - 1"
    and inv: "ratchet_inv P cs cfg s \<lparr>past_secrets = past, ratchet_head = ratchet_at P cs s n\<rparr>"
      (is "ratchet_inv _ _ _ _ ?r")
  shows "forward_secret P cs cfg
      \<lparr>past_secrets = map (\<lambda>x. Some (chain_key P cs s x)) (rev [n..<g]) @ past,
       ratchet_head = ratchet_at P cs s g\<rparr> = (Inr (chain_key P cs s g), r')"
    and "window_of r' = \<lparr>kw_next = g + 1,
      kw_keys = (\<lambda>x. if x < g \<and> g < x + tol
        then (if n \<le> x then Some (chain_key P cs s x) else kw_keys (window_of ?r) x) else None)\<rparr>"
    and "ratchet_inv P cs cfg s r'"
proof -
  show "forward_secret P cs cfg
      \<lparr>past_secrets = map (\<lambda>x. Some (chain_key P cs s x)) (rev [n..<g]) @ past,
       ratchet_head = ratchet_at P cs s g\<rparr> = (Inr (chain_key P cs s g), r')"
    using ratchet_forward_at [OF \<open>kdf_ok P cs\<close> \<open>g < 2 ^ 32 - 1\<close>, of s]
    by (simp add: forward_secret_def prune_past_secrets_def r'_def)
  have n: "n < 2 ^ 32" and g: "Suc g < 2 ^ 32" using \<open>n \<le> g\<close> \<open>g < 2 ^ 32 - 1\<close> by linarith+
  note [simp] = window_of_at [OF n] window_of_at [OF g]
  show win: "window_of r' = \<lparr>kw_next = g + 1,
      kw_keys = (\<lambda>x. if x < g \<and> g < x + tol
        then (if n \<le> x then Some (chain_key P cs s x) else kw_keys (window_of ?r) x) else None)\<rparr>"
  proof -
    have "(if x < Suc g then Option.bind (vec_get (past_secrets r') (Suc g - 1 - x)) id else None)
      = (if x < g \<and> g < x + tol
        then (if n \<le> x then Some (chain_key P cs s x) else kw_keys (window_of ?r) x) else None)"
      for x
    proof (cases "x < g")
      case True
      then obtain j where j: "g - x = Suc j" "g - 1 - x = j" by (cases "g - x") auto
      show ?thesis
        using True \<open>n \<le> g\<close> j vec_get_skipped [OF \<open>n \<le> g\<close> True, of "\<lambda>x. Some (chain_key P cs s x)" past]
        by (auto simp: r'_def vec_get_take vec_get_Cons tol_def)
    next
      case False
      then show ?thesis by (auto simp: r'_def vec_get_take vec_get_Cons)
    qed
    moreover have "window_of r' = \<lparr>kw_next = Suc g, kw_keys = (\<lambda>x. if x < Suc g
        then Option.bind (vec_get (past_secrets r') (Suc g - 1 - x)) id else None)\<rparr>"
      by (simp add: r'_def cong: if_cong)
    ultimately show ?thesis by simp
  qed
  have len: "length past \<le> n" "min n tol \<le> length past"
    and keys: "\<And>x km. kw_keys (window_of ?r) x = Some km \<Longrightarrow> km = chain_key P cs s x"
    using inv unfolding ratchet_inv_at [OF n] tol_def by blast+
  have "km = chain_key P cs s x" if "kw_keys (window_of r') x = Some km" for x km
    using that keys unfolding win by (auto split: if_splits)
  moreover have "length (past_secrets r') \<le> Suc g" "min (Suc g) tol \<le> length (past_secrets r')"
    using len \<open>n \<le> g\<close> by (auto simp: r'_def tol_def)
  moreover have "ratchet_head r' = ratchet_at P cs s (Suc g)" "unat (dr_generation r') = Suc g"
    using g by (simp_all add: r'_def unat_of_nat del: of_nat_Suc)
  ultimately show "ratchet_inv P cs cfg s r'"
    by (simp only: ratchet_inv_def Let_def tol_def) blast
qed

lemma exhausted_refines:
  fixes P cs s n past
  defines "r' \<equiv> \<lparr>past_secrets = map (\<lambda>x. Some (chain_key P cs s x)) (rev [n..<2 ^ 32 - 1]) @ past,
      ratchet_head = ratchet_at P cs s (2 ^ 32 - 1)\<rparr>"
  assumes "n < 2 ^ 32"
    and inv: "ratchet_inv P cs cfg s \<lparr>past_secrets = past, ratchet_head = ratchet_at P cs s n\<rparr>"
      (is "ratchet_inv _ _ _ _ ?r")
  shows "forward_secret P cs cfg r' = (Inl RatchetTooLong, r')"
    and "window_of r' = \<lparr>kw_next = 2 ^ 32 - 1,
      kw_keys = (\<lambda>x. if n \<le> x \<and> x < 2 ^ 32 - 1 then Some (chain_key P cs s x)
        else kw_keys (window_of ?r) x)\<rparr>"
    and "ratchet_inv P cs cfg s r'"
proof -
  define m :: nat where "m = 2 ^ 32 - 1"
  have m: "m < 2 ^ 32" and n: "n \<le> m" using assms(2) by (simp_all add: m_def)
  have r': "r' = \<lparr>past_secrets = map (\<lambda>x. Some (chain_key P cs s x)) (rev [n..<m]) @ past,
      ratchet_head = ratchet_at P cs s m\<rparr>"
    unfolding r'_def m_def by (rule refl)
  show "forward_secret P cs cfg r' = (Inl RatchetTooLong, r')"
    using ratchet_forward_end [of P cs s, folded m_def] by (simp add: r' forward_secret_def)
  have win: "window_of r' = \<lparr>kw_next = m,
      kw_keys = (\<lambda>x. if n \<le> x \<and> x < m then Some (chain_key P cs s x)
        else kw_keys (window_of ?r) x)\<rparr>"
    unfolding r' window_of_at [OF m] window_of_at [OF assms(2)]
    using vec_get_skipped [OF n, of _ "\<lambda>x. Some (chain_key P cs s x)" past] n
    by (auto simp: fun_eq_iff)
  then show "window_of r' = \<lparr>kw_next = 2 ^ 32 - 1,
      kw_keys = (\<lambda>x. if n \<le> x \<and> x < 2 ^ 32 - 1 then Some (chain_key P cs s x)
        else kw_keys (window_of ?r) x)\<rparr>"
    unfolding m_def .
  have "length past \<le> n" "min n (unat (out_of_order_tolerance cfg)) \<le> length past"
    and keys: "\<And>x km. kw_keys (window_of ?r) x = Some km \<Longrightarrow> km = chain_key P cs s x"
    using inv unfolding ratchet_inv_at [OF assms(2)] by blast+
  then have "length (past_secrets r') \<le> m"
    "min m (unat (out_of_order_tolerance cfg)) \<le> length (past_secrets r')"
    using n by (auto simp: r')
  moreover have "km = chain_key P cs s x" if "kw_keys (window_of r') x = Some km" for x km
    using that keys unfolding win by (auto split: if_splits)
  moreover have "ratchet_head r' = ratchet_at P cs s m" "unat (dr_generation r') = m"
    using m by (simp_all add: r' unat_of_nat)
  ultimately show "ratchet_inv P cs cfg s r'"
    by (simp only: ratchet_inv_def Let_def) blast
qed

lemma take_past_refines:
  fixes gen P cs s n past
  defines "g \<equiv> unat gen" and "r \<equiv> \<lparr>past_secrets = past, ratchet_head = ratchet_at P cs s n\<rparr>"
  assumes "n < 2 ^ 32" and "g < n" and "n - g \<le> unat (out_of_order_tolerance cfg)"
    and inv: "ratchet_inv P cs cfg s r"
  shows "map_prod id window_of (take_past_secret gen r) =
      (if 2 ^ 31 < n - g then (Inl TooDistantInThePast, window_of r)
       else case kw_keys (window_of r) g of
              None \<Rightarrow> (Inl SecretReuseError, window_of r)
            | Some km \<Rightarrow> (Inr km, (window_of r)\<lparr>kw_keys := (kw_keys (window_of r))(g := None)\<rparr>))"
    and "ratchet_inv P cs cfg s (snd (take_past_secret gen r))"
proof -
  let ?i = "n - 1 - g"
  have dr: "unat (dr_generation r) = n" using assms(3) by (simp add: r_def unat_of_nat)
  have le: "gen \<le> dr_generation r" using assms(4) dr by (simp add: word_le_nat_alt g_def)
  have d: "unat (dr_generation r - gen) = n - g" using unat_sub [OF le] dr by (simp add: g_def)
  then have "dr_generation r - gen \<noteq> 0" using assms(4) by (metis unat_0 zero_less_diff less_irrefl)
  then have i: "unat (dr_generation r - gen - 1) = ?i"
    using d unat_minus_one [of "dr_generation r - gen"] by simp
  have neg: "\<not> 0 \<le>s dr_generation r - gen - 1 \<longleftrightarrow> 2 ^ 31 < n - g"
    using i assms(4) unfolding zero_sle_iff by auto
  have len: "length past \<le> n" "?i < length past"
    and keys: "\<And>x km. kw_keys (window_of r) x = Some km \<Longrightarrow> km = chain_key P cs s x"
    using inv assms(4,5) unfolding r_def ratchet_inv_at [OF assms(3)] by auto
  have at: "vec_get past ?i = Some (past ! ?i)" "kw_keys (window_of r) g = past ! ?i"
    using len assms(4) by (simp_all add: r_def window_of_at [OF assms(3)] vec_get_def)
  have upd: "window_of (r\<lparr>past_secrets := past[?i := None]\<rparr>)
      = (window_of r)\<lparr>kw_keys := (kw_keys (window_of r))(g := None)\<rparr>"
    using assms(3,4) len
    by (auto simp: r_def window_of_at [OF assms(3)] vec_get_def nth_list_update fun_eq_iff)
  have eq: "take_past_secret gen r =
      (if 2 ^ 31 < n - g then (Inl TooDistantInThePast, r)
       else case past ! ?i of
              None \<Rightarrow> (Inl SecretReuseError, r)
            | Some km \<Rightarrow> (Inr km, r\<lparr>past_secrets := past[?i := None]\<rparr>))"
    using at(1) i neg by (auto simp: take_past_secret_def r_def split: option.splits)
  show "map_prod id window_of (take_past_secret gen r) =
      (if 2 ^ 31 < n - g then (Inl TooDistantInThePast, window_of r)
       else case kw_keys (window_of r) g of
              None \<Rightarrow> (Inl SecretReuseError, window_of r)
            | Some km \<Rightarrow> (Inr km, (window_of r)\<lparr>kw_keys := (kw_keys (window_of r))(g := None)\<rparr>))"
    unfolding eq at(2) using upd by (simp split: option.splits)
  have "ratchet_inv P cs cfg s (r\<lparr>past_secrets := past[?i := None]\<rparr>)"
    using inv keys upd dr by (auto simp: ratchet_inv_def Let_def r_def split: if_splits)
  then show "ratchet_inv P cs cfg s (snd (take_past_secret gen r))"
    unfolding eq using inv by (simp split: option.splits)
qed

lemma decrypt_refines:
  fixes P cs cfg gen r
  defines "res \<equiv> ratchet_secret_for_decryption P cs cfg gen r"
  assumes kdf: "kdf_ok P cs" and inv: "ratchet_inv P cs cfg s r"
  shows "map_prod id window_of res
      = window_decrypt (chain_key P cs s) (unat (out_of_order_tolerance cfg))
          (unat (maximum_forward_distance cfg)) (unat gen) (window_of r)"
    and "ratchet_inv P cs cfg s (snd res)"
proof -
  obtain n past where r: "r = \<lparr>past_secrets = past, ratchet_head = ratchet_at P cs s n\<rparr>"
    and n: "n < 2 ^ 32" and dr: "unat (dr_generation r) = n"
    using ratchet_invE [OF inv] by metis
  let ?fwd = "unat (maximum_forward_distance cfg)" and ?tol = "unat (out_of_order_tolerance cfg)"
  let ?spec = "window_decrypt (chain_key P cs s) ?tol ?fwd (unat gen) (window_of r)"
  have next_n: "kw_next (window_of r) = n" using n by (simp add: r window_of_at)
  note fut = future_check [of "dr_generation r" "maximum_forward_distance cfg" gen, unfolded dr]
  have g: "unat gen < 2 ^ 32" by (rule word_unat_less)
  consider (future) "n + ?fwd < 2 ^ 32 - 1 \<and> n + ?fwd < unat gen"
    | (past) "\<not> (n + ?fwd < 2 ^ 32 - 1 \<and> n + ?fwd < unat gen)" "unat gen < n"
    | (skip) "\<not> (n + ?fwd < 2 ^ 32 - 1 \<and> n + ?fwd < unat gen)" "n \<le> unat gen"
    by linarith
  then have "map_prod id window_of res = ?spec \<and> ratchet_inv P cs cfg s (snd res)"
  proof cases
    case future
    then have "res = (Inl TooDistantInTheFuture, r)"
      by (simp add: res_def ratchet_secret_for_decryption_def future_check dr)
    moreover have "?spec = (Inl TooDistantInTheFuture, window_of r)"
      using future next_n by (simp add: window_decrypt_def)
    ultimately show ?thesis using inv by simp
  next
    case past
    then have le: "gen \<le> dr_generation r" using dr by (simp add: word_le_nat_alt)
    have d: "unat (dr_generation r - gen) = n - unat gen" using unat_sub [OF le] dr by simp
    have res: "res = (if ?tol < n - unat gen then (Inl TooDistantInThePast, r) else take_past_secret gen r)"
      using past fut d
      by (auto simp: res_def ratchet_secret_for_decryption_def word_less_nat_alt word_le_nat_alt dr)
    show ?thesis
    proof (cases "?tol < n - unat gen")
      case True
      then show ?thesis using res past inv next_n by (auto simp: window_decrypt_def)
    next
      case False
      then show ?thesis
        using res past inv next_n
          take_past_refines [OF n past(2) _ inv [unfolded r], folded r]
        by (simp add: window_decrypt_def)
    qed
  next
    case skip
    then have ge: "dr_generation r \<le> gen" using dr by (simp add: word_le_nat_alt)
    have k: "unat (gen - dr_generation r) = unat gen - n" using unat_sub [OF ge] dr by simp
    have "n + (unat gen - n) = unat gen" "unat gen \<le> 2 ^ 32 - 1" using skip(2) g by simp_all
    then have sk: "skip_forward P cs (unat (gen - dr_generation r)) r
        = (Inr (), \<lparr>past_secrets = map (\<lambda>x. Some (chain_key P cs s x)) (rev [n..<unat gen]) @ past,
                    ratchet_head = ratchet_at P cs s (unat gen)\<rparr>)" (is "_ = (_, ?r')")
      using skip_forward_at [OF kdf, of n "unat gen - n" past s] k by (simp add: r)
    have res: "res = forward_secret P cs cfg ?r'"
      using skip(1) ge fut sk
      by (auto simp: res_def ratchet_secret_for_decryption_def dr)
    show ?thesis
    proof (cases "unat gen = 2 ^ 32 - 1")
      case True
      then show ?thesis
        using res skip next_n exhausted_refines [OF n inv [unfolded r], folded r]
        by (simp add: window_decrypt_def)
    next
      case False
      then have lt: "unat gen < 2 ^ 32 - 1" using g by simp
      show ?thesis
        using res skip next_n False forward_refines [OF kdf skip(2) lt inv [unfolded r], folded r]
        by (simp add: window_decrypt_def)
    qed
  qed
  then show "map_prod id window_of res = ?spec" and "ratchet_inv P cs cfg s (snd res)" by simp_all
qed

section \<open>One-time keys\<close>

text \<open>
  A source of one-time keys: a request names a key, and a key that has been handed out is not
  available again.
\<close>

fun serve :: "('g \<Rightarrow> 's \<Rightarrow> ('e + 'k) \<times> 's) \<Rightarrow> 'g list \<Rightarrow> 's \<Rightarrow> ('g \<times> 'k) list" where
  "serve request [] s = []"
| "serve request (g # gs) s =
     (case request g s of
        (Inr k, s') \<Rightarrow> (g, k) # serve request gs s'
      | (Inl _, s') \<Rightarrow> serve request gs s')"

locale one_time_keys =
  fixes request :: "'g \<Rightarrow> 's \<Rightarrow> ('e + 'k) \<times> 's"
    and invar :: "'s \<Rightarrow> bool"
    and available :: "'s \<Rightarrow> 'g set"
    and key :: "'g \<Rightarrow> 'k"
  assumes invar_request: "invar s \<Longrightarrow> invar (snd (request g s))"
    and granted: "invar s \<Longrightarrow> request g s = (Inr k, s') \<Longrightarrow>
      k = key g \<and> g \<in> available s \<and> g \<notin> available s'"
    and never_restored: "invar s \<Longrightarrow> available (snd (request g s)) \<subseteq> available s"
begin

lemma serve_available:
  "invar s \<Longrightarrow> (g, k) \<in> set (serve request gs s) \<Longrightarrow> g \<in> available s \<and> k = key g"
proof (induction gs arbitrary: s)
  case (Cons x gs)
  obtain res s' where req: "request x s = (res, s')" by (cases "request x s")
  have s': "invar s'" "available s' \<subseteq> available s"
    using invar_request [OF Cons.prems(1), of x] never_restored [OF Cons.prems(1), of x] req by simp_all
  show ?case
  proof (cases res)
    case (Inl e)
    then show ?thesis using Cons.IH [OF s'(1)] Cons.prems(2) s'(2) req by auto
  next
    case (Inr k')
    then show ?thesis
      using Cons.IH [OF s'(1)] Cons.prems s'(2) granted [OF Cons.prems(1), of x k' s'] req by auto
  qed
qed simp

lemma serve_distinct: "invar s \<Longrightarrow> distinct (map fst (serve request gs s))"
proof (induction gs arbitrary: s)
  case (Cons x gs)
  obtain res s' where req: "request x s = (res, s')" by (cases "request x s")
  have s': "invar s'" using invar_request [OF Cons.prems, of x] req by simp
  show ?case
  proof (cases res)
    case (Inl e)
    then show ?thesis using Cons.IH [OF s'] req by simp
  next
    case (Inr k)
    have "x \<notin> available s'" using granted [OF Cons.prems, of x k s'] req Inr by simp
    then have "x \<notin> fst ` set (serve request gs s')" using serve_available [OF s'] by auto
    then show ?thesis using Cons.IH [OF s'] req Inr by simp
  qed
qed simp

end

definition window_available :: "key_window \<Rightarrow> nat set" where
  "window_available w = {g. kw_next w \<le> g \<or> kw_keys w g \<noteq> None}"

definition ratchet_available :: "decryption_ratchet \<Rightarrow> (32 word) set" where
  "ratchet_available r = {gen. unat gen \<in> window_available (window_of r)}"

lemma window_decrypt_grants:
  assumes "window_decrypt key tol fwd g w = (Inr k, w')"
    and "\<And>x km. kw_keys w x = Some km \<Longrightarrow> km = key x"
  shows "k = key g \<and> g \<in> window_available w \<and> g \<notin> window_available w'"
  using assms
  by (auto simp: window_decrypt_def Let_def window_available_def split: if_splits option.splits)

lemma window_decrypt_shrinks:
  "window_available (snd (window_decrypt key tol fwd g w)) \<subseteq> window_available w"
  by (auto simp: window_decrypt_def Let_def window_available_def split: if_splits option.splits)

interpretation dec: one_time_keys
  "ratchet_secret_for_decryption P cs cfg"
  "\<lambda>r. kdf_ok P cs \<and> ratchet_inv P cs cfg s r"
  ratchet_available "\<lambda>gen. chain_key P cs s (unat gen)" for P cs cfg s
proof unfold_locales
  fix r gen
  assume inv: "kdf_ok P cs \<and> ratchet_inv P cs cfg s r"
  note ref = decrypt_refines [OF conjunct1 [OF inv] conjunct2 [OF inv], of gen]
  show "kdf_ok P cs \<and> ratchet_inv P cs cfg s (snd (ratchet_secret_for_decryption P cs cfg gen r))"
    using inv ref(2) by simp
  show "ratchet_available (snd (ratchet_secret_for_decryption P cs cfg gen r)) \<subseteq> ratchet_available r"
  proof -
    have "window_of (snd (ratchet_secret_for_decryption P cs cfg gen r))
      = snd (window_decrypt (chain_key P cs s) (unat (out_of_order_tolerance cfg))
          (unat (maximum_forward_distance cfg)) (unat gen) (window_of r))"
      unfolding ref(1) [symmetric] by simp
    then have "window_available (window_of (snd (ratchet_secret_for_decryption P cs cfg gen r)))
        \<subseteq> window_available (window_of r)"
      by (simp only: window_decrypt_shrinks)
    then show ?thesis unfolding ratchet_available_def by blast
  qed
  fix k r'
  assume "ratchet_secret_for_decryption P cs cfg gen r = (Inr k, r')"
  then have "window_decrypt (chain_key P cs s) (unat (out_of_order_tolerance cfg))
      (unat (maximum_forward_distance cfg)) (unat gen) (window_of r) = (Inr k, window_of r')"
    unfolding ref(1) [symmetric] by simp
  moreover note ratchet_inv_keys [OF conjunct2 [OF inv]]
  ultimately show "k = chain_key P cs s (unat gen) \<and> gen \<in> ratchet_available r \<and> gen \<notin> ratchet_available r'"
    unfolding ratchet_available_def mem_Collect_eq by (rule window_decrypt_grants)
qed

text \<open>A generation that is available and inside both bounds is granted.\<close>

definition in_window :: "sender_ratchet_configuration \<Rightarrow> decryption_ratchet \<Rightarrow> 32 word \<Rightarrow> bool" where
  "in_window cfg r gen \<longleftrightarrow>
     gen \<noteq> - 1 \<and>
     unat gen \<le> unat (dr_generation r) + unat (maximum_forward_distance cfg) \<and>
     unat (dr_generation r) \<le> unat gen + min (2 ^ 31) (unat (out_of_order_tolerance cfg))"

lemma decrypt_available:
  assumes "kdf_ok P cs" and "ratchet_inv P cs cfg s r"
    and "gen \<in> ratchet_available r" and "gen \<noteq> - 1"
    and "unat gen \<le> unat (dr_generation r) + unat (maximum_forward_distance cfg)"
    and "unat (dr_generation r) \<le> unat gen + min (2 ^ 31) (unat (out_of_order_tolerance cfg))"
  shows "fst (ratchet_secret_for_decryption P cs cfg gen r) = Inr (chain_key P cs s (unat gen))"
proof -
  let ?spec = "window_decrypt (chain_key P cs s) (unat (out_of_order_tolerance cfg))
      (unat (maximum_forward_distance cfg)) (unat gen) (window_of r)"
  have "fst (ratchet_secret_for_decryption P cs cfg gen r) = fst ?spec"
    unfolding decrypt_refines(1) [OF assms(1,2), of gen, symmetric] by simp
  moreover have "kw_next (window_of r) = unat (dr_generation r)"
    by (simp add: window_of_def Let_def)
  moreover note ratchet_inv_keys [OF assms(2)]
  moreover have "unat gen \<noteq> 2 ^ 32 - 1"
    using assms(4) of_nat_max [of "unat gen"] word_unat_less [of gen] by simp
  ultimately show ?thesis
    using assms(3,5,6)
    by (auto simp: window_decrypt_def Let_def ratchet_available_def window_available_def split: option.splits)
qed

text \<open>The sender walks the same chain.\<close>

fun ratchet_forwards ::
  "crypto_provider \<Rightarrow> ciphersuite \<Rightarrow> nat \<Rightarrow> ratchet_secret \<Rightarrow>
   secret_tree_error + (32 word \<times> ratchet_key_material) list" where
  "ratchet_forwards P cs 0 r = Inr []"
| "ratchet_forwards P cs (Suc n) r =
     try_bind (ratchet_forward P cs r) (\<lambda>(x, r').
     try_bind (ratchet_forwards P cs n r') (\<lambda>xs. Inr (x # xs)))"

lemma ratchet_forwards_at:
  assumes "kdf_ok P cs" and "m + n \<le> 2 ^ 32 - 1"
  shows "ratchet_forwards P cs n (ratchet_at P cs s m)
    = Inr (map (\<lambda>x. (of_nat x, chain_key P cs s x)) [m..<m + n])"
  using assms(2)
proof (induction n arbitrary: m)
  case (Suc n)
  have "[m..<m + Suc n] = m # [Suc m..<Suc m + n]" by (simp add: upt_rec)
  then show ?case
    using Suc.IH [of "Suc m"] Suc.prems ratchet_forward_at [OF assms(1), of m s] by simp
qed simp

lemma ratchet_forwards_too_long:
  assumes "kdf_ok P cs" and "m \<le> 2 ^ 32 - 1" and "2 ^ 32 - 1 < m + n"
  shows "ratchet_forwards P cs n (ratchet_at P cs s m) = Inl RatchetTooLong"
  using assms(2,3)
proof (induction n arbitrary: m)
  case (Suc n)
  show ?case
  proof (cases "m = 2 ^ 32 - 1")
    case True
    then show ?thesis using ratchet_forward_end [of P cs s] by simp
  next
    case False
    then show ?thesis
      using Suc.IH [of "Suc m"] Suc.prems ratchet_forward_at [OF assms(1), of m s] by simp
  qed
qed simp

end
