(* ===== verification/Secret_Tree.thy ===== *)
theory Secret_Tree
  imports Sender_Ratchet Tree_Math
begin

text \<open>
  The secret tree of an epoch (\<open>tree/secret_tree.rs\<close>): the encryption secret sits at the root,
  the secrets of the leaves are derived on demand along the direct path and the nodes on the
  way are deleted; each leaf has a handshake and an application ratchet. Operations return the
  state they leave behind, also when they fail half way.
\<close>

section \<open>State\<close>

datatype secret_type = HandshakeSecret | ApplicationSecret

record secret_tree =
  st_own_index :: nat
  st_leaf_nodes :: "bytes option list"
  st_parent_nodes :: "bytes option list"
  handshake_sender_ratchets :: "sender_ratchet option list"
  application_sender_ratchets :: "sender_ratchet option list"
  st_size :: nat

text \<open>Sequencing of steps that update a state and may fail.\<close>

definition and_then ::
  "('e + 'a) \<times> 's \<Rightarrow> ('a \<Rightarrow> 's \<Rightarrow> ('e + 'b) \<times> 's) \<Rightarrow> ('e + 'b) \<times> 's" where
  "and_then m f = (case m of (Inl e, s) \<Rightarrow> (Inl e, s) | (Inr x, s) \<Rightarrow> f x s)"

definition without_effect :: "('e + 'a) \<Rightarrow> 's \<Rightarrow> ('e + 'a) \<times> 's" where
  "without_effect r s = (r, s)"

fun get_node :: "tree_node_index \<Rightarrow> secret_tree \<Rightarrow> secret_tree_error + bytes option" where
  "get_node (Leaf i) t =
     (case vec_get (st_leaf_nodes t) i of None \<Rightarrow> Inl IndexOutOfBounds | Some n \<Rightarrow> Inr n)"
| "get_node (Parent p) t =
     (case vec_get (st_parent_nodes t) p of None \<Rightarrow> Inl IndexOutOfBounds | Some n \<Rightarrow> Inr n)"

fun set_node ::
  "tree_node_index \<Rightarrow> bytes option \<Rightarrow> secret_tree \<Rightarrow> (secret_tree_error + unit) \<times> secret_tree" where
  "set_node (Leaf i) node t =
     (if i < length (st_leaf_nodes t)
      then (Inr (), t\<lparr>st_leaf_nodes := (st_leaf_nodes t)[i := node]\<rparr>)
      else (Inl IndexOutOfBounds, t))"
| "set_node (Parent p) node t =
     (if p < length (st_parent_nodes t)
      then (Inr (), t\<lparr>st_parent_nodes := (st_parent_nodes t)[p := node]\<rparr>)
      else (Inl IndexOutOfBounds, t))"

definition secret_tree_new :: "bytes \<Rightarrow> nat \<Rightarrow> nat \<Rightarrow> secret_tree" where
  "secret_tree_new encryption_secret sz own_index =
     snd (set_node (root sz) (Some encryption_secret)
       \<lparr>st_own_index = own_index,
        st_leaf_nodes = replicate (leaf_count sz) None,
        st_parent_nodes = replicate (leaf_count sz) None,
        handshake_sender_ratchets = replicate (leaf_count sz) None,
        application_sender_ratchets = replicate (leaf_count sz) None,
        st_size = sz\<rparr>)"

section \<open>Ratchets\<close>

fun sender_ratchets :: "secret_type \<Rightarrow> secret_tree \<Rightarrow> sender_ratchet option list" where
  "sender_ratchets HandshakeSecret t = handshake_sender_ratchets t"
| "sender_ratchets ApplicationSecret t = application_sender_ratchets t"

definition ratchet_opt ::
  "nat \<Rightarrow> secret_type \<Rightarrow> secret_tree \<Rightarrow> secret_tree_error + sender_ratchet option" where
  "ratchet_opt index ty t =
     (case vec_get (sender_ratchets ty t) index of None \<Rightarrow> Inl IndexOutOfBounds | Some r \<Rightarrow> Inr r)"

definition ratchet_mut ::
  "nat \<Rightarrow> secret_type \<Rightarrow> secret_tree \<Rightarrow> secret_tree_error + sender_ratchet" where
  "ratchet_mut index ty t =
     (case vec_get (sender_ratchets ty t) index of
        Some (Some r) \<Rightarrow> Inr r
      | _ \<Rightarrow> Inl IndexOutOfBounds)"

text \<open>The write through the reference that \<open>ratchet_mut\<close> returns.\<close>

fun put_ratchet :: "nat \<Rightarrow> secret_type \<Rightarrow> sender_ratchet \<Rightarrow> secret_tree \<Rightarrow> secret_tree" where
  "put_ratchet index HandshakeSecret r t =
     t\<lparr>handshake_sender_ratchets := (handshake_sender_ratchets t)[index := Some r]\<rparr>"
| "put_ratchet index ApplicationSecret r t =
     t\<lparr>application_sender_ratchets := (application_sender_ratchets t)[index := Some r]\<rparr>"

definition derive_down ::
  "crypto_provider \<Rightarrow> ciphersuite \<Rightarrow> nat \<Rightarrow> secret_tree \<Rightarrow> (secret_tree_error + unit) \<times> secret_tree" where
  "derive_down P cs p t =
     (case get_node (Parent p) t of
        Inl e \<Rightarrow> (Inl e, t)
      | Inr None \<Rightarrow> (Inl StLibraryError, t)
      | Inr (Some node_secret) \<Rightarrow>
          and_then (without_effect (map_err StCryptoError
             (kdf_expand_label P cs node_secret ''tree'' (str_bytes ''left'') (hash_length cs))) t)
            (\<lambda>left_secret.
          \<lambda>t. and_then (without_effect (map_err StCryptoError
             (kdf_expand_label P cs node_secret ''tree'' (str_bytes ''right'') (hash_length cs))) t)
            (\<lambda>right_secret.
          \<lambda>t. and_then (set_node (left p) (Some left_secret) t) (\<lambda>_.
          \<lambda>t. and_then (set_node (right p) (Some right_secret) t) (\<lambda>_.
               set_node (Parent p) None)))))"

fun derive_down_all ::
  "crypto_provider \<Rightarrow> ciphersuite \<Rightarrow> nat list \<Rightarrow> secret_tree \<Rightarrow> (secret_tree_error + unit) \<times> secret_tree" where
  "derive_down_all P cs [] t = (Inr (), t)"
| "derive_down_all P cs (p # ps) t =
     and_then (derive_down P cs p t) (\<lambda>_. derive_down_all P cs ps)"

text \<open>The empty nodes of a path up to and including the first that is not empty.\<close>

fun collect_empty :: "nat list \<Rightarrow> nat list \<Rightarrow> secret_tree \<Rightarrow> secret_tree_error + nat list" where
  "collect_empty [] empty_nodes t = Inr empty_nodes"
| "collect_empty (p # ps) empty_nodes t =
     try_bind (get_node (Parent p) t) (\<lambda>node.
       if node \<noteq> None then Inr (empty_nodes @ [p])
       else collect_empty ps (empty_nodes @ [p]) t)"

definition derive_leaf ::
  "crypto_provider \<Rightarrow> ciphersuite \<Rightarrow> nat \<Rightarrow> secret_tree \<Rightarrow> (secret_tree_error + unit) \<times> secret_tree" where
  "derive_leaf P cs index t =
     (case direct_path index (st_size t) of
        None \<Rightarrow> (Inl StNoReturn, t)
      | Some path \<Rightarrow>
          and_then (without_effect (collect_empty path [] t) t)
            (\<lambda>empty_nodes. derive_down_all P cs (rev empty_nodes)))"

definition new_ratchet :: "bool \<Rightarrow> bytes \<Rightarrow> sender_ratchet" where
  "new_ratchet own secret =
     (if own then EncryptionRatchet (initial_ratchet_secret secret)
      else DecryptionRatchet (decryption_ratchet_new secret))"

definition store_ratchets ::
  "nat \<Rightarrow> sender_ratchet \<Rightarrow> sender_ratchet \<Rightarrow> secret_tree \<Rightarrow> (secret_tree_error + unit) \<times> secret_tree" where
  "store_ratchets index handshake application t =
     (if index < length (handshake_sender_ratchets t) then
        let t' = put_ratchet index HandshakeSecret handshake t in
        if index < length (application_sender_ratchets t') then
          (Inr (), put_ratchet index ApplicationSecret application t')
        else (Inl IndexOutOfBounds, t')
      else (Inl IndexOutOfBounds, t))"

definition start_ratchets ::
  "crypto_provider \<Rightarrow> ciphersuite \<Rightarrow> nat \<Rightarrow> secret_tree \<Rightarrow> (secret_tree_error + unit) \<times> secret_tree" where
  "start_ratchets P cs index t =
     (case get_node (Leaf index) t of
        Inl e \<Rightarrow> (Inl e, t)
      | Inr None \<Rightarrow> (Inl StLibraryError, t)
      | Inr (Some node_secret) \<Rightarrow>
          and_then (without_effect (map_err StCryptoError
             (kdf_expand_label P cs node_secret ''handshake'' [] (hash_length cs))) t)
            (\<lambda>handshake_ratchet_secret.
          \<lambda>t. and_then (without_effect (map_err StCryptoError
             (kdf_expand_label P cs node_secret ''application'' [] (hash_length cs))) t)
            (\<lambda>application_ratchet_secret.
          \<lambda>t. let own = (index = st_own_index t) in
              and_then (store_ratchets index (new_ratchet own handshake_ratchet_secret)
                          (new_ratchet own application_ratchet_secret) t) (\<lambda>_.
                set_node (Leaf index) None))))"

definition initialize_sender_ratchets ::
  "crypto_provider \<Rightarrow> ciphersuite \<Rightarrow> nat \<Rightarrow> secret_tree \<Rightarrow> (secret_tree_error + unit) \<times> secret_tree" where
  "initialize_sender_ratchets P cs index t =
     (if index \<ge> leaf_count (st_size t) then (Inl IndexOutOfBounds, t)
      else
        and_then (without_effect (ratchet_opt index HandshakeSecret t) t) (\<lambda>handshake t.
        and_then (if handshake \<noteq> None then without_effect (ratchet_opt index ApplicationSecret t) t
                  else (Inr None, t)) (\<lambda>application t.
          if handshake \<noteq> None \<and> application \<noteq> None then (Inr (), t)
          else
            and_then (without_effect (get_node (Leaf index) t) t) (\<lambda>leaf t.
            and_then (if leaf = None then derive_leaf P cs index t else (Inr (), t)) (\<lambda>_.
              start_ratchets P cs index)))))"

definition ensure_ratchet ::
  "crypto_provider \<Rightarrow> ciphersuite \<Rightarrow> nat \<Rightarrow> secret_type \<Rightarrow> secret_tree \<Rightarrow>
   (secret_tree_error + unit) \<times> secret_tree" where
  "ensure_ratchet P cs index ty t =
     and_then (without_effect (ratchet_opt index ty t) t) (\<lambda>ratchet t.
       if ratchet = None then initialize_sender_ratchets P cs index t else (Inr (), t))"

definition secret_for_decryption ::
  "crypto_provider \<Rightarrow> ciphersuite \<Rightarrow> sender_ratchet_configuration \<Rightarrow> nat \<Rightarrow> secret_type \<Rightarrow> 32 word \<Rightarrow>
   secret_tree \<Rightarrow> (secret_tree_error + ratchet_key_material) \<times> secret_tree" where
  "secret_for_decryption P cs cfg index ty generation t =
     (if index \<ge> leaf_count (st_size t) then (Inl IndexOutOfBounds, t)
      else
        and_then (ensure_ratchet P cs index ty t) (\<lambda>_ t.
          case ratchet_mut index ty t of
            Inl e \<Rightarrow> (Inl e, t)
          | Inr (EncryptionRatchet _) \<Rightarrow> (Inl RatchetTypeError, t)
          | Inr (DecryptionRatchet r) \<Rightarrow>
              (let (res, r') = ratchet_secret_for_decryption P cs cfg generation r
               in (res, put_ratchet index ty (DecryptionRatchet r') t))))"

definition secret_for_encryption ::
  "crypto_provider \<Rightarrow> ciphersuite \<Rightarrow> nat \<Rightarrow> secret_type \<Rightarrow> secret_tree \<Rightarrow>
   (secret_tree_error + 32 word \<times> ratchet_key_material) \<times> secret_tree" where
  "secret_for_encryption P cs index ty t =
     and_then (ensure_ratchet P cs index ty t) (\<lambda>_ t.
       case ratchet_mut index ty t of
         Inl e \<Rightarrow> (Inl e, t)
       | Inr (DecryptionRatchet _) \<Rightarrow> (Inl RatchetTypeError, t)
       | Inr (EncryptionRatchet r) \<Rightarrow>
           (case ratchet_forward P cs r of
              Inl e \<Rightarrow> (Inl e, t)
            | Inr (res, r') \<Rightarrow> (Inr res, put_ratchet index ty (EncryptionRatchet r') t)))"

section \<open>Nodes by height and position\<close>

definition st_node :: "secret_tree \<Rightarrow> nat \<Rightarrow> nat \<Rightarrow> bytes option" where
  "st_node t k m = (case node_ix k m of Leaf i \<Rightarrow> st_leaf_nodes t ! i | Parent p \<Rightarrow> st_parent_nodes t ! p)"

definition st_shape :: "nat \<Rightarrow> secret_tree \<Rightarrow> bool" where
  "st_shape h t \<longleftrightarrow>
     h < 30 \<and> st_size t = full_size h \<and>
     length (st_leaf_nodes t) = 2 ^ h \<and> length (st_parent_nodes t) = 2 ^ h \<and>
     length (handshake_sender_ratchets t) = 2 ^ h \<and> length (application_sender_ratchets t) = 2 ^ h"

definition same_ratchets :: "secret_tree \<Rightarrow> secret_tree \<Rightarrow> bool" where
  "same_ratchets t t' \<longleftrightarrow>
     handshake_sender_ratchets t' = handshake_sender_ratchets t \<and>
     application_sender_ratchets t' = application_sender_ratchets t \<and>
     st_own_index t' = st_own_index t"

text \<open>The nodes of a tree of height \<open>h\<close>.\<close>

definition in_tree :: "nat \<Rightarrow> nat \<Rightarrow> nat \<Rightarrow> bool" where
  "in_tree h k m \<longleftrightarrow> k \<le> h \<and> m < 2 ^ (h - k)"

lemma same_ratchets_refl [simp]: "same_ratchets t t"
  by (simp add: same_ratchets_def)

lemma same_ratchets_trans: "same_ratchets t t' \<Longrightarrow> same_ratchets t' t'' \<Longrightarrow> same_ratchets t t''"
  by (simp add: same_ratchets_def)

lemma and_then_simps [simp]:
  "and_then (Inr x, s) f = f x s"
  "and_then (Inl e, s) f = (Inl e, s)"
  by (simp_all add: and_then_def)

lemma without_effect_eq [simp]: "without_effect r s = (r, s)"
  by (simp add: without_effect_def)

lemma parent_index_bound: "in_tree h (Suc k) m \<Longrightarrow> node_at k m < 2 ^ h"
proof -
  assume "in_tree h (Suc k) m"
  then obtain d where d: "h = Suc d" "k \<le> d" "m < 2 ^ (d - k)"
    by (cases h) (auto simp: in_tree_def)
  then have "node_at k m < full_size d" by (simp add: node_at_less_full_iff)
  then show ?thesis using d(1) by (simp add: full_size_def)
qed

lemma get_node_at:
  assumes "st_shape h t" and "in_tree h k m"
  shows "get_node (node_ix k m) t = Inr (st_node t k m)"
  using assms parent_index_bound [of h _ m]
  by (cases k) (auto simp: st_shape_def st_node_def in_tree_def vec_get_def)

lemma set_node_at:
  assumes "st_shape h t" and "in_tree h k m"
  obtains t' where "set_node (node_ix k m) x t = (Inr (), t')" and "st_shape h t'"
    and "same_ratchets t t'"
    and "\<And>k' m'. in_tree h k' m' \<Longrightarrow> st_node t' k' m' = (if k' = k \<and> m' = m then x else st_node t k' m')"
proof (cases k)
  case 0
  then have m: "m < 2 ^ h" using assms(2) by (simp add: in_tree_def)
  show ?thesis
  proof (rule that [of "t\<lparr>st_leaf_nodes := (st_leaf_nodes t)[m := x]\<rparr>"])
    show "set_node (node_ix k m) x t = (Inr (), t\<lparr>st_leaf_nodes := (st_leaf_nodes t)[m := x]\<rparr>)"
      using 0 m assms(1) by (simp add: st_shape_def)
    show "st_node (t\<lparr>st_leaf_nodes := (st_leaf_nodes t)[m := x]\<rparr>) k' m'
        = (if k' = k \<and> m' = m then x else st_node t k' m')" if "in_tree h k' m'" for k' m'
      using 0 m assms(1) by (cases k') (simp_all add: st_node_def st_shape_def nth_list_update)
  qed (use assms(1) in \<open>simp_all add: st_shape_def same_ratchets_def\<close>)
next
  case (Suc j)
  then have p: "node_at j m < 2 ^ h" using assms(2) parent_index_bound by simp
  let ?t' = "t\<lparr>st_parent_nodes := (st_parent_nodes t)[node_at j m := x]\<rparr>"
  show ?thesis
  proof (rule that [of ?t'])
    show "set_node (node_ix k m) x t = (Inr (), ?t')"
      using Suc p assms(1) by (simp add: st_shape_def)
    show "st_node ?t' k' m' = (if k' = k \<and> m' = m then x else st_node t k' m')"
      if "in_tree h k' m'" for k' m'
      using Suc p assms(1) by (cases k') (auto simp: st_node_def st_shape_def nth_list_update)
  qed (use assms(1) in \<open>simp_all add: st_shape_def same_ratchets_def\<close>)
qed

section \<open>The secrets of the tree\<close>

text \<open>The secret of the node at depth \<open>j\<close> and position \<open>m\<close> below the encryption secret.\<close>

fun tree_secret :: "crypto_provider \<Rightarrow> ciphersuite \<Rightarrow> bytes \<Rightarrow> nat \<Rightarrow> nat \<Rightarrow> bytes" where
  "tree_secret P cs s 0 m = s"
| "tree_secret P cs s (Suc j) m =
     expand P cs (tree_secret P cs s j (m div 2)) ''tree''
       (str_bytes (if even m then ''left'' else ''right'')) (hash_length cs)"

lemma kdf_tree_ok:
  assumes "kdf_ok P cs"
  shows "kdf_expand_label P cs secret ''tree'' (str_bytes ''left'') (hash_length cs)
      = Inr (expand P cs secret ''tree'' (str_bytes ''left'') (hash_length cs))"
    and "kdf_expand_label P cs secret ''tree'' (str_bytes ''right'') (hash_length cs)
      = Inr (expand P cs secret ''tree'' (str_bytes ''right'') (hash_length cs))"
    and "kdf_expand_label P cs secret ''handshake'' [] (hash_length cs)
      = Inr (expand P cs secret ''handshake'' [] (hash_length cs))"
    and "kdf_expand_label P cs secret ''application'' [] (hash_length cs)
      = Inr (expand P cs secret ''application'' [] (hash_length cs))"
  by (rule kdf_expand_label_ok(1) [OF assms]; simp add: ciphersuite_lengths str_bytes_def)+

lemma derive_down_at:
  assumes "kdf_ok P cs" and shape: "st_shape h t" and "in_tree h (Suc k) m"
    and "st_node t (Suc k) m = Some secret"
  obtains t' where "derive_down P cs (node_at k m) t = (Inr (), t')" and "st_shape h t'"
    and "same_ratchets t t'"
    and "\<And>k' m'. in_tree h k' m' \<Longrightarrow> st_node t' k' m' =
      (if k' = Suc k \<and> m' = m then None
       else if k' = k \<and> m' = 2 * m
       then Some (expand P cs secret ''tree'' (str_bytes ''left'') (hash_length cs))
       else if k' = k \<and> m' = 2 * m + 1
       then Some (expand P cs secret ''tree'' (str_bytes ''right'') (hash_length cs))
       else st_node t k' m')"
proof -
  have kh: "k < h" and m: "m < 2 ^ (h - Suc k)" using assms(3) by (simp_all add: in_tree_def)
  then have children: "in_tree h k (2 * m)" "in_tree h k (2 * m + 1)"
    by (simp_all add: in_tree_def Suc_diff_Suc [symmetric] del: Suc_diff_Suc)
  have "node_at k m < 2 ^ 30"
    using shape m kh by (intro node_at_bound [of m "h - 1"]) (auto simp: st_shape_def)
  then have lr: "left (node_at k m) = node_ix k (2 * m)" "right (node_at k m) = node_ix k (2 * m + 1)"
    by (rule left_node_at, rule right_node_at)
  have own: "get_node (Parent (node_at k m)) t = Inr (Some secret)"
    using get_node_at [OF shape assms(3)] assms(4) by simp
  obtain t1 where t1: "set_node (node_ix k (2 * m))
      (Some (expand P cs secret ''tree'' (str_bytes ''left'') (hash_length cs))) t = (Inr (), t1)"
      "st_shape h t1" "same_ratchets t t1"
    and n1: "\<And>k' m'. in_tree h k' m' \<Longrightarrow> st_node t1 k' m' = (if k' = k \<and> m' = 2 * m
      then Some (expand P cs secret ''tree'' (str_bytes ''left'') (hash_length cs)) else st_node t k' m')"
    by (rule set_node_at [OF shape children(1)]) blast
  obtain t2 where t2: "set_node (node_ix k (2 * m + 1))
      (Some (expand P cs secret ''tree'' (str_bytes ''right'') (hash_length cs))) t1 = (Inr (), t2)"
      "st_shape h t2" "same_ratchets t1 t2"
    and n2: "\<And>k' m'. in_tree h k' m' \<Longrightarrow> st_node t2 k' m' = (if k' = k \<and> m' = 2 * m + 1
      then Some (expand P cs secret ''tree'' (str_bytes ''right'') (hash_length cs)) else st_node t1 k' m')"
    by (rule set_node_at [OF t1(2) children(2)]) blast
  obtain t3 where t3: "set_node (node_ix (Suc k) m) None t2 = (Inr (), t3)"
      "st_shape h t3" "same_ratchets t2 t3"
    and n3: "\<And>k' m'. in_tree h k' m' \<Longrightarrow> st_node t3 k' m' = (if k' = Suc k \<and> m' = m
      then None else st_node t2 k' m')"
    by (rule set_node_at [OF t2(2) assms(3)]) blast
  show ?thesis
  proof (rule that [of t3])
    show "derive_down P cs (node_at k m) t = (Inr (), t3)"
      using own t1(1) t2(1) t3(1) lr kdf_tree_ok [OF assms(1), of secret]
      by (simp add: derive_down_def)
    show "same_ratchets t t3"
      using t1(3) t2(3) t3(3) by (blast intro: same_ratchets_trans)
    show "st_node t3 k' m' =
      (if k' = Suc k \<and> m' = m then None
       else if k' = k \<and> m' = 2 * m
       then Some (expand P cs secret ''tree'' (str_bytes ''left'') (hash_length cs))
       else if k' = k \<and> m' = 2 * m + 1
       then Some (expand P cs secret ''tree'' (str_bytes ''right'') (hash_length cs))
       else st_node t k' m')" if "in_tree h k' m'" for k' m'
      unfolding n3 [OF that] n2 [OF that] n1 [OF that] by auto
  qed (rule t3(2))
qed

section \<open>Deriving the secret of a leaf\<close>

lemma in_tree_anc: "i < 2 ^ h \<Longrightarrow> k \<le> h \<Longrightarrow> in_tree h k (anc i k)"
  by (simp add: in_tree_def anc_less)

lemma anc_parity: "anc i k = 2 * anc i (Suc k) \<and> sib (anc i k) = 2 * anc i (Suc k) + 1 \<or>
    anc i k = 2 * anc i (Suc k) + 1 \<and> sib (anc i k) = 2 * anc i (Suc k)"
  unfolding anc_div_2 [symmetric] sib_def
  by (cases "even (anc i k)") (auto simp del: anc_div_2 elim!: evenE oddE)

lemma sib_anc: "anc j b = sib (anc i b) \<Longrightarrow> anc j (Suc b) = anc i (Suc b)"
proof -
  assume "anc j b = sib (anc i b)"
  then have "anc j b div 2 = sib (anc i b) div 2" by (rule arg_cong)
  then show ?thesis by simp
qed

lemma derive_path_down:
  assumes kdf: "kdf_ok P cs" and i: "i < 2 ^ h"
    and "st_shape h t" and "k \<le> h" and "st_node t k (anc i k) = Some (tree_secret P cs s (h - k) (anc i k))"
  obtains t' where
    "derive_down_all P cs (rev (map (\<lambda>j. node_at j (anc i (Suc j))) [0..<k])) t = (Inr (), t')"
    and "st_shape h t'" and "same_ratchets t t'"
    and "\<And>j m. in_tree h j m \<Longrightarrow> st_node t' j m =
      (if j = 0 \<and> m = i then Some (tree_secret P cs s h i)
       else if j \<le> k \<and> m = anc i j then None
       else if j < k \<and> m = sib (anc i j) then Some (tree_secret P cs s (h - j) m)
       else st_node t j m)"
  using assms(3-5)
proof (induction k arbitrary: t thesis)
  case 0
  show ?case
    by (rule "0.prems"(1) [of t]) (use "0.prems" in auto)
next
  case (Suc k)
  let ?m = "anc i (Suc k)"
  have kh: "k < h" using Suc.prems by simp
  have in_m: "in_tree h (Suc k) ?m" using i Suc.prems(3) by (rule in_tree_anc)
  obtain t1 where t1: "derive_down P cs (node_at k ?m) t = (Inr (), t1)" "st_shape h t1" "same_ratchets t t1"
    and n1: "\<And>k' m'. in_tree h k' m' \<Longrightarrow> st_node t1 k' m' =
      (if k' = Suc k \<and> m' = ?m then None
       else if k' = k \<and> m' = 2 * ?m
       then Some (expand P cs (tree_secret P cs s (h - Suc k) ?m) ''tree'' (str_bytes ''left'') (hash_length cs))
       else if k' = k \<and> m' = 2 * ?m + 1
       then Some (expand P cs (tree_secret P cs s (h - Suc k) ?m) ''tree'' (str_bytes ''right'') (hash_length cs))
       else st_node t k' m')"
    by (rule derive_down_at [OF kdf Suc.prems(2) in_m Suc.prems(4)]) blast
  have "h - k = Suc (h - Suc k)" using kh by simp
  then have child: "st_node t1 k m' =
      (if m' = anc i k \<or> m' = sib (anc i k) then Some (tree_secret P cs s (h - k) m') else st_node t k m')"
    if "in_tree h k m'" for m'
    using n1 [OF that] anc_parity [of i k] by auto
  have other: "st_node t1 j m' = (if j = Suc k \<and> m' = ?m then None else st_node t j m')"
    if "in_tree h j m'" "j \<noteq> k" for j m'
    using n1 [OF that(1)] that(2) by simp
  have at_k: "st_node t1 k (anc i k) = Some (tree_secret P cs s (h - k) (anc i k))"
    using child [OF in_tree_anc [OF i]] kh by simp
  obtain t' where t': "derive_down_all P cs (rev (map (\<lambda>j. node_at j (anc i (Suc j))) [0..<k])) t1 = (Inr (), t')"
      "st_shape h t'" "same_ratchets t1 t'"
    and n': "\<And>j m. in_tree h j m \<Longrightarrow> st_node t' j m =
      (if j = 0 \<and> m = i then Some (tree_secret P cs s h i)
       else if j \<le> k \<and> m = anc i j then None
       else if j < k \<and> m = sib (anc i j) then Some (tree_secret P cs s (h - j) m)
       else st_node t1 j m)"
    by (rule Suc.IH [OF _ t1(2) less_imp_le [OF kh] at_k]) blast
  show ?case
  proof (rule Suc.prems(1) [of t'])
    show "derive_down_all P cs (rev (map (\<lambda>j. node_at j (anc i (Suc j))) [0..<Suc k])) t = (Inr (), t')"
      using t1(1) t'(1) by simp
    show "same_ratchets t t'" using t1(3) t'(3) by (rule same_ratchets_trans)
    show "st_node t' j m =
      (if j = 0 \<and> m = i then Some (tree_secret P cs s h i)
       else if j \<le> Suc k \<and> m = anc i j then None
       else if j < Suc k \<and> m = sib (anc i j) then Some (tree_secret P cs s (h - j) m)
       else st_node t j m)" if "in_tree h j m" for j m
    proof (cases "j = k")
      case True
      then have "in_tree h k m" using that by simp
      then show ?thesis unfolding n' [OF that] using child True by auto
    next
      case False
      then have "j \<le> Suc k \<longleftrightarrow> j \<le> k \<or> j = Suc k" "j < Suc k \<longleftrightarrow> j < k" by auto
      then show ?thesis unfolding n' [OF that] other [OF that False] by auto
    qed
  qed (rule t'(2))
qed

lemma collect_empty_at:
  assumes "st_shape h t" and "i < 2 ^ h" and "a < k" and "k \<le> h"
    and "st_node t k (anc i k) \<noteq> None" and "\<And>j. a < j \<Longrightarrow> j < k \<Longrightarrow> st_node t j (anc i j) = None"
  shows "collect_empty (map (\<lambda>j. node_at j (anc i (Suc j))) [a..<h]) acc t
    = Inr (acc @ map (\<lambda>j. node_at j (anc i (Suc j))) [a..<k])"
  using assms(3,6)
proof (induction "k - a" arbitrary: a acc)
  case 0
  then show ?case by simp
next
  case (Suc d)
  have get: "get_node (Parent (node_at a (anc i (Suc a)))) t = Inr (st_node t (Suc a) (anc i (Suc a)))"
    using get_node_at [OF assms(1) in_tree_anc [OF assms(2), of "Suc a"]] Suc.prems(1) assms(4) by simp
  have a: "[a..<h] = a # [Suc a..<h]" "[a..<k] = a # [Suc a..<k]"
    using Suc.prems(1) assms(4) by (simp_all add: upt_conv_Cons)
  show ?case
  proof (cases "Suc a = k")
    case True
    then show ?thesis using assms(5) get by (simp add: a)
  next
    case False
    then have "Suc a < k" using Suc.prems(1) by simp
    then show ?thesis
      using Suc.hyps(1) [of "Suc a"] Suc.hyps(2) Suc.prems(2) get by (simp add: a)
  qed
qed

section \<open>Initialising the ratchets of a leaf\<close>

fun ratchet_label :: "secret_type \<Rightarrow> string" where
  "ratchet_label HandshakeSecret = ''handshake''"
| "ratchet_label ApplicationSecret = ''application''"

definition leaf_ratchet_secret ::
  "crypto_provider \<Rightarrow> ciphersuite \<Rightarrow> bytes \<Rightarrow> nat \<Rightarrow> secret_type \<Rightarrow> nat \<Rightarrow> bytes" where
  "leaf_ratchet_secret P cs s h ty i =
     expand P cs (tree_secret P cs s h i) (ratchet_label ty) [] (hash_length cs)"

lemma start_ratchets_at:
  assumes "kdf_ok P cs" and shape: "st_shape h t" and i: "i < 2 ^ h"
    and "st_node t 0 i = Some (tree_secret P cs s h i)"
  obtains t' where "start_ratchets P cs i t = (Inr (), t')" and "st_shape h t'"
    and "st_own_index t' = st_own_index t"
    and "\<And>ty. sender_ratchets ty t' = (sender_ratchets ty t)
      [i := Some (new_ratchet (i = st_own_index t) (leaf_ratchet_secret P cs s h ty i))]"
    and "\<And>k m. in_tree h k m \<Longrightarrow> st_node t' k m = (if k = 0 \<and> m = i then None else st_node t k m)"
proof -
  let ?own = "i = st_own_index t"
  let ?h = "new_ratchet ?own (leaf_ratchet_secret P cs s h HandshakeSecret i)"
  let ?a = "new_ratchet ?own (leaf_ratchet_secret P cs s h ApplicationSecret i)"
  let ?t1 = "put_ratchet i ApplicationSecret ?a (put_ratchet i HandshakeSecret ?h t)"
  have in_i: "in_tree h 0 i" using i by (simp add: in_tree_def)
  have shape1: "st_shape h ?t1" using shape by (simp add: st_shape_def)
  have node1: "st_node ?t1 k m = st_node t k m" for k m by (cases k) (simp_all add: st_node_def)
  obtain t' where t': "set_node (node_ix 0 i) None ?t1 = (Inr (), t')" "st_shape h t'" "same_ratchets ?t1 t'"
    and n': "\<And>k m. in_tree h k m \<Longrightarrow> st_node t' k m = (if k = 0 \<and> m = i then None else st_node ?t1 k m)"
    by (rule set_node_at [OF shape1 in_i]) blast
  have get: "get_node (Leaf i) t = Inr (Some (tree_secret P cs s h i))"
    using get_node_at [OF shape in_i] assms(4) by simp
  have store: "store_ratchets i ?h ?a t = (Inr (), ?t1)"
    using shape i by (simp add: store_ratchets_def st_shape_def)
  show ?thesis
  proof (rule that [of t'])
    show "start_ratchets P cs i t = (Inr (), t')"
      using get store t'(1) kdf_tree_ok(3,4) [OF assms(1)]
      by (simp add: start_ratchets_def leaf_ratchet_secret_def Let_def)
    show "sender_ratchets ty t' = (sender_ratchets ty t)
        [i := Some (new_ratchet ?own (leaf_ratchet_secret P cs s h ty i))]" for ty
      using t'(3) by (cases ty) (simp_all add: same_ratchets_def)
    show "st_node t' k m = (if k = 0 \<and> m = i then None else st_node t k m)" if "in_tree h k m" for k m
      using n' [OF that] node1 by simp
    show "st_own_index t' = st_own_index t"
      using t'(3) by (simp add: same_ratchets_def)
  qed (rule t'(2))
qed

lemma initialize_at:
  assumes kdf: "kdf_ok P cs" and shape: "st_shape h t" and i: "i < 2 ^ h"
    and fresh: "handshake_sender_ratchets t ! i = None"
    and k: "k \<le> h" "st_node t k (anc i k) = Some (tree_secret P cs s (h - k) (anc i k))"
    and below: "\<And>j. j < k \<Longrightarrow> st_node t j (anc i j) = None"
  obtains t' where "initialize_sender_ratchets P cs i t = (Inr (), t')" and "st_shape h t'"
    and "st_own_index t' = st_own_index t"
    and "\<And>ty. sender_ratchets ty t' = (sender_ratchets ty t)
      [i := Some (new_ratchet (i = st_own_index t) (leaf_ratchet_secret P cs s h ty i))]"
    and "\<And>j m. in_tree h j m \<Longrightarrow> st_node t' j m =
      (if j \<le> k \<and> m = anc i j then None
       else if j < k \<and> m = sib (anc i j) then Some (tree_secret P cs s (h - j) m)
       else st_node t j m)"
proof -
  have in_i: "in_tree h 0 i" using i by (simp add: in_tree_def)
  obtain t1 where t1: "(if st_node t 0 i = None then derive_leaf P cs i t else (Inr (), t)) = (Inr (), t1)"
      "st_shape h t1" "same_ratchets t t1"
    and n1: "\<And>j m. in_tree h j m \<Longrightarrow> st_node t1 j m =
      (if j = 0 \<and> m = i then Some (tree_secret P cs s h i)
       else if j \<le> k \<and> m = anc i j then None
       else if j < k \<and> m = sib (anc i j) then Some (tree_secret P cs s (h - j) m)
       else st_node t j m)"
  proof (cases "k = 0")
    case True
    then show ?thesis using that [of t] k shape by auto
  next
    case False
    then have leaf: "st_node t 0 i = None" using below [of 0] by simp
    have path: "direct_path i (st_size t) = Some (map (\<lambda>j. node_at j (anc i (Suc j))) [0..<h])"
      using shape direct_path_full [OF i] by (simp add: st_shape_def)
    have "collect_empty (map (\<lambda>j. node_at j (anc i (Suc j))) [0..<h]) [] t
        = Inr ([] @ map (\<lambda>j. node_at j (anc i (Suc j))) [0..<k])"
      by (rule collect_empty_at [OF shape i]) (use False k below in auto)
    then have eq: "derive_leaf P cs i t
        = derive_down_all P cs (rev (map (\<lambda>j. node_at j (anc i (Suc j))) [0..<k])) t"
      using path by (simp add: derive_leaf_def)
    obtain t' where down: "derive_down_all P cs (rev (map (\<lambda>j. node_at j (anc i (Suc j))) [0..<k])) t = (Inr (), t')"
        "st_shape h t'" "same_ratchets t t'"
      and n': "\<And>j m. in_tree h j m \<Longrightarrow> st_node t' j m =
        (if j = 0 \<and> m = i then Some (tree_secret P cs s h i)
         else if j \<le> k \<and> m = anc i j then None
         else if j < k \<and> m = sib (anc i j) then Some (tree_secret P cs s (h - j) m)
         else st_node t j m)"
      by (rule derive_path_down [OF kdf i shape k]) blast
    show ?thesis by (rule that [OF _ down(2,3) n']) (simp_all add: leaf eq down(1))
  qed
  have node_i: "st_node t1 0 i = Some (tree_secret P cs s h i)" using n1 [OF in_i] by simp
  obtain t' where t': "start_ratchets P cs i t1 = (Inr (), t')" "st_shape h t'"
      "st_own_index t' = st_own_index t1"
    and r': "\<And>ty. sender_ratchets ty t' = (sender_ratchets ty t1)
      [i := Some (new_ratchet (i = st_own_index t1) (leaf_ratchet_secret P cs s h ty i))]"
    and n': "\<And>k m. in_tree h k m \<Longrightarrow> st_node t' k m = (if k = 0 \<and> m = i then None else st_node t1 k m)"
    by (rule start_ratchets_at [OF kdf t1(2) i node_i]) blast
  have same: "sender_ratchets ty t1 = sender_ratchets ty t" "st_own_index t1 = st_own_index t" for ty
    using t1(3) by (cases ty; simp add: same_ratchets_def)+
  show ?thesis
  proof (rule that [of t'])
    have "ratchet_opt i HandshakeSecret t = Inr None" "get_node (Leaf i) t = Inr (st_node t 0 i)"
      "\<not> i \<ge> leaf_count (st_size t)"
      using shape i fresh get_node_at [OF shape in_i]
      by (simp_all add: ratchet_opt_def vec_get_def st_shape_def)
    then show "initialize_sender_ratchets P cs i t = (Inr (), t')"
      using t1(1) t'(1) by (simp add: initialize_sender_ratchets_def)
    show "st_node t' j m =
      (if j \<le> k \<and> m = anc i j then None
       else if j < k \<and> m = sib (anc i j) then Some (tree_secret P cs s (h - j) m)
       else st_node t j m)" if "in_tree h j m" for j m
      unfolding n' [OF that] n1 [OF that] by auto
  qed (use t' r' same in simp_all)
qed

section \<open>The invariant\<close>

fun ratchet_ok ::
  "crypto_provider \<Rightarrow> ciphersuite \<Rightarrow> sender_ratchet_configuration \<Rightarrow> bytes \<Rightarrow> bool \<Rightarrow> sender_ratchet \<Rightarrow> bool" where
  "ratchet_ok P cs cfg s own (EncryptionRatchet e) \<longleftrightarrow> own \<and> (\<exists>n < 2 ^ 32. e = ratchet_at P cs s n)"
| "ratchet_ok P cs cfg s own (DecryptionRatchet d) \<longleftrightarrow> \<not> own \<and> ratchet_inv P cs cfg s d"

text \<open>
  A leaf whose ratchets have not been started has exactly one secret on its path, and a leaf
  whose ratchets have been started has none: what could derive its keys again is deleted.
\<close>

definition leaf_frontier :: "nat \<Rightarrow> secret_tree \<Rightarrow> nat \<Rightarrow> bool" where
  "leaf_frontier h t i \<longleftrightarrow>
     (if handshake_sender_ratchets t ! i = None
      then \<exists>k \<le> h. st_node t k (anc i k) \<noteq> None \<and> (\<forall>j \<le> h. j \<noteq> k \<longrightarrow> st_node t j (anc i j) = None)
      else \<forall>j \<le> h. st_node t j (anc i j) = None)"

lemma leaf_frontier_cong:
  assumes "\<And>b. b \<le> h \<Longrightarrow> st_node t' b (anc j b) = st_node t b (anc j b)"
    and "handshake_sender_ratchets t' ! j = None \<longleftrightarrow> handshake_sender_ratchets t ! j = None"
  shows "leaf_frontier h t' j \<longleftrightarrow> leaf_frontier h t j"
  unfolding leaf_frontier_def assms(2) using assms(1) by auto

definition secret_tree_inv ::
  "crypto_provider \<Rightarrow> ciphersuite \<Rightarrow> sender_ratchet_configuration \<Rightarrow> bytes \<Rightarrow> nat \<Rightarrow> secret_tree \<Rightarrow> bool" where
  "secret_tree_inv P cs cfg s h t \<longleftrightarrow>
     st_shape h t \<and>
     (\<forall>k m. in_tree h k m \<longrightarrow> st_node t k m = None \<or> st_node t k m = Some (tree_secret P cs s (h - k) m)) \<and>
     (\<forall>i < 2 ^ h. handshake_sender_ratchets t ! i = None \<longleftrightarrow> application_sender_ratchets t ! i = None) \<and>
     (\<forall>i < 2 ^ h. leaf_frontier h t i) \<and>
     (\<forall>ty. \<forall>i < 2 ^ h. \<forall>r. sender_ratchets ty t ! i = Some r \<longrightarrow>
        ratchet_ok P cs cfg (leaf_ratchet_secret P cs s h ty i) (i = st_own_index t) r)"

lemma secret_tree_invD:
  assumes "secret_tree_inv P cs cfg s h t"
  shows "st_shape h t"
    and "in_tree h k m \<Longrightarrow> st_node t k m = None \<or> st_node t k m = Some (tree_secret P cs s (h - k) m)"
    and "i < 2 ^ h \<Longrightarrow> sender_ratchets ty t ! i = None \<longleftrightarrow> handshake_sender_ratchets t ! i = None"
    and "i < 2 ^ h \<Longrightarrow> leaf_frontier h t i"
    and "i < 2 ^ h \<Longrightarrow> sender_ratchets ty t ! i = Some r \<Longrightarrow>
      ratchet_ok P cs cfg (leaf_ratchet_secret P cs s h ty i) (i = st_own_index t) r"
proof -
  show "sender_ratchets ty t ! i = None \<longleftrightarrow> handshake_sender_ratchets t ! i = None" if "i < 2 ^ h"
    using assms that by (cases ty) (simp_all add: secret_tree_inv_def)
qed (use assms in \<open>unfold secret_tree_inv_def, blast\<close>)+

lemma new_ratchet_ok: "ratchet_ok P cs cfg s own (new_ratchet own s)"
proof (cases own)
  case True
  moreover have "\<exists>n < 2 ^ 32. initial_ratchet_secret s = ratchet_at P cs s n"
    by (rule exI [of _ 0]) (simp add: ratchet_at_0)
  ultimately show ?thesis by (simp add: new_ratchet_def)
next
  case False
  then show ?thesis by (simp add: new_ratchet_def ratchet_inv_new)
qed

lemma secret_tree_new_inv:
  assumes "h < 30"
  shows "secret_tree_inv P cs cfg s h (secret_tree_new s (full_size h) own)"
    and "st_own_index (secret_tree_new s (full_size h) own) = own"
proof -
  let ?t0 = "\<lparr>st_own_index = own,
        st_leaf_nodes = replicate (2 ^ h) None, st_parent_nodes = replicate (2 ^ h) None,
        handshake_sender_ratchets = replicate (2 ^ h) None,
        application_sender_ratchets = replicate (2 ^ h) None, st_size = full_size h\<rparr> :: secret_tree"
  have shape: "st_shape h ?t0" using assms by (simp add: st_shape_def)
  have none: "st_node ?t0 k m = None" if "in_tree h k m" for k m
    using that parent_index_bound [of h _ m] by (cases k) (auto simp: st_node_def in_tree_def)
  have root: "in_tree h h 0" by (simp add: in_tree_def)
  obtain t where t: "set_node (node_ix h 0) (Some s) ?t0 = (Inr (), t)" "st_shape h t" "same_ratchets ?t0 t"
    and n: "\<And>k m. in_tree h k m \<Longrightarrow> st_node t k m = (if k = h \<and> m = 0 then Some s else st_node ?t0 k m)"
    by (rule set_node_at [OF shape root]) blast
  have new: "secret_tree_new s (full_size h) own = t"
    using t(1) assms by (simp add: secret_tree_new_def root_full)
  have nodes: "st_node t k m = (if k = h then Some (tree_secret P cs s (h - k) m) else None)"
    if "in_tree h k m" for k m
    using n [OF that] none [OF that] that by (auto simp: in_tree_def)
  have ratchets: "i < 2 ^ h \<Longrightarrow> sender_ratchets ty t ! i = None" for i ty
    using t(3) by (cases ty) (simp_all add: same_ratchets_def)
  have "leaf_frontier h t i" if "i < 2 ^ h" for i
    using ratchets [OF that, of HandshakeSecret] nodes in_tree_anc [OF that]
    by (auto simp: leaf_frontier_def intro!: exI [of _ h])
  then show "secret_tree_inv P cs cfg s h (secret_tree_new s (full_size h) own)"
    using t(2) nodes ratchets ratchets [of _ HandshakeSecret] ratchets [of _ ApplicationSecret]
    by (auto simp: secret_tree_inv_def new)
  show "st_own_index (secret_tree_new s (full_size h) own) = own"
    using t(3) by (simp add: new same_ratchets_def)
qed

text \<open>Starting the ratchets of a leaf keeps the invariant.\<close>

lemma initialize_inv:
  assumes kdf: "kdf_ok P cs" and inv: "secret_tree_inv P cs cfg s h t" and i: "i < 2 ^ h"
    and fresh: "sender_ratchets ty t ! i = None"
  obtains t' where "initialize_sender_ratchets P cs i t = (Inr (), t')"
    and "secret_tree_inv P cs cfg s h t'" and "st_own_index t' = st_own_index t"
    and "\<And>ty. sender_ratchets ty t' = (sender_ratchets ty t)
      [i := Some (new_ratchet (i = st_own_index t) (leaf_ratchet_secret P cs s h ty i))]"
proof -
  note inv = secret_tree_invD [OF inv]
  have fresh': "handshake_sender_ratchets t ! i = None" using fresh inv(3) [OF i] by simp
  obtain k where k: "k \<le> h" "st_node t k (anc i k) \<noteq> None"
    and empty: "\<And>j. j \<le> h \<Longrightarrow> j \<noteq> k \<Longrightarrow> st_node t j (anc i j) = None"
    using inv(4) [OF i] fresh' by (auto simp: leaf_frontier_def)
  have at: "st_node t k (anc i k) = Some (tree_secret P cs s (h - k) (anc i k))"
    using k inv(2) [OF in_tree_anc [OF i k(1)]] by auto
  have below: "\<And>j. j < k \<Longrightarrow> st_node t j (anc i j) = None" using empty k(1) by simp
  obtain t' where t': "initialize_sender_ratchets P cs i t = (Inr (), t')" "st_shape h t'"
      "st_own_index t' = st_own_index t"
    and r': "\<And>ty. sender_ratchets ty t' = (sender_ratchets ty t)
      [i := Some (new_ratchet (i = st_own_index t) (leaf_ratchet_secret P cs s h ty i))]"
    and n': "\<And>j m. in_tree h j m \<Longrightarrow> st_node t' j m =
      (if j \<le> k \<and> m = anc i j then None
       else if j < k \<and> m = sib (anc i j) then Some (tree_secret P cs s (h - j) m)
       else st_node t j m)"
    by (rule initialize_at [OF kdf inv(1) i fresh' k(1) at below]) (assumption, rule that)
  have len: "i < length (sender_ratchets ty t)" for ty
    using inv(1) i by (cases ty) (simp_all add: st_shape_def)
  have frontier: "leaf_frontier h t' j" if j: "j < 2 ^ h" for j
  proof (cases "j = i")
    case True
    have "st_node t' l (anc i l) = None" if "l \<le> h" for l
      using n' [OF in_tree_anc [OF i that]] empty [OF that] by auto
    then show ?thesis
      using True r' [of HandshakeSecret] len [of HandshakeSecret] by (simp add: leaf_frontier_def)
  next
    case False
    have hs: "handshake_sender_ratchets t' ! j = handshake_sender_ratchets t ! j"
      using r' [of HandshakeSecret] False by simp
    show ?thesis
    proof (cases "anc j k = anc i k")
      case True
      define l where "l = lca_height i j"
      have l: "0 < l" "l \<le> k" using False True anc_eq_iff [of i k j] lca_height_pos [of i j]
        by (auto simp: l_def)
      have eq: "anc j b = anc i b \<longleftrightarrow> l \<le> b" for b using anc_eq_iff [of i b j] by (auto simp: l_def)
      have sib: "anc j b = sib (anc i b) \<longleftrightarrow> b = l - 1" if "b < l" for b
      proof
        assume "anc j b = sib (anc i b)"
        then have "anc j (Suc b) = anc i (Suc b)" by (rule sib_anc)
        then show "b = l - 1" using eq [of "Suc b"] that by simp
      next
        assume "b = l - 1"
        then have "anc j (Suc b) = anc i (Suc b)" "anc j b \<noteq> anc i b" using eq l(1) by simp_all
        then show "anc j b = sib (anc i b)" using anc_parity [of i b] anc_parity [of j b] by auto
      qed
      have shared: "st_node t k (anc j k) \<noteq> None" using k(2) True by simp
      then have uninit: "handshake_sender_ratchets t ! j = None"
        using inv(4) [OF j] k(1) by (auto simp: leaf_frontier_def split: if_splits)
      then obtain kj where kj: "\<forall>b \<le> h. b \<noteq> kj \<longrightarrow> st_node t b (anc j b) = None"
        using inv(4) [OF j] by (auto simp: leaf_frontier_def)
      then have "kj = k" using kj [rule_format, OF k(1)] shared by (cases "kj = k") auto
      with kj have jk: "\<And>b. b \<le> h \<Longrightarrow> b \<noteq> k \<Longrightarrow> st_node t b (anc j b) = None" by simp
      have "st_node t' b (anc j b) = (if b = l - 1 then Some (tree_secret P cs s (h - b) (anc j b)) else None)"
        if "b \<le> h" for b
        using n' [OF in_tree_anc [OF j that]] jk [OF that] eq [of b] sib [of b] l k(1) by auto
      then show ?thesis
        using uninit hs l k(1) by (auto simp: leaf_frontier_def intro!: exI [of _ "l - 1"])
    next
      case False
      have "st_node t' b (anc j b) = st_node t b (anc j b)" if "b \<le> h" for b
      proof -
        have "anc j b \<noteq> anc i b" if "b \<le> k" using False anc_eq_mono [of j b i k] that by auto
        moreover have "anc j b \<noteq> sib (anc i b)" if "b < k"
          using False anc_eq_mono [of j "Suc b" i k] that sib_anc [of j b i] by auto
        ultimately show ?thesis using n' [OF in_tree_anc [OF j that]] by auto
      qed
      then have "leaf_frontier h t' j \<longleftrightarrow> leaf_frontier h t j"
        by (rule leaf_frontier_cong) (simp_all add: hs)
      then show ?thesis using inv(4) [OF j] by simp
    qed
  qed
  have "secret_tree_inv P cs cfg s h t'"
    unfolding secret_tree_inv_def
  proof (intro conjI allI impI)
    show "st_node t' k m = None \<or> st_node t' k m = Some (tree_secret P cs s (h - k) m)"
      if "in_tree h k m" for k m
      using n' [OF that] inv(2) [OF that] by (auto split: if_splits)
    show "handshake_sender_ratchets t' ! j = None \<longleftrightarrow> application_sender_ratchets t' ! j = None"
      if "j < 2 ^ h" for j
      using r' [of HandshakeSecret] r' [of ApplicationSecret] inv(3) [OF that, of ApplicationSecret]
        len [of HandshakeSecret] len [of ApplicationSecret]
      by (simp add: nth_list_update)
    show "ratchet_ok P cs cfg (leaf_ratchet_secret P cs s h ty j) (j = st_own_index t') r"
      if "j < 2 ^ h" "sender_ratchets ty t' ! j = Some r" for ty j r
      using that inv(5) [OF that(1)] r' [of ty] len [of ty] t'(3)
        new_ratchet_ok [of P cs cfg "leaf_ratchet_secret P cs s h ty i" "i = st_own_index t"]
      by (cases "j = i") auto
  qed (use t' frontier in auto)
  then show ?thesis using that t' r' by blast
qed

section \<open>Requests for keys\<close>

lemma ensure_ratchet_inv:
  assumes "kdf_ok P cs" and inv: "secret_tree_inv P cs cfg s h t" and i: "i < 2 ^ h"
  obtains t' where "ensure_ratchet P cs i ty t = (Inr (), t')"
    and "secret_tree_inv P cs cfg s h t'" and "st_own_index t' = st_own_index t"
    and "\<And>ty. sender_ratchets ty t' = (if sender_ratchets ty t ! i = None then (sender_ratchets ty t)
      [i := Some (new_ratchet (i = st_own_index t) (leaf_ratchet_secret P cs s h ty i))]
      else sender_ratchets ty t)"
proof -
  note shape = secret_tree_invD(1) [OF inv]
  have "i < length (sender_ratchets ty t)" using shape i by (cases ty) (simp_all add: st_shape_def)
  then have opt: "ratchet_opt i ty t = Inr (sender_ratchets ty t ! i)"
    by (simp add: ratchet_opt_def vec_get_def)
  show ?thesis
  proof (cases "sender_ratchets ty t ! i = None")
    case True
    have all: "sender_ratchets ty' t ! i = None" for ty'
      using True secret_tree_invD(3) [OF inv i] by simp
    obtain t' where "initialize_sender_ratchets P cs i t = (Inr (), t')"
      and "secret_tree_inv P cs cfg s h t'" and "st_own_index t' = st_own_index t"
      and "\<And>ty. sender_ratchets ty t' = (sender_ratchets ty t)
        [i := Some (new_ratchet (i = st_own_index t) (leaf_ratchet_secret P cs s h ty i))]"
      by (rule initialize_inv [OF assms(1) inv i True]) (rule that)
    then show ?thesis using that [of t'] opt True all by (simp add: ensure_ratchet_def)
  next
    case False
    have some: "(sender_ratchets ty' t ! i = None) = False" for ty'
      using False secret_tree_invD(3) [OF inv i] by simp
    show ?thesis by (rule that [of t]) (simp_all add: ensure_ratchet_def opt inv some del: not_None_eq)
  qed
qed

lemma put_ratchet_inv:
  assumes inv: "secret_tree_inv P cs cfg s h t" and "i < 2 ^ h" and "sender_ratchets ty t ! i \<noteq> None"
    and "ratchet_ok P cs cfg (leaf_ratchet_secret P cs s h ty i) (i = st_own_index t) r"
  shows "secret_tree_inv P cs cfg s h (put_ratchet i ty r t)"
    and "st_own_index (put_ratchet i ty r t) = st_own_index t"
    and "sender_ratchets ty' (put_ratchet i ty r t)
      = (if ty' = ty then (sender_ratchets ty t)[i := Some r] else sender_ratchets ty' t)"
proof -
  let ?t = "put_ratchet i ty r t"
  note inv = secret_tree_invD [OF inv]
  show own: "st_own_index ?t = st_own_index t" by (cases ty) simp_all
  show rs: "sender_ratchets ty' ?t
      = (if ty' = ty then (sender_ratchets ty t)[i := Some r] else sender_ratchets ty' t)" for ty'
    by (cases ty; cases ty') simp_all
  have node: "st_node ?t k m = st_node t k m" for k m
    by (cases ty; cases k) (simp_all add: st_node_def)
  have shape: "st_shape h ?t" using inv(1) by (cases ty) (simp_all add: st_shape_def)
  have len: "i < length (sender_ratchets ty t)"
    using inv(1) assms(2) by (cases ty) (simp_all add: st_shape_def)
  have none: "sender_ratchets ty' ?t ! j = None \<longleftrightarrow> sender_ratchets ty' t ! j = None" for ty' j
    using rs [of ty'] assms(3) len by (cases "j = i") auto
  show "secret_tree_inv P cs cfg s h ?t"
    unfolding secret_tree_inv_def
  proof (intro conjI allI impI)
    show "st_node ?t k m = None \<or> st_node ?t k m = Some (tree_secret P cs s (h - k) m)"
      if "in_tree h k m" for k m using inv(2) [OF that] node by simp
    show "handshake_sender_ratchets ?t ! j = None \<longleftrightarrow> application_sender_ratchets ?t ! j = None"
      if "j < 2 ^ h" for j
      using none [of HandshakeSecret j] none [of ApplicationSecret j] inv(3) [OF that, of ApplicationSecret]
      by simp
    show "leaf_frontier h ?t j" if "j < 2 ^ h" for j
      using inv(4) [OF that] leaf_frontier_cong [of h ?t j t] node none [of HandshakeSecret j] by simp
    show "ratchet_ok P cs cfg (leaf_ratchet_secret P cs s h ty' j) (j = st_own_index ?t) r'"
      if "j < 2 ^ h" "sender_ratchets ty' ?t ! j = Some r'" for ty' j r'
      using that inv(5) [OF that(1), of ty' r'] assms(4) rs [of ty'] len own
      by (auto simp: nth_list_update split: if_splits)
  qed (rule shape)
qed

text \<open>The keys a member can still ask for.\<close>

definition st_available :: "nat \<Rightarrow> secret_tree \<Rightarrow> (nat \<times> secret_type \<times> 32 word) set" where
  "st_available h t = {(i, ty, gen). i < 2 ^ h \<and> i \<noteq> st_own_index t \<and>
     (case sender_ratchets ty t ! i of
        None \<Rightarrow> True
      | Some (DecryptionRatchet r) \<Rightarrow> gen \<in> ratchet_available r
      | Some (EncryptionRatchet _) \<Rightarrow> False)}"

definition leaf_key ::
  "crypto_provider \<Rightarrow> ciphersuite \<Rightarrow> bytes \<Rightarrow> nat \<Rightarrow> nat \<times> secret_type \<times> 32 word \<Rightarrow> ratchet_key_material" where
  "leaf_key P cs s h = (\<lambda>(i, ty, gen). chain_key P cs (leaf_ratchet_secret P cs s h ty i) (unat gen))"

lemma new_ratchet_available: "gen \<in> ratchet_available (decryption_ratchet_new s)"
  by (simp add: ratchet_available_def window_available_def window_of_def Let_def
      decryption_ratchet_new_def initial_ratchet_secret_def)

lemma ensure_ratchet_available:
  assumes "secret_tree_inv P cs cfg s h t" and i: "i < 2 ^ h" and own: "st_own_index t' = st_own_index t"
    and rs: "\<And>ty. sender_ratchets ty t' = (if sender_ratchets ty t ! i = None then (sender_ratchets ty t)
      [i := Some (new_ratchet (i = st_own_index t) (leaf_ratchet_secret P cs s h ty i))]
      else sender_ratchets ty t)"
  shows "st_available h t' = st_available h t"
proof -
  have len: "i < length (sender_ratchets ty t)" for ty
    using secret_tree_invD(1) [OF assms(1)] i by (cases ty) (simp_all add: st_shape_def)
  have "(j, ty, gen) \<in> st_available h t' \<longleftrightarrow> (j, ty, gen) \<in> st_available h t" for j ty gen
    using rs [of ty] own len [of ty] new_ratchet_available
    by (cases "j = i") (auto simp: st_available_def new_ratchet_def)
  then show ?thesis by auto
qed

definition receiving_ratchet ::
  "crypto_provider \<Rightarrow> ciphersuite \<Rightarrow> bytes \<Rightarrow> nat \<Rightarrow> secret_type \<Rightarrow> nat \<Rightarrow> secret_tree \<Rightarrow> decryption_ratchet" where
  "receiving_ratchet P cs s h ty i t =
     (case sender_ratchets ty t ! i of
        Some (DecryptionRatchet r) \<Rightarrow> r
      | _ \<Rightarrow> decryption_ratchet_new (leaf_ratchet_secret P cs s h ty i))"

lemma secret_for_decryption_cases:
  assumes kdf: "kdf_ok P cs" and inv: "secret_tree_inv P cs cfg s h t"
  obtains (outside) "2 ^ h \<le> i" "secret_for_decryption P cs cfg i ty gen t = (Inl IndexOutOfBounds, t)"
  | (own) t' where "i = st_own_index t" "i < 2 ^ h"
      "secret_for_decryption P cs cfg i ty gen t = (Inl RatchetTypeError, t')"
      "secret_tree_inv P cs cfg s h t'" "st_own_index t' = st_own_index t"
      "st_available h t' = st_available h t"
  | (other) t' r res r' where "i \<noteq> st_own_index t" "i < 2 ^ h"
      "secret_tree_inv P cs cfg s h t'" "st_own_index t' = st_own_index t"
      "st_available h t' = st_available h t"
      "sender_ratchets ty t' ! i = Some (DecryptionRatchet r)"
      "ratchet_secret_for_decryption P cs cfg gen r = (res, r')"
      "secret_for_decryption P cs cfg i ty gen t = (res, put_ratchet i ty (DecryptionRatchet r') t')"
      "ratchet_inv P cs cfg (leaf_ratchet_secret P cs s h ty i) r"
      "r = receiving_ratchet P cs s h ty i t"
proof (cases "i < 2 ^ h")
  case False
  then show ?thesis
    using outside secret_tree_invD(1) [OF inv] by (simp add: secret_for_decryption_def st_shape_def)
next
  case True
  obtain t' where t': "ensure_ratchet P cs i ty t = (Inr (), t')"
      "secret_tree_inv P cs cfg s h t'" "st_own_index t' = st_own_index t"
    and rs: "\<And>ty. sender_ratchets ty t' = (if sender_ratchets ty t ! i = None then (sender_ratchets ty t)
      [i := Some (new_ratchet (i = st_own_index t) (leaf_ratchet_secret P cs s h ty i))]
      else sender_ratchets ty t)"
    by (rule ensure_ratchet_inv [OF kdf inv True]) (rule that)
  note av = ensure_ratchet_available [OF inv True t'(3) rs]
  have len: "i < length (sender_ratchets ty t')" "i < length (sender_ratchets ty t)"
    using secret_tree_invD(1) [OF t'(2)] secret_tree_invD(1) [OF inv] True
    by (cases ty; simp add: st_shape_def)+
  then obtain r where r: "sender_ratchets ty t' ! i = Some r" using rs [of ty] by fastforce
  have ok: "ratchet_ok P cs cfg (leaf_ratchet_secret P cs s h ty i) (i = st_own_index t) r"
    using secret_tree_invD(5) [OF t'(2) True r] t'(3) by simp
  have size: "\<not> leaf_count (st_size t) \<le> i"
    using secret_tree_invD(1) [OF inv] True by (simp add: st_shape_def)
  have mut: "ratchet_mut i ty t' = Inr r" using r len by (simp add: ratchet_mut_def vec_get_def)
  show ?thesis
  proof (cases r)
    case (EncryptionRatchet e)
    then show ?thesis
      using own [of t'] ok True t' av size mut by (simp add: secret_for_decryption_def)
  next
    case (DecryptionRatchet d)
    obtain res d' where d': "ratchet_secret_for_decryption P cs cfg gen d = (res, d')"
      by (cases "ratchet_secret_for_decryption P cs cfg gen d")
    have "d = receiving_ratchet P cs s h ty i t"
      using r rs [of ty] len(2) DecryptionRatchet ok
      by (cases "sender_ratchets ty t ! i") (simp_all add: receiving_ratchet_def new_ratchet_def)
    then show ?thesis
      using other [of t' d res d'] d' ok True t' av size mut r DecryptionRatchet
      by (simp add: secret_for_decryption_def)
  qed
qed

interpretation st: one_time_keys
  "\<lambda>(i, ty, gen). secret_for_decryption P cs cfg i ty gen"
  "\<lambda>t. kdf_ok P cs \<and> secret_tree_inv P cs cfg s h t"
  "st_available h" "leaf_key P cs s h" for P cs cfg s h
proof unfold_locales
  fix t and req :: "nat \<times> secret_type \<times> 32 word"
  assume assm: "kdf_ok P cs \<and> secret_tree_inv P cs cfg s h t"
  obtain i ty gen where req: "req = (i, ty, gen)" by (cases req)
  let ?call = "(case req of (i, ty, gen) \<Rightarrow> secret_for_decryption P cs cfg i ty gen) t"
  have "(kdf_ok P cs \<and> secret_tree_inv P cs cfg s h (snd ?call)) \<and>
    st_available h (snd ?call) \<subseteq> st_available h t \<and>
    (\<forall>k t'. ?call = (Inr k, t') \<longrightarrow>
      k = leaf_key P cs s h req \<and> req \<in> st_available h t \<and> req \<notin> st_available h t')"
  proof (rule secret_for_decryption_cases [OF conjunct1 [OF assm] conjunct2 [OF assm], of i ty gen])
    fix t' r res r'
    assume i: "i \<noteq> st_own_index t" "i < 2 ^ h"
      and t': "secret_tree_inv P cs cfg s h t'" "st_own_index t' = st_own_index t"
      and av: "st_available h t' = st_available h t"
      and r: "sender_ratchets ty t' ! i = Some (DecryptionRatchet r)"
      and call: "ratchet_secret_for_decryption P cs cfg gen r = (res, r')"
      and eq: "secret_for_decryption P cs cfg i ty gen t = (res, put_ratchet i ty (DecryptionRatchet r') t')"
      and inv: "ratchet_inv P cs cfg (leaf_ratchet_secret P cs s h ty i) r"
    let ?s = "leaf_ratchet_secret P cs s h ty i"
    have both: "kdf_ok P cs \<and> ratchet_inv P cs cfg ?s r" using assm inv by simp
    have inv': "ratchet_inv P cs cfg ?s r'"
      using dec.invar_request [OF both, of gen] call by simp
    have shrink: "ratchet_available r' \<subseteq> ratchet_available r"
      using dec.never_restored [OF both, of gen] call by simp
    have ok: "ratchet_ok P cs cfg ?s (i = st_own_index t') (DecryptionRatchet r')"
      using i t'(2) inv' by simp
    have some: "sender_ratchets ty t' ! i \<noteq> None" using r by simp
    note put = put_ratchet_inv [OF t'(1) i(2) some ok]
    have len: "i < length (sender_ratchets ty t')"
      using secret_tree_invD(1) [OF t'(1)] i(2) by (cases ty) (simp_all add: st_shape_def)
    have sub: "st_available h (put_ratchet i ty (DecryptionRatchet r') t') \<subseteq> st_available h t'"
      using shrink r len put(2,3) by (auto simp: st_available_def nth_list_update split: if_splits)
    have grant: "k = leaf_key P cs s h (i, ty, gen) \<and> (i, ty, gen) \<in> st_available h t' \<and>
        (i, ty, gen) \<notin> st_available h (put_ratchet i ty (DecryptionRatchet r') t')" if "res = Inr k" for k
      using dec.granted [OF both, of gen k r'] call that i t'(2) r len put(2,3)
      by (auto simp: leaf_key_def st_available_def)
    show ?thesis using put(1) sub grant eq av assm by (auto simp: req)
  qed (use assm in \<open>auto simp: req\<close>)
  then show "kdf_ok P cs \<and> secret_tree_inv P cs cfg s h (snd ?call)"
    and "st_available h (snd ?call) \<subseteq> st_available h t"
    and "\<And>k t'. ?call = (Inr k, t') \<Longrightarrow>
      k = leaf_key P cs s h req \<and> req \<in> st_available h t \<and> req \<notin> st_available h t'"
    by blast+
qed

text \<open>The owner of a leaf draws the keys of its ratchets in order.\<close>

lemma secret_for_encryption_at:
  assumes kdf: "kdf_ok P cs" and inv: "secret_tree_inv P cs cfg s h t"
    and own: "st_own_index t < 2 ^ h"
    and res: "secret_for_encryption P cs (st_own_index t) ty t = (Inr (gen, km), t')"
  shows "km = leaf_key P cs s h (st_own_index t, ty, gen)" and "secret_tree_inv P cs cfg s h t'"
    and "st_own_index t' = st_own_index t"
proof -
  let ?i = "st_own_index t" and ?s = "leaf_ratchet_secret P cs s h ty (st_own_index t)"
  obtain t1 where t1: "ensure_ratchet P cs ?i ty t = (Inr (), t1)"
      "secret_tree_inv P cs cfg s h t1" "st_own_index t1 = st_own_index t"
    by (rule ensure_ratchet_inv [OF kdf inv own]) blast
  obtain r r' where r: "ratchet_mut ?i ty t1 = Inr (EncryptionRatchet r)"
    and fwd: "ratchet_forward P cs r = Inr ((gen, km), r')"
    and t': "t' = put_ratchet ?i ty (EncryptionRatchet r') t1"
    using res t1(1) by (auto simp: secret_for_encryption_def split: sum.splits sender_ratchet.splits)
  have some: "sender_ratchets ty t1 ! ?i = Some (EncryptionRatchet r)"
    using r by (auto simp: ratchet_mut_def vec_get_def split: if_splits option.splits)
  obtain n where n: "n < 2 ^ 32" "r = ratchet_at P cs ?s n"
    using secret_tree_invD(5) [OF t1(2) own some] by auto
  have "n \<noteq> 2 ^ 32 - 1" using ratchet_forward_end [of P cs ?s] fwd n(2) by auto
  then have n': "n < 2 ^ 32 - 1" using n(1) by simp
  have step: "gen = of_nat n" "km = chain_key P cs ?s n" "r' = ratchet_at P cs ?s (Suc n)"
    using ratchet_forward_at [OF kdf n', of ?s] fwd n(2) by simp_all
  then show "km = leaf_key P cs s h (?i, ty, gen)" using n(1) by (simp add: leaf_key_def unat_of_nat)
  have "\<exists>m < 2 ^ 32. r' = ratchet_at P cs ?s m" using step(3) n' by (intro exI [of _ "Suc n"]) simp
  then have ok: "ratchet_ok P cs cfg ?s (?i = st_own_index t1) (EncryptionRatchet r')"
    using t1(3) by simp
  have "sender_ratchets ty t1 ! ?i \<noteq> None" using some by simp
  note put = put_ratchet_inv [OF t1(2) own this ok]
  show "secret_tree_inv P cs cfg s h t'" and "st_own_index t' = st_own_index t"
    using put(1,2) t1(3) by (simp_all add: t')
qed

text \<open>The first request of the owner succeeds, and so does every one before the ratchet is full.\<close>

lemma secret_for_encryption_returns:
  assumes kdf: "kdf_ok P cs" and inv: "secret_tree_inv P cs cfg s h t"
    and own: "st_own_index t < 2 ^ h"
    and room: "case sender_ratchets ty t ! st_own_index t of
      Some (EncryptionRatchet r) \<Rightarrow> rs_generation r \<noteq> - 1 | _ \<Rightarrow> True"
  shows "\<exists>x t'. secret_for_encryption P cs (st_own_index t) ty t = (Inr x, t')"
proof -
  let ?i = "st_own_index t" and ?s = "leaf_ratchet_secret P cs s h ty (st_own_index t)"
  obtain t1 where t1: "ensure_ratchet P cs ?i ty t = (Inr (), t1)"
      "secret_tree_inv P cs cfg s h t1" "st_own_index t1 = st_own_index t"
    and rs: "\<And>ty. sender_ratchets ty t1 = (if sender_ratchets ty t ! ?i = None then (sender_ratchets ty t)
      [?i := Some (new_ratchet (?i = st_own_index t) (leaf_ratchet_secret P cs s h ty ?i))]
      else sender_ratchets ty t)"
    by (rule ensure_ratchet_inv [OF kdf inv own]) (rule that)
  have len: "?i < length (sender_ratchets ty t1)" "?i < length (sender_ratchets ty t)"
    using secret_tree_invD(1) [OF t1(2)] secret_tree_invD(1) [OF inv] own
    by (cases ty; simp add: st_shape_def)+
  then obtain r where r: "sender_ratchets ty t1 ! ?i = Some r" using rs [of ty] by fastforce
  have "ratchet_ok P cs cfg ?s (?i = st_own_index t1) r"
    by (rule secret_tree_invD(5) [OF t1(2) own r])
  then obtain n where n: "n < 2 ^ 32" "r = EncryptionRatchet (ratchet_at P cs ?s n)"
    using t1(3) by (cases r) auto
  have "n \<noteq> 2 ^ 32 - 1"
  proof (cases "sender_ratchets ty t ! ?i = None")
    case True
    then have "(of_nat n :: 32 word) = 0"
      using rs [of ty] r n len by (simp add: new_ratchet_def initial_ratchet_secret_def ratchet_at_def)
    then show ?thesis using n(1) of_nat_max [of n] by auto
  next
    case False
    then show ?thesis using rs [of ty] r n room of_nat_max [of n] by auto
  qed
  then have "n < 2 ^ 32 - 1" using n(1) by simp
  then show ?thesis
    using ratchet_forward_at [OF kdf, of n ?s] t1(1) r n(2) len
    by (simp add: secret_for_encryption_def ratchet_mut_def vec_get_def)
qed

text \<open>A receiver is granted every key that is available and inside its window.\<close>

lemma secret_for_decryption_returns:
  assumes kdf: "kdf_ok P cs" and inv: "secret_tree_inv P cs cfg s h t"
    and avail: "(i, ty, gen) \<in> st_available h t"
    and window: "in_window cfg (receiving_ratchet P cs s h ty i t) gen"
  shows "fst (secret_for_decryption P cs cfg i ty gen t) = Inr (leaf_key P cs s h (i, ty, gen))"
proof -
  have i: "i < 2 ^ h" "i \<noteq> st_own_index t" using avail by (simp_all add: st_available_def)
  show ?thesis
  proof (rule secret_for_decryption_cases [OF kdf inv, of i ty gen])
    fix t' r res r'
    assume call: "ratchet_secret_for_decryption P cs cfg gen r = (res, r')"
      and t': "st_own_index t' = st_own_index t" "st_available h t' = st_available h t"
      and at: "sender_ratchets ty t' ! i = Some (DecryptionRatchet r)"
      and eq: "secret_for_decryption P cs cfg i ty gen t = (res, put_ratchet i ty (DecryptionRatchet r') t')"
      and rinv: "ratchet_inv P cs cfg (leaf_ratchet_secret P cs s h ty i) r"
      and r: "r = receiving_ratchet P cs s h ty i t"
    have "(i, ty, gen) \<in> st_available h t'" using avail t'(2) by simp
    then have "gen \<in> ratchet_available r" using at by (simp add: st_available_def)
    then have "fst (ratchet_secret_for_decryption P cs cfg gen r)
        = Inr (chain_key P cs (leaf_ratchet_secret P cs s h ty i) (unat gen))"
      using window unfolding r [symmetric] in_window_def
      by (intro decrypt_available [OF kdf rinv]) simp_all
    then show ?thesis using call eq by (simp add: leaf_key_def)
  qed (use i in simp_all)
qed

text \<open>Once a key has been drawn, nothing on the path of its leaf can derive it again.\<close>

lemma drawn_key_deleted:
  assumes kdf: "kdf_ok P cs" and inv: "secret_tree_inv P cs cfg s h t"
    and res: "secret_for_decryption P cs cfg i ty gen t = (Inr km, t')"
  shows "k \<le> h \<Longrightarrow> st_node t' k (anc i k) = None" and "(i, ty, gen) \<notin> st_available h t'"
proof -
  have both: "kdf_ok P cs \<and> secret_tree_inv P cs cfg s h t" using kdf inv by simp
  have call: "(case (i, ty, gen) of (i, ty, gen) \<Rightarrow> secret_for_decryption P cs cfg i ty gen) t = (Inr km, t')"
    using res by simp
  show "(i, ty, gen) \<notin> st_available h t'" using st.granted [OF both call] by simp
  have inv': "secret_tree_inv P cs cfg s h t'" using st.invar_request [OF both, of "(i, ty, gen)"] res by simp
  have "i < 2 ^ h \<and> sender_ratchets ty t' ! i \<noteq> None"
  proof (rule secret_for_decryption_cases [OF kdf inv, of i ty gen])
    fix t1 r res' r'
    assume i: "i < 2 ^ h" and t1: "secret_tree_inv P cs cfg s h t1"
      and eq: "secret_for_decryption P cs cfg i ty gen t = (res', put_ratchet i ty (DecryptionRatchet r') t1)"
    have "i < length (sender_ratchets ty t1)"
      using secret_tree_invD(1) [OF t1] i by (cases ty) (simp_all add: st_shape_def)
    then show ?thesis using i eq res by (cases ty) auto
  qed (use res in simp_all)
  then show "st_node t' k (anc i k) = None" if "k \<le> h"
    using secret_tree_invD(4) [OF inv', of i] secret_tree_invD(3) [OF inv', of i ty] that
    by (auto simp: leaf_frontier_def)
qed

end
