(* ===== verification/Sample_Group.thy ===== *)
theory Sample_Group
  imports Tree_Agreement Secret_Tree
begin

text \<open>
  Concrete instances for the parameters of the model: a crypto provider, an HPKE provider, a path
  deriver and a codec for leaf nodes, and the trees of groups whose members joined one after the
  other. They show that the hypotheses of the theorems can hold.
\<close>

section \<open>Providers\<close>

definition sample_provider :: crypto_provider where
  "sample_provider =
     \<lparr>hkdf_extract_prim = (\<lambda>ht salt ikm. Inr (take (hash_size ht) (ikm @ salt @ replicate (hash_size ht) 0))),
      hkdf_expand_prim = (\<lambda>ht prk info len. Inr (take len (info @ prk @ replicate len 0))),
      aead_encrypt_prim = (\<lambda>ty key msg nonce aad. Inr (msg @ replicate (tag_size ty) 0)),
      aead_decrypt_prim = (\<lambda>ty key ct nonce aad.
        if length ct < tag_size ty then Inl AeadDecryptionError
        else Inr (take (length ct - tag_size ty) ct)),
      hash_prim = (\<lambda>ht payload. Inr (take (hash_size ht) (payload @ replicate (hash_size ht) 0))),
      serialize_kdf_label = (\<lambda>len label context. Some (label @ context)),
      serialize_hash_reference_input = (\<lambda>label value. Some (label @ value))\<rparr>"

abbreviation sample_suite :: ciphersuite where
  "sample_suite \<equiv> MLS_128_DHKEMX25519_AES128GCM_SHA256_Ed25519"

lemma sample_kdf_ok: "kdf_ok sample_provider cs"
  by (auto simp: kdf_ok_def sample_provider_def min_def)

definition sample_hpke :: hpke_provider where
  "sample_hpke =
     \<lparr>hpke_seal = (\<lambda>pk label context m. Some \<lparr>kem_output = pk, ciphertext = m\<rparr>),
      hpke_open = (\<lambda>sk label context c. Some (ciphertext c))\<rparr>"

definition sample_deriver :: path_deriver where
  "sample_deriver =
     \<lparr>derive_path_secret = (\<lambda>s. Inr (s @ [1])),
      derive_key_pair = (\<lambda>s. Inr \<lparr>kp_public_key = s, kp_private_key = s\<rparr>)\<rparr>"

definition sample_codec :: leaf_codec where
  "sample_codec =
     \<lparr>tls_leaf_payload = (\<lambda>p. Some (leaf_encryption_key p @ leaf_signature_key p)),
      tls_tree_position = (\<lambda>p. Some (position_group_id p @ [of_nat (position_leaf_index p)])),
      tls_sign_content = (\<lambda>label content. Some (str_bytes label @ content))\<rparr>"

lemma sample_hpke_sel [simp]:
  "hpke_seal sample_hpke pk label ctx m = Some \<lparr>kem_output = pk, ciphertext = m\<rparr>"
  "hpke_open sample_hpke sk label ctx c = Some (ciphertext c)"
  by (simp_all add: sample_hpke_def)

lemma sample_deriver_sel [simp]:
  "derive_path_secret sample_deriver s = Inr (s @ [1])"
  "derive_key_pair sample_deriver s = Inr \<lparr>kp_public_key = s, kp_private_key = s\<rparr>"
  by (simp_all add: sample_deriver_def)

lemma sample_derive_secrets: "\<exists>ps last. derive_secrets sample_deriver n s = Inr (ps, last)"
proof (induction n arbitrary: s)
  case (Suc n)
  then obtain ps last where "derive_secrets sample_deriver n (s @ [1]) = Inr (ps, last)" by blast
  then show ?case by simp
qed simp

lemma sample_derive_nodes: "\<exists>nodes. derive_nodes sample_deriver xs = Inr nodes"
  by (induction xs) auto

lemma sample_derive_path:
  "\<exists>path plain keypairs cs. derive_path sample_deriver s indices = Inr (path, plain, keypairs, cs)"
proof -
  obtain ps last where "derive_secrets sample_deriver (length indices) s = Inr (ps, last)"
    using sample_derive_secrets by blast
  moreover obtain nodes where "derive_nodes sample_deriver (zip ps indices) = Inr nodes"
    using sample_derive_nodes by blast
  ultimately show ?thesis by (simp add: derive_path_def)
qed

lemma collect_results_total: "(\<And>x. \<exists>y. f x = Inr y) \<Longrightarrow> \<exists>ys. collect_results f xs = Inr ys"
proof (induction xs)
  case (Cons x xs)
  then obtain y ys where "f x = Inr y" "collect_results f xs = Inr ys" by blast
  then show ?case by simp
qed simp

lemma sample_encrypt_path: "\<exists>nodes. encrypt_path sample_hpke plain ctx keys = Inr nodes"
proof -
  have "\<exists>u. plain_node_encrypt sample_hpke node pks ctx = Inr u" for node pks
  proof -
    obtain cs where "collect_results
        (\<lambda>pk. encryption_key_encrypt sample_hpke pk ctx (plain_path_secret node)) pks = Inr cs"
      using collect_results_total
        [of "\<lambda>pk. encryption_key_encrypt sample_hpke pk ctx (plain_path_secret node)" pks]
      by (auto simp: encryption_key_encrypt_def)
    then show ?thesis by (simp add: plain_node_encrypt_def)
  qed
  then show ?thesis unfolding encrypt_path_def by (intro collect_results_total) auto
qed

section \<open>Groups\<close>

definition sample_payload :: "nat \<Rightarrow> leaf_node_payload" where
  "sample_payload n =
     \<lparr>leaf_encryption_key = [of_nat n], leaf_signature_key = [of_nat n],
      leaf_credential = \<lparr>cred_type = Basic, serialized_content = [of_nat n]\<rparr>,
      leaf_capabilities =
        \<lparr>cap_versions = [Mls10], cap_ciphersuites = [1], cap_extensions = [], cap_proposals = [],
         cap_credentials = [Basic]\<rparr>,
      leaf_source = SourceUpdate, leaf_extensions = []\<rparr>"

definition sample_leaf :: "nat \<Rightarrow> leaf_node" where
  "sample_leaf n = \<lparr>leaf_payload = sample_payload n, leaf_signature = []\<rparr>"

definition sample_keys :: "nat \<Rightarrow> encryption_key_pair list" where
  "sample_keys n = [\<lparr>kp_public_key = [of_nat n], kp_private_key = [of_nat n]\<rparr>]"

fun sample_diff :: "nat \<Rightarrow> tree_sync_diff" where
  "sample_diff 0 = one_member_diff (sample_leaf 0)"
| "sample_diff (Suc n) =
     (case add_leaf (sample_leaf (Suc n)) (sample_diff n) of Inr (_, d) \<Rightarrow> d | Inl _ \<Rightarrow> sample_diff n)"

lemma sample_diff_step:
  assumes "members_inv (sample_diff n)" and "parents_inv (sample_diff n)"
    and "members (sample_diff n) = (\<lambda>i. if i \<le> n then Some (sample_leaf i) else None)"
    and "\<And>k m. ab_parent (tsd_diff (sample_diff n)) (node_at k m) = None" and "Suc n < 2 ^ 29"
  shows "add_leaf (sample_leaf (Suc n)) (sample_diff n) = Inr (Suc n, sample_diff (Suc n))"
    and "members_inv (sample_diff (Suc n))" and "parents_inv (sample_diff (Suc n))"
    and "members (sample_diff (Suc n)) = (\<lambda>i. if i \<le> Suc n then Some (sample_leaf i) else None)"
    and "ab_parent (tsd_diff (sample_diff (Suc n))) (node_at k m) = None"
proof -
  have free: "free_leaf_index (sample_diff n) = Suc n"
    unfolding free_leaf_index_least(1) [OF assms(1)] assms(3)
    by (rule Least_equality) (auto split: if_splits)
  have "free_leaf_index (sample_diff n) < 2 ^ 29" using free assms(5) by simp
  then obtain d' where d': "add_leaf (sample_leaf (Suc n)) (sample_diff n) = Inr (Suc n, d')"
    "members_inv d'" "parents_inv d'" "members d' = (members (sample_diff n))(Suc n \<mapsto> sample_leaf (Suc n))"
    and par: "\<And>k m. ab_parent (tsd_diff d') (node_at k m) = None"
    by (rule add_leaf_spec [OF assms(1,2), of "sample_leaf (Suc n)"]) (simp add: free assms(4))
  have "sample_diff (Suc n) = d'" using d'(1) by simp
  then show "add_leaf (sample_leaf (Suc n)) (sample_diff n) = Inr (Suc n, sample_diff (Suc n))"
    and "members_inv (sample_diff (Suc n))" and "parents_inv (sample_diff (Suc n))"
    and "members (sample_diff (Suc n)) = (\<lambda>i. if i \<le> Suc n then Some (sample_leaf i) else None)"
    and "ab_parent (tsd_diff (sample_diff (Suc n))) (node_at k m) = None"
    using d' par assms(3) by (auto simp: le_Suc_eq simp del: sample_diff.simps)
qed

lemma sample_diff_inv:
  assumes "n < 2 ^ 29"
  shows "members_inv (sample_diff n) \<and> parents_inv (sample_diff n) \<and>
    members (sample_diff n) = (\<lambda>i. if i \<le> n then Some (sample_leaf i) else None) \<and>
    (\<forall>k m. ab_parent (tsd_diff (sample_diff n)) (node_at k m) = None)"
  using assms
proof (induction n)
  case 0
  have "ab_parent (tsd_diff (one_member_diff (sample_leaf 0))) p = None" for p
    by (simp add: ab_parent_from_tree abt_parent_by_index_def vec_get_def one_member_diff_def
        one_member_tree_def)
  then show ?case
    using one_member_inv [of "sample_leaf 0"] by (auto simp: members_one)
next
  case (Suc n)
  then show ?case using sample_diff_step [of n] by (simp del: sample_diff.simps)
qed

declare sample_diff.simps [simp del]

lemmas sample_diff_facts =
  conjunct1 [OF sample_diff_inv] conjunct1 [OF conjunct2 [OF sample_diff_inv]]
  conjunct1 [OF conjunct2 [OF conjunct2 [OF sample_diff_inv]]]
  spec [OF spec [OF conjunct2 [OF conjunct2 [OF conjunct2 [OF sample_diff_inv]]]]]

lemma sample_diff_add:
  "Suc n < 2 ^ 29 \<Longrightarrow> add_leaf (sample_leaf (Suc n)) (sample_diff n) = Inr (Suc n, sample_diff (Suc n))"
  by (rule sample_diff_step(1)) (simp_all add: sample_diff_facts)

lemma sample_holds_keys:
  assumes "n < 2 ^ 29" and "j \<le> n"
  shows "holds_keys (sample_diff n) j (sample_keys j)"
  using assms
  by (simp add: holds_keys_def sample_diff_facts sample_keys_def sample_leaf_def sample_payload_def)

end
