(* ===== verification/Group_Context.thy ===== *)
theory Group_Context
  imports Leaf_Node
begin

text \<open>
  The group context (\<open>group/group_context.rs\<close>) and epochs (\<open>group/mod.rs\<close>): the state all members
  agree on. Epochs are 64-bit words.
\<close>

type_synonym group_id = bytes

type_synonym group_epoch = "64 word"

definition epoch_increment :: "group_epoch \<Rightarrow> group_epoch" where
  "epoch_increment e = e + 1"

record group_context =
  gc_protocol_version :: protocol_version
  gc_ciphersuite :: ciphersuite
  gc_group_id :: group_id
  gc_epoch :: group_epoch
  gc_tree_hash :: bytes
  gc_confirmed_transcript_hash :: bytes
  gc_extensions :: extensions

definition group_context_new ::
  "ciphersuite \<Rightarrow> group_id \<Rightarrow> group_epoch \<Rightarrow> bytes \<Rightarrow> bytes \<Rightarrow> extensions \<Rightarrow> group_context" where
  "group_context_new cs gid ep tree_hash confirmed_transcript_hash exts =
     \<lparr>gc_protocol_version = Mls10, gc_ciphersuite = cs, gc_group_id = gid, gc_epoch = ep,
      gc_tree_hash = tree_hash, gc_confirmed_transcript_hash = confirmed_transcript_hash,
      gc_extensions = exts\<rparr>"

definition create_initial_group_context ::
  "ciphersuite \<Rightarrow> group_id \<Rightarrow> bytes \<Rightarrow> extensions \<Rightarrow> group_context" where
  "create_initial_group_context cs gid tree_hash exts = group_context_new cs gid 0 tree_hash [] exts"

definition increment_epoch :: "group_context \<Rightarrow> group_context" where
  "increment_epoch gc = gc\<lparr>gc_epoch := epoch_increment (gc_epoch gc)\<rparr>"

definition update_tree_hash :: "bytes \<Rightarrow> group_context \<Rightarrow> group_context" where
  "update_tree_hash new_tree_hash gc = gc\<lparr>gc_tree_hash := new_tree_hash\<rparr>"

definition set_extensions :: "extensions \<Rightarrow> group_context \<Rightarrow> group_context" where
  "set_extensions exts gc = gc\<lparr>gc_extensions := exts\<rparr>"

end
