(* ===== verification/Key_Schedule.thy ===== *)
theory Key_Schedule
  imports Group_Context Secret_Tree
begin

text \<open>
  The key schedule (\<open>schedule/mod.rs\<close>, \<open>schedule/errors.rs\<close>, \<open>schedule/message_secrets.rs\<close>): the
  joiner secret, the state machine that turns it into a welcome secret and the secrets of an
  epoch, and what is derived from those. The structs around a single secret are byte strings
  here. HPKE with export is an argument.
\<close>

section \<open>Errors and providers\<close>

datatype error_state = ErrorStateInit | ErrorStateContext

datatype key_schedule_error =
    KsLibraryError library_error
  | InvalidState error_state
  | KsCryptoError crypto_error

text \<open>A nonce is built by a function that panics unless its input has the length of a nonce.\<close>

datatype derive_error = DeriveCryptoError crypto_error | DerivePanic

record hpke_export_provider =
  hpke_setup_sender_and_export ::
    "hpke_kem_type \<times> hpke_kdf_type \<times> hpke_aead_type \<Rightarrow> bytes \<Rightarrow> bytes \<Rightarrow> bytes \<Rightarrow> nat \<Rightarrow>
     crypto_error + bytes \<times> bytes"
  hpke_setup_receiver_and_export ::
    "hpke_kem_type \<times> hpke_kdf_type \<times> hpke_aead_type \<Rightarrow> bytes \<Rightarrow> bytes \<Rightarrow> bytes \<Rightarrow> bytes \<Rightarrow> nat \<Rightarrow>
     crypto_error + bytes"
  derive_hpke_keypair ::
    "hpke_kem_type \<times> hpke_kdf_type \<times> hpke_aead_type \<Rightarrow> bytes \<Rightarrow> crypto_error + encryption_key_pair"

section \<open>Secrets derived from the epoch secret\<close>

definition resumption_psk_secret_new :: "crypto_provider \<Rightarrow> ciphersuite \<Rightarrow> bytes \<Rightarrow> crypto_error + bytes" where
  "resumption_psk_secret_new P cs epoch_secret = derive_secret P cs epoch_secret ''resumption''"

definition epoch_authenticator_new :: "crypto_provider \<Rightarrow> ciphersuite \<Rightarrow> bytes \<Rightarrow> crypto_error + bytes" where
  "epoch_authenticator_new P cs epoch_secret = derive_secret P cs epoch_secret ''authentication''"

definition commit_secret_zero :: "ciphersuite \<Rightarrow> bytes" where
  "commit_secret_zero cs = secret_zero cs"

fun hpke_info_from_version :: "protocol_version \<Rightarrow> string" where
  "hpke_info_from_version Mls10 = ''MLS 1.0 external init secret''"
| "hpke_info_from_version _ = ''<OpenMLS reserved; Don't use this.>''"

definition init_secret_new :: "crypto_provider \<Rightarrow> ciphersuite \<Rightarrow> bytes \<Rightarrow> crypto_error + bytes" where
  "init_secret_new P cs epoch_secret = derive_secret P cs epoch_secret ''init''"

definition init_secret_from_group_context ::
  "hpke_export_provider \<Rightarrow> group_context \<Rightarrow> bytes \<Rightarrow> key_schedule_error + bytes \<times> bytes" where
  "init_secret_from_group_context X gc external_pub =
     (let cs = gc_ciphersuite gc; version = gc_protocol_version gc in
      try_bind (map_err KsCryptoError
        (hpke_setup_sender_and_export X (hpke_config cs) external_pub []
           (str_bytes (hpke_info_from_version version)) (hash_length cs)))
        (\<lambda>(kem_output, raw_init_secret). Inr (raw_init_secret, kem_output)))"

definition init_secret_from_kem_output ::
  "hpke_export_provider \<Rightarrow> ciphersuite \<Rightarrow> protocol_version \<Rightarrow> bytes \<Rightarrow> bytes \<Rightarrow> library_error + bytes" where
  "init_secret_from_kem_output X cs version external_priv kem_output =
     map_err (\<lambda>_. UnexpectedCryptoError)
       (hpke_setup_receiver_and_export X (hpke_config cs) kem_output external_priv []
          (str_bytes (hpke_info_from_version version)) (hash_length cs))"

definition joiner_secret_new ::
  "crypto_provider \<Rightarrow> ciphersuite \<Rightarrow> bytes option \<Rightarrow> bytes \<Rightarrow> bytes \<Rightarrow> crypto_error + bytes" where
  "joiner_secret_new P cs commit_secret_option init_secret serialized_group_context =
     try_bind (hkdf_extract P cs init_secret commit_secret_option) (\<lambda>intermediate_secret.
       kdf_expand_label P cs intermediate_secret ''joiner'' serialized_group_context (hash_length cs))"

definition intermediate_secret_new ::
  "crypto_provider \<Rightarrow> ciphersuite \<Rightarrow> bytes \<Rightarrow> bytes \<Rightarrow> crypto_error + bytes" where
  "intermediate_secret_new P cs joiner_secret psk = hkdf_extract P cs joiner_secret (Some psk)"

definition welcome_secret_new :: "crypto_provider \<Rightarrow> ciphersuite \<Rightarrow> bytes \<Rightarrow> crypto_error + bytes" where
  "welcome_secret_new P cs intermediate_secret = derive_secret P cs intermediate_secret ''welcome''"

definition derive_nonce ::
  "crypto_provider \<Rightarrow> ciphersuite \<Rightarrow> bytes \<Rightarrow> bytes \<Rightarrow> derive_error + bytes" where
  "derive_nonce P cs secret context =
     try_bind (map_err DeriveCryptoError
       (kdf_expand_label P cs secret ''nonce'' context (aead_nonce_length cs)))
       (\<lambda>nonce_secret. case nonce_from_secret nonce_secret of None \<Rightarrow> Inl DerivePanic | Some n \<Rightarrow> Inr n)"

definition derive_key ::
  "crypto_provider \<Rightarrow> ciphersuite \<Rightarrow> bytes \<Rightarrow> bytes \<Rightarrow> derive_error + aead_key" where
  "derive_key P cs secret context =
     try_bind (map_err DeriveCryptoError
       (kdf_expand_label P cs secret ''key'' context (aead_key_length cs)))
       (\<lambda>aead_secret. Inr (aead_key_from_secret cs aead_secret))"

definition derive_welcome_key_nonce ::
  "crypto_provider \<Rightarrow> ciphersuite \<Rightarrow> bytes \<Rightarrow> derive_error + aead_key \<times> bytes" where
  "derive_welcome_key_nonce P cs welcome_secret =
     try_bind (derive_nonce P cs welcome_secret []) (\<lambda>welcome_nonce.
     try_bind (derive_key P cs welcome_secret []) (\<lambda>welcome_key.
       Inr (welcome_key, welcome_nonce)))"

definition epoch_secret_new ::
  "ciphersuite \<Rightarrow> crypto_provider \<Rightarrow> bytes \<Rightarrow> bytes \<Rightarrow> crypto_error + bytes" where
  "epoch_secret_new cs P intermediate_secret serialized_group_context =
     kdf_expand_label P cs intermediate_secret ''epoch'' serialized_group_context (hash_length cs)"

definition encryption_secret_new :: "crypto_provider \<Rightarrow> ciphersuite \<Rightarrow> bytes \<Rightarrow> crypto_error + bytes" where
  "encryption_secret_new P cs epoch_secret = derive_secret P cs epoch_secret ''encryption''"

definition create_secret_tree :: "bytes \<Rightarrow> nat \<Rightarrow> nat \<Rightarrow> secret_tree" where
  "create_secret_tree encryption_secret treesize own_index =
     secret_tree_new encryption_secret treesize own_index"

definition exporter_secret_new :: "crypto_provider \<Rightarrow> ciphersuite \<Rightarrow> bytes \<Rightarrow> crypto_error + bytes" where
  "exporter_secret_new P cs epoch_secret = derive_secret P cs epoch_secret ''exporter''"

definition derive_exported_secret ::
  "ciphersuite \<Rightarrow> crypto_provider \<Rightarrow> bytes \<Rightarrow> string \<Rightarrow> bytes \<Rightarrow> nat \<Rightarrow> crypto_error + bytes" where
  "derive_exported_secret cs P exporter_secret label context key_length =
     try_bind (hash_prim P (hash_algorithm cs) context) (\<lambda>context_hash.
     try_bind (derive_secret P cs exporter_secret label) (\<lambda>secret.
       kdf_expand_label P cs secret ''exported'' context_hash key_length))"

definition external_secret_new :: "crypto_provider \<Rightarrow> ciphersuite \<Rightarrow> bytes \<Rightarrow> crypto_error + bytes" where
  "external_secret_new P cs epoch_secret = derive_secret P cs epoch_secret ''external''"

definition derive_external_keypair ::
  "hpke_export_provider \<Rightarrow> ciphersuite \<Rightarrow> bytes \<Rightarrow> crypto_error + encryption_key_pair" where
  "derive_external_keypair X cs external_secret = derive_hpke_keypair X (hpke_config cs) external_secret"

definition confirmation_key_new :: "crypto_provider \<Rightarrow> ciphersuite \<Rightarrow> bytes \<Rightarrow> crypto_error + bytes" where
  "confirmation_key_new P cs epoch_secret = derive_secret P cs epoch_secret ''confirm''"

definition confirmation_key_tag ::
  "crypto_provider \<Rightarrow> ciphersuite \<Rightarrow> bytes \<Rightarrow> bytes \<Rightarrow> crypto_error + bytes" where
  "confirmation_key_tag P cs confirmation_key confirmed_transcript_hash =
     mac_new P cs confirmation_key confirmed_transcript_hash"

definition membership_key_new :: "crypto_provider \<Rightarrow> ciphersuite \<Rightarrow> bytes \<Rightarrow> crypto_error + bytes" where
  "membership_key_new P cs epoch_secret = derive_secret P cs epoch_secret ''membership''"

text \<open>The payload is the encoding of the content to be authenticated, if there is one.\<close>

definition membership_key_tag_message ::
  "crypto_provider \<Rightarrow> ciphersuite \<Rightarrow> bytes \<Rightarrow> bytes option \<Rightarrow> library_error + bytes" where
  "membership_key_tag_message P cs membership_key tbm_payload =
     (case tbm_payload of
        None \<Rightarrow> Inl MissingBoundCheck
      | Some payload \<Rightarrow> map_err (\<lambda>_. UnexpectedCryptoError) (mac_new P cs membership_key payload))"

definition ciphertext_sample :: "ciphersuite \<Rightarrow> bytes \<Rightarrow> bytes" where
  "ciphertext_sample cs ct =
     (if length ct \<le> hash_length cs then ct else take (hash_length cs) ct)"

definition sender_data_secret_new :: "crypto_provider \<Rightarrow> ciphersuite \<Rightarrow> bytes \<Rightarrow> crypto_error + bytes" where
  "sender_data_secret_new P cs epoch_secret = derive_secret P cs epoch_secret ''sender data''"

definition sender_data_aead_key ::
  "crypto_provider \<Rightarrow> ciphersuite \<Rightarrow> bytes \<Rightarrow> bytes \<Rightarrow> derive_error + aead_key" where
  "sender_data_aead_key P cs sender_data_secret ct =
     derive_key P cs sender_data_secret (ciphertext_sample cs ct)"

definition sender_data_aead_nonce ::
  "crypto_provider \<Rightarrow> ciphersuite \<Rightarrow> bytes \<Rightarrow> bytes \<Rightarrow> derive_error + bytes" where
  "sender_data_aead_nonce P cs sender_data_secret ct =
     derive_nonce P cs sender_data_secret (ciphertext_sample cs ct)"

section \<open>The secrets of an epoch\<close>

record epoch_secrets =
  es_init_secret :: bytes
  es_sender_data_secret :: bytes
  es_encryption_secret :: bytes
  es_exporter_secret :: bytes
  es_epoch_authenticator :: bytes
  es_external_secret :: bytes
  es_confirmation_key :: bytes
  es_membership_key :: bytes
  es_resumption_psk :: bytes

definition epoch_secrets_new :: "crypto_provider \<Rightarrow> ciphersuite \<Rightarrow> bytes \<Rightarrow> crypto_error + epoch_secrets" where
  "epoch_secrets_new P cs epoch_secret =
     try_bind (sender_data_secret_new P cs epoch_secret) (\<lambda>sender_data_secret.
     try_bind (encryption_secret_new P cs epoch_secret) (\<lambda>encryption_secret.
     try_bind (exporter_secret_new P cs epoch_secret) (\<lambda>exporter_secret.
     try_bind (epoch_authenticator_new P cs epoch_secret) (\<lambda>epoch_authenticator.
     try_bind (external_secret_new P cs epoch_secret) (\<lambda>external_secret.
     try_bind (confirmation_key_new P cs epoch_secret) (\<lambda>confirmation_key.
     try_bind (membership_key_new P cs epoch_secret) (\<lambda>membership_key.
     try_bind (resumption_psk_secret_new P cs epoch_secret) (\<lambda>resumption_psk.
     try_bind (init_secret_new P cs epoch_secret) (\<lambda>init_secret.
       Inr \<lparr>es_init_secret = init_secret, es_sender_data_secret = sender_data_secret,
            es_encryption_secret = encryption_secret, es_exporter_secret = exporter_secret,
            es_epoch_authenticator = epoch_authenticator, es_external_secret = external_secret,
            es_confirmation_key = confirmation_key, es_membership_key = membership_key,
            es_resumption_psk = resumption_psk\<rparr>)))))))))"

definition epoch_secrets_with_init_secret ::
  "crypto_provider \<Rightarrow> ciphersuite \<Rightarrow> bytes \<Rightarrow> crypto_error + epoch_secrets" where
  "epoch_secrets_with_init_secret P cs init_secret =
     try_bind (epoch_secrets_new P cs (secret_zero cs)) (\<lambda>es. Inr (es\<lparr>es_init_secret := init_secret\<rparr>))"

record group_epoch_secrets =
  ges_init_secret :: bytes
  ges_exporter_secret :: bytes
  ges_epoch_authenticator :: bytes
  ges_external_secret :: bytes
  ges_resumption_psk :: bytes

record message_secrets =
  ms_sender_data_secret :: bytes
  ms_membership_key :: bytes
  ms_confirmation_key :: bytes
  ms_serialized_context :: bytes
  ms_secret_tree :: secret_tree

definition message_secrets_new ::
  "bytes \<Rightarrow> bytes \<Rightarrow> bytes \<Rightarrow> bytes \<Rightarrow> secret_tree \<Rightarrow> message_secrets" where
  "message_secrets_new sender_data_secret membership_key confirmation_key serialized_context tree =
     \<lparr>ms_sender_data_secret = sender_data_secret, ms_membership_key = membership_key,
      ms_confirmation_key = confirmation_key, ms_serialized_context = serialized_context,
      ms_secret_tree = tree\<rparr>"

definition split_secrets ::
  "bytes \<Rightarrow> nat \<Rightarrow> nat \<Rightarrow> epoch_secrets \<Rightarrow> group_epoch_secrets \<times> message_secrets" where
  "split_secrets serialized_context treesize own_index es =
     (let tree = create_secret_tree (es_encryption_secret es) treesize own_index in
      (\<lparr>ges_init_secret = es_init_secret es, ges_exporter_secret = es_exporter_secret es,
        ges_epoch_authenticator = es_epoch_authenticator es,
        ges_external_secret = es_external_secret es, ges_resumption_psk = es_resumption_psk es\<rparr>,
       message_secrets_new (es_sender_data_secret es) (es_membership_key es)
         (es_confirmation_key es) serialized_context tree))"

section \<open>The state machine\<close>

datatype schedule_state = ScheduleInitial | ScheduleContext | ScheduleDone

record key_schedule =
  ks_ciphersuite :: ciphersuite
  ks_intermediate_secret :: "bytes option"
  ks_epoch_secret :: "bytes option"
  ks_state :: schedule_state

definition key_schedule_init ::
  "ciphersuite \<Rightarrow> crypto_provider \<Rightarrow> bytes \<Rightarrow> bytes \<Rightarrow> library_error + key_schedule" where
  "key_schedule_init cs P joiner_secret psk =
     try_bind (map_err (\<lambda>_. UnexpectedCryptoError) (intermediate_secret_new P cs joiner_secret psk))
       (\<lambda>intermediate_secret.
          Inr \<lparr>ks_ciphersuite = cs, ks_intermediate_secret = Some intermediate_secret,
               ks_epoch_secret = None, ks_state = ScheduleInitial\<rparr>)"

definition key_schedule_welcome ::
  "crypto_provider \<Rightarrow> ciphersuite \<Rightarrow> key_schedule \<Rightarrow> key_schedule_error + bytes" where
  "key_schedule_welcome P cs ks =
     (if ks_state ks \<noteq> ScheduleInitial \<or> ks_intermediate_secret ks = None
      then Inl (InvalidState ErrorStateInit)
      else case ks_intermediate_secret ks of
             None \<Rightarrow> Inl (KsLibraryError (CustomError ''state machine error''))
           | Some intermediate_secret \<Rightarrow>
               map_err KsCryptoError (welcome_secret_new P cs intermediate_secret))"

definition key_schedule_add_context ::
  "crypto_provider \<Rightarrow> bytes \<Rightarrow> key_schedule \<Rightarrow> (key_schedule_error + unit) \<times> key_schedule" where
  "key_schedule_add_context P serialized_group_context ks =
     (if ks_state ks \<noteq> ScheduleInitial \<or> ks_intermediate_secret ks = None
      then (Inl (InvalidState ErrorStateInit), ks)
      else
        let ks = ks\<lparr>ks_state := ScheduleContext\<rparr> in
        case ks_intermediate_secret ks of
          None \<Rightarrow> (Inl (KsLibraryError (CustomError ''state machine error'')), ks)
        | Some intermediate_secret \<Rightarrow>
            let ks = ks\<lparr>ks_intermediate_secret := None\<rparr> in
            (case epoch_secret_new (ks_ciphersuite ks) P intermediate_secret serialized_group_context of
               Inl e \<Rightarrow> (Inl (KsCryptoError e), ks)
             | Inr epoch_secret \<Rightarrow>
                 (Inr (), ks\<lparr>ks_epoch_secret := Some epoch_secret, ks_intermediate_secret := None\<rparr>)))"

definition key_schedule_epoch_secrets ::
  "crypto_provider \<Rightarrow> ciphersuite \<Rightarrow> key_schedule \<Rightarrow> (key_schedule_error + epoch_secrets) \<times> key_schedule" where
  "key_schedule_epoch_secrets P cs ks =
     (if ks_state ks \<noteq> ScheduleContext \<or> ks_epoch_secret ks = None
      then (Inl (InvalidState ErrorStateContext), ks)
      else
        let ks = ks\<lparr>ks_state := ScheduleDone\<rparr> in
        case ks_epoch_secret ks of
          None \<Rightarrow> (Inl (KsLibraryError (CustomError ''state machine error'')), ks)
        | Some epoch_secret \<Rightarrow>
            (map_err KsCryptoError (epoch_secrets_new P cs epoch_secret),
             ks\<lparr>ks_epoch_secret := None\<rparr>))"

section \<open>What the derivation gives\<close>

text \<open>
  What the schedule relies on of the provider beside \<^const>\<open>kdf_ok\<close>: extraction gives a secret of
  the length of the hash.
\<close>

definition extract_ok :: "crypto_provider \<Rightarrow> ciphersuite \<Rightarrow> bool" where
  "extract_ok P cs \<longleftrightarrow>
     (\<forall>salt ikm. \<exists>prk. hkdf_extract_prim P (hash_algorithm cs) salt ikm = Inr prk \<and>
        length prk = hash_length cs)"

definition extracted :: "crypto_provider \<Rightarrow> ciphersuite \<Rightarrow> bytes \<Rightarrow> bytes \<Rightarrow> bytes" where
  "extracted P cs salt ikm =
     (case hkdf_extract_prim P (hash_algorithm cs) salt ikm of Inr prk \<Rightarrow> prk | Inl _ \<Rightarrow> [])"

lemma hkdf_extract_ok:
  "extract_ok P cs \<Longrightarrow> hkdf_extract P cs salt ikm =
     Inr (extracted P cs salt (case ikm of Some x \<Rightarrow> x | None \<Rightarrow> secret_zero cs))"
  unfolding extract_ok_def hkdf_extract_def extracted_def
  by (metis sum.simps(6))

text \<open>The derivations of the protocol, as values.\<close>

definition derived :: "crypto_provider \<Rightarrow> ciphersuite \<Rightarrow> bytes \<Rightarrow> string \<Rightarrow> bytes" where
  "derived P cs secret label = expand P cs secret label [] (hash_length cs)"

definition joiner_of :: "crypto_provider \<Rightarrow> ciphersuite \<Rightarrow> bytes \<Rightarrow> bytes \<Rightarrow> bytes \<Rightarrow> bytes" where
  "joiner_of P cs init commit ctx = expand P cs (extracted P cs init commit) ''joiner'' ctx (hash_length cs)"

definition epoch_of :: "crypto_provider \<Rightarrow> ciphersuite \<Rightarrow> bytes \<Rightarrow> bytes \<Rightarrow> bytes \<Rightarrow> bytes" where
  "epoch_of P cs joiner psk ctx = expand P cs (extracted P cs joiner psk) ''epoch'' ctx (hash_length cs)"

definition secrets_of :: "crypto_provider \<Rightarrow> ciphersuite \<Rightarrow> bytes \<Rightarrow> epoch_secrets" where
  "secrets_of P cs epoch_secret =
     \<lparr>es_init_secret = derived P cs epoch_secret ''init'',
      es_sender_data_secret = derived P cs epoch_secret ''sender data'',
      es_encryption_secret = derived P cs epoch_secret ''encryption'',
      es_exporter_secret = derived P cs epoch_secret ''exporter'',
      es_epoch_authenticator = derived P cs epoch_secret ''authentication'',
      es_external_secret = derived P cs epoch_secret ''external'',
      es_confirmation_key = derived P cs epoch_secret ''confirm'',
      es_membership_key = derived P cs epoch_secret ''membership'',
      es_resumption_psk = derived P cs epoch_secret ''resumption''\<rparr>"

lemma derive_secret_ok:
  "kdf_ok P cs \<Longrightarrow> length label < 2 ^ 10 \<Longrightarrow> derive_secret P cs secret label = Inr (derived P cs secret label)"
  unfolding derive_secret_def derived_def
  by (rule kdf_expand_label_ok) (simp_all add: ciphersuite_lengths)

lemma derived_length:
  "kdf_ok P cs \<Longrightarrow> length label < 2 ^ 10 \<Longrightarrow> length (derived P cs secret label) = hash_length cs"
  unfolding derived_def
  by (rule kdf_expand_label_ok) (simp_all add: ciphersuite_lengths)

lemma joiner_secret_new_ok:
  assumes "kdf_ok P cs" and "extract_ok P cs" and "length ctx < 2 ^ 30"
  shows "joiner_secret_new P cs commit init ctx =
    Inr (joiner_of P cs init (case commit of Some c \<Rightarrow> c | None \<Rightarrow> secret_zero cs) ctx)"
  using assms kdf_expand_label_ok(1) [OF assms(1), of "hash_length cs" "''joiner''" ctx]
  by (simp add: joiner_secret_new_def hkdf_extract_ok joiner_of_def ciphersuite_lengths)

lemma epoch_secrets_new_ok:
  "kdf_ok P cs \<Longrightarrow> epoch_secrets_new P cs epoch_secret = Inr (secrets_of P cs epoch_secret)"
  by (simp add: epoch_secrets_new_def secrets_of_def derive_secret_ok sender_data_secret_new_def
      encryption_secret_new_def exporter_secret_new_def epoch_authenticator_new_def
      external_secret_new_def confirmation_key_new_def membership_key_new_def
      resumption_psk_secret_new_def init_secret_new_def)

lemma derive_key_nonce_ok:
  assumes "kdf_ok P cs" and "length ctx < 2 ^ 30"
  shows "derive_key P cs secret ctx =
      Inr (aead_key_from_secret cs (expand P cs secret ''key'' ctx (aead_key_length cs)))"
    and "derive_nonce P cs secret ctx = Inr (expand P cs secret ''nonce'' ctx (aead_nonce_length cs))"
    and "length (expand P cs secret ''nonce'' ctx (aead_nonce_length cs)) = nonce_bytes"
proof -
  have len: "aead_key_length cs \<le> 64" "aead_nonce_length cs \<le> 64" "0 < aead_nonce_length cs"
    using ciphersuite_lengths(3,5) [of cs] by (simp_all add: nonce_bytes_def)
  note key = kdf_expand_label_ok [OF assms(1) ciphersuite_lengths(4) len(1), of "''key''" ctx secret]
  note nonce = kdf_expand_label_ok [OF assms(1) len(3,2), of "''nonce''" ctx secret]
  show "derive_key P cs secret ctx =
      Inr (aead_key_from_secret cs (expand P cs secret ''key'' ctx (aead_key_length cs)))"
    using key(1) assms(2) by (simp add: derive_key_def)
  show n: "length (expand P cs secret ''nonce'' ctx (aead_nonce_length cs)) = nonce_bytes"
    using nonce(2) assms(2) by (simp add: ciphersuite_lengths)
  show "derive_nonce P cs secret ctx = Inr (expand P cs secret ''nonce'' ctx (aead_nonce_length cs))"
    using nonce(1) n assms(2) by (simp add: derive_nonce_def nonce_from_secret_def)
qed

text \<open>The whole schedule on a fresh joiner secret.\<close>

definition run_schedule ::
  "crypto_provider \<Rightarrow> ciphersuite \<Rightarrow> bytes \<Rightarrow> bytes \<Rightarrow> bytes \<Rightarrow>
   key_schedule_error + bytes \<times> epoch_secrets \<times> key_schedule" where
  "run_schedule P cs joiner psk ctx =
     try_bind (map_err KsLibraryError (key_schedule_init cs P joiner psk)) (\<lambda>ks.
     try_bind (key_schedule_welcome P cs ks) (\<lambda>w.
     case key_schedule_add_context P ctx ks of
       (Inl e, _) \<Rightarrow> Inl e
     | (Inr _, ks1) \<Rightarrow>
         (case key_schedule_epoch_secrets P cs ks1 of
            (Inl e, _) \<Rightarrow> Inl e
          | (Inr es, ks2) \<Rightarrow> Inr (w, es, ks2))))"

lemma run_schedule_ok:
  assumes "kdf_ok P cs" and "extract_ok P cs" and "length ctx < 2 ^ 30"
  shows "run_schedule P cs joiner psk ctx =
    Inr (derived P cs (extracted P cs joiner psk) ''welcome'',
         secrets_of P cs (epoch_of P cs joiner psk ctx),
         \<lparr>ks_ciphersuite = cs, ks_intermediate_secret = None, ks_epoch_secret = None,
          ks_state = ScheduleDone\<rparr>)"
  using assms kdf_expand_label_ok(1) [OF assms(1), of "hash_length cs" "''epoch''" ctx "extracted P cs joiner psk"]
  by (simp add: run_schedule_def key_schedule_init_def intermediate_secret_new_def hkdf_extract_ok
      key_schedule_welcome_def welcome_secret_new_def derive_secret_ok key_schedule_add_context_def
      epoch_secret_new_def key_schedule_epoch_secrets_def epoch_secrets_new_ok epoch_of_def
      ciphersuite_lengths)

section \<open>Runs of the state machine\<close>

datatype ks_call = CallWelcome | CallAddContext bytes | CallEpochSecrets

datatype ks_result =
    GotWelcome bytes
  | GotContext
  | GotEpochSecrets epoch_secrets
  | GotError key_schedule_error

fun ks_step :: "crypto_provider \<Rightarrow> ciphersuite \<Rightarrow> ks_call \<Rightarrow> key_schedule \<Rightarrow> ks_result \<times> key_schedule" where
  "ks_step P cs CallWelcome ks =
     (case key_schedule_welcome P cs ks of Inl e \<Rightarrow> (GotError e, ks) | Inr w \<Rightarrow> (GotWelcome w, ks))"
| "ks_step P cs (CallAddContext ctx) ks =
     (case key_schedule_add_context P ctx ks of
        (Inl e, ks') \<Rightarrow> (GotError e, ks') | (Inr _, ks') \<Rightarrow> (GotContext, ks'))"
| "ks_step P cs CallEpochSecrets ks =
     (case key_schedule_epoch_secrets P cs ks of
        (Inl e, ks') \<Rightarrow> (GotError e, ks') | (Inr es, ks') \<Rightarrow> (GotEpochSecrets es, ks'))"

fun ks_run ::
  "crypto_provider \<Rightarrow> ciphersuite \<Rightarrow> ks_call list \<Rightarrow> key_schedule \<Rightarrow> ks_result list \<times> key_schedule" where
  "ks_run P cs [] ks = ([], ks)"
| "ks_run P cs (c # calls) ks =
     (let (r, ks1) = ks_step P cs c ks; (rs, ks2) = ks_run P cs calls ks1 in (r # rs, ks2))"

text \<open>Which secrets the schedule still holds depends on its state only.\<close>

definition ks_inv :: "key_schedule \<Rightarrow> bool" where
  "ks_inv ks \<longleftrightarrow>
     (ks_state ks = ScheduleInitial \<longrightarrow> ks_intermediate_secret ks \<noteq> None \<and> ks_epoch_secret ks = None) \<and>
     (ks_state ks = ScheduleContext \<longrightarrow> ks_intermediate_secret ks = None) \<and>
     (ks_state ks = ScheduleDone \<longrightarrow> ks_intermediate_secret ks = None \<and> ks_epoch_secret ks = None)"

lemma key_schedule_init_inv:
  "key_schedule_init cs P joiner psk = Inr ks \<Longrightarrow> ks_inv ks \<and> ks_state ks = ScheduleInitial"
  by (auto simp: key_schedule_init_def try_bind_eq_Inr ks_inv_def)

lemma ks_step_inv: "ks_inv ks \<Longrightarrow> ks_inv (snd (ks_step P cs c ks))"
  by (cases c)
    (auto simp: ks_inv_def key_schedule_add_context_def key_schedule_epoch_secrets_def Let_def
      split: sum.splits option.splits prod.splits)

lemma ks_run_inv: "ks_inv ks \<Longrightarrow> ks_inv (snd (ks_run P cs calls ks))"
proof (induction calls arbitrary: ks)
  case (Cons c calls)
  then show ?case using ks_step_inv [of ks P cs c] by (fastforce split: prod.splits)
qed simp

lemma ks_run_length [simp]: "length (fst (ks_run P cs calls ks)) = length calls"
  by (induction calls arbitrary: ks) (simp_all add: case_prod_unfold Let_def)

fun schedule_rank :: "schedule_state \<Rightarrow> nat" where
  "schedule_rank ScheduleInitial = 0"
| "schedule_rank ScheduleContext = 1"
| "schedule_rank ScheduleDone = 2"

lemma ks_step_rank: "schedule_rank (ks_state ks) \<le> schedule_rank (ks_state (snd (ks_step P cs c ks)))"
  by (cases c)
    (auto simp: key_schedule_add_context_def key_schedule_epoch_secrets_def Let_def
      split: sum.splits option.splits prod.splits)

lemma ks_run_append:
  "ks_run P cs (xs @ ys) ks =
     (let (rs, ks1) = ks_run P cs xs ks; (rs', ks2) = ks_run P cs ys ks1 in (rs @ rs', ks2))"
  by (induction xs arbitrary: ks) (auto split: prod.splits)

lemma ks_run_rank: "schedule_rank (ks_state ks) \<le> schedule_rank (ks_state (snd (ks_run P cs calls ks)))"
proof (induction calls arbitrary: ks)
  case (Cons c calls)
  show ?case
    using ks_step_rank [of ks P cs c] Cons.IH [of "snd (ks_step P cs c ks)"]
    by (simp add: case_prod_unfold Let_def)
qed simp

text \<open>The state before the call at a position, and the result of that call.\<close>

definition ks_before :: "crypto_provider \<Rightarrow> ciphersuite \<Rightarrow> ks_call list \<Rightarrow> key_schedule \<Rightarrow> nat \<Rightarrow> key_schedule" where
  "ks_before P cs calls ks i = snd (ks_run P cs (take i calls) ks)"

lemma ks_run_nth:
  assumes "i < length calls"
  shows "ks_step P cs (calls ! i) (ks_before P cs calls ks i) =
    (fst (ks_run P cs calls ks) ! i, ks_before P cs calls ks (Suc i))"
  using assms
proof (induction calls arbitrary: ks i)
  case (Cons c calls)
  then show ?case by (cases i) (simp_all add: ks_before_def case_prod_unfold Let_def)
qed simp

lemma ks_before_rank:
  assumes "i \<le> j"
  shows "schedule_rank (ks_state (ks_before P cs calls ks i)) \<le> schedule_rank (ks_state (ks_before P cs calls ks j))"
proof -
  have "take j calls = take i calls @ take (j - i) (drop i calls)"
    using assms by (metis le_add_diff_inverse take_add)
  then show ?thesis
    using ks_run_rank [of "ks_before P cs calls ks i" P cs "take (j - i) (drop i calls)"]
    by (simp add: ks_before_def ks_run_append case_prod_unfold Let_def)
qed

lemma ks_before_inv: "ks_inv ks \<Longrightarrow> ks_inv (ks_before P cs calls ks i)"
  by (simp add: ks_before_def ks_run_inv)

lemma ks_step_after_context:
  assumes "0 < schedule_rank (ks_state ks)"
  shows "fst (ks_step P cs c ks) \<noteq> GotWelcome w" and "fst (ks_step P cs c ks) \<noteq> GotContext"
  using assms
  by (cases c; auto simp: key_schedule_welcome_def key_schedule_add_context_def
      key_schedule_epoch_secrets_def Let_def split: sum.splits option.splits prod.splits)+

lemma ks_step_after_done:
  "ks_state ks = ScheduleDone \<Longrightarrow> \<exists>e. ks_step P cs c ks = (GotError (InvalidState e), ks)"
  by (cases c) (auto simp: key_schedule_welcome_def key_schedule_add_context_def
      key_schedule_epoch_secrets_def)

lemma ks_step_add_context:
  "ks_inv ks \<Longrightarrow> 0 < schedule_rank (ks_state (snd (ks_step P cs (CallAddContext ctx) ks)))"
  by (cases "ks_state ks") (auto simp: ks_inv_def key_schedule_add_context_def Let_def
      split: sum.splits option.splits prod.splits)

lemma ks_step_got_secrets:
  "fst (ks_step P cs c ks) = GotEpochSecrets es \<Longrightarrow> ks_state (snd (ks_step P cs c ks)) = ScheduleDone"
  by (cases c) (auto simp: key_schedule_epoch_secrets_def Let_def split: sum.splits option.splits prod.splits)

lemma rank_done: "2 \<le> schedule_rank st \<Longrightarrow> st = ScheduleDone"
  by (cases st) simp_all

text \<open>
  On a fresh schedule and over any sequence of calls: no welcome secret after a context has been
  added, and once the secrets of the epoch have been handed out every call is refused and the
  schedule holds no secret any more.
\<close>

lemma schedule_run_order:
  assumes fresh: "key_schedule_init cs P joiner psk = Inr ks"
    and run: "ks_run P cs calls ks = (rs, ks')" and ij: "i < j" "j < length calls"
  shows "calls ! i = CallAddContext ctx \<Longrightarrow> rs ! j \<noteq> GotWelcome w \<and> rs ! j \<noteq> GotContext"
    and "rs ! i = GotEpochSecrets es \<Longrightarrow> \<exists>e. rs ! j = GotError (InvalidState e)"
proof -
  let ?k = "ks_before P cs calls ks"
  have inv: "ks_inv (?k n)" for n using key_schedule_init_inv [OF fresh] by (intro ks_before_inv) simp
  have at: "ks_step P cs (calls ! n) (?k n) = (rs ! n, ?k (Suc n))" if "n < length calls" for n
    using ks_run_nth [OF that, of P cs ks] run by simp
  note ai = at [of i] and aj = at [OF ij(2)]
  have le: "schedule_rank (ks_state (?k (Suc i))) \<le> schedule_rank (ks_state (?k j))"
    using ij(1) by (intro ks_before_rank) simp
  show "rs ! j \<noteq> GotWelcome w \<and> rs ! j \<noteq> GotContext" if "calls ! i = CallAddContext ctx"
  proof -
    have "0 < schedule_rank (ks_state (?k j))"
      using ks_step_add_context [OF inv [of i], of P cs ctx] ai ij le that by simp
    then show ?thesis using ks_step_after_context [of "?k j" P cs "calls ! j"] aj by simp
  qed
  show "\<exists>e. rs ! j = GotError (InvalidState e)" if "rs ! i = GotEpochSecrets es"
  proof -
    have "ks_state (?k (Suc i)) = ScheduleDone"
      using ks_step_got_secrets [of P cs "calls ! i" "?k i" es] ai ij that by simp
    then have "ks_state (?k j) = ScheduleDone" using le by (intro rank_done) simp
    then show ?thesis using ks_step_after_done [of "?k j" P cs "calls ! j"] aj by auto
  qed
qed

lemma schedule_run_erased:
  assumes fresh: "key_schedule_init cs P joiner psk = Inr ks"
    and run: "ks_run P cs calls ks = (rs, ks')" and es: "GotEpochSecrets es \<in> set rs"
  shows "ks_intermediate_secret ks' = None \<and> ks_epoch_secret ks' = None"
proof -
  let ?k = "ks_before P cs calls ks"
  have len: "length rs = length calls" using ks_run_length [of P cs calls ks] run by simp
  then obtain i where i: "i < length calls" "rs ! i = GotEpochSecrets es"
    using es by (auto simp: in_set_conv_nth)
  have at: "ks_step P cs (calls ! i) (?k i) = (rs ! i, ?k (Suc i))"
    using ks_run_nth [OF i(1), of P cs ks] run by simp
  have "ks_state (?k (Suc i)) = ScheduleDone"
    using ks_step_got_secrets [of P cs "calls ! i" "?k i" es] at i by simp
  then have "ks_state (?k (length calls)) = ScheduleDone"
    using ks_before_rank [of "Suc i" "length calls" P cs calls ks] i(1) by (intro rank_done) simp
  moreover have "?k (length calls) = ks'" using run by (simp add: ks_before_def)
  moreover have "ks_inv ks'"
    using ks_run_inv [of ks P cs calls] key_schedule_init_inv [OF fresh] run by simp
  ultimately show ?thesis by (simp add: ks_inv_def)
qed

section \<open>External initialisation\<close>

text \<open>
  A joiner with the external public key and a member with the private key of the pair get the same
  init secret, if the exports of the two sides of HPKE agree.
\<close>

lemma external_init_same_secret:
  assumes "derive_external_keypair X (gc_ciphersuite gc) external_secret = Inr kp"
    and "init_secret_from_group_context X gc (kp_public_key kp) = Inr (init, kem_output)"
    and agree: "\<And>info ctx len kem s.
      hpke_setup_sender_and_export X (hpke_config (gc_ciphersuite gc)) (kp_public_key kp) info ctx len
        = Inr (kem, s) \<Longrightarrow>
      hpke_setup_receiver_and_export X (hpke_config (gc_ciphersuite gc)) kem (kp_private_key kp) info ctx len
        = Inr s"
  shows "init_secret_from_kem_output X (gc_ciphersuite gc) (gc_protocol_version gc)
    (kp_private_key kp) kem_output = Inr init"
  using assms(2) agree
  by (auto simp: init_secret_from_group_context_def init_secret_from_kem_output_def Let_def try_bind_eq_Inr)

end
