(* ===== verification/Key_Packages.thy ===== *)
theory Key_Packages
  imports Key_Schedule
begin

text \<open>
  Key packages (\<open>key_packages/mod.rs\<close>, \<open>key_packages/key_package_in.rs\<close>, \<open>key_packages/errors.rs\<close>) and
  signing with labels (\<open>ciphersuite/signable.rs\<close>). A received key package has the fields of a
  verified one; both are one record here and \<open>validate\<close> tells them apart. The derived TLS codecs,
  signatures, randomness, the clock and the storage are arguments.
\<close>

section \<open>Signing with a label\<close>

type_synonym sign_content_codec = "string \<Rightarrow> bytes \<Rightarrow> bytes option"

record signer =
  signer_signature_scheme :: signature_scheme
  signer_sign :: "bytes \<Rightarrow> bytes option"

type_synonym signature_check = "signature_scheme \<Rightarrow> bytes \<Rightarrow> bytes \<Rightarrow> bytes \<Rightarrow> bool"

definition signable_sign ::
  "sign_content_codec \<Rightarrow> signer \<Rightarrow> string \<Rightarrow> bytes option \<Rightarrow> signature_error + bytes" where
  "signable_sign SC signer label unsigned_payload =
     (case unsigned_payload of
        None \<Rightarrow> Inl SigningError
      | Some payload \<Rightarrow>
          (case SC label payload of
             None \<Rightarrow> Inl SigningError
           | Some content \<Rightarrow>
               (case signer_sign signer content of None \<Rightarrow> Inl SigningError | Some s \<Rightarrow> Inr s)))"

definition verify_no_out ::
  "sign_content_codec \<Rightarrow> (bytes \<Rightarrow> bytes \<Rightarrow> bytes \<Rightarrow> bool) \<Rightarrow> bytes \<Rightarrow> string \<Rightarrow> bytes option \<Rightarrow> bytes \<Rightarrow>
   signature_error + unit" where
  "verify_no_out SC verify_signature pk label unsigned_payload signature =
     (case unsigned_payload of
        None \<Rightarrow> Inl VerificationError
      | Some payload \<Rightarrow>
          (case SC label payload of
             None \<Rightarrow> Inl VerificationError
           | Some content \<Rightarrow>
               if verify_signature pk content signature then Inr () else Inl VerificationError))"

lemma signable_sign_verify:
  assumes "signable_sign SC signer label payload = Inr s"
    and "\<And>m s. signer_sign signer m = Some s \<Longrightarrow> verify_signature pk m s"
  shows "verify_no_out SC verify_signature pk label payload s = Inr ()"
  using assms by (auto simp: signable_sign_def verify_no_out_def split: option.splits)

section \<open>Key packages\<close>

record key_package_tbs =
  kpt_protocol_version :: protocol_version
  kpt_ciphersuite :: ciphersuite
  kpt_init_key :: bytes
  kpt_leaf_node :: leaf_node
  kpt_extensions :: extensions

record key_package =
  key_package_payload :: key_package_tbs
  key_package_signature :: bytes

text \<open>Two key packages are equal if their payloads are.\<close>

definition key_package_eq :: "key_package \<Rightarrow> key_package \<Rightarrow> bool" where
  "key_package_eq a b = (key_package_payload a = key_package_payload b)"

record key_package_codec =
  tls_key_package_tbs :: "key_package_tbs \<Rightarrow> bytes option"
  tls_key_package :: "key_package \<Rightarrow> bytes option"

definition signature_key_package_label :: string where
  "signature_key_package_label = ''KeyPackageTBS''"

datatype key_package_verify_error =
    KpvLibraryError library_error
  | InvalidLifetime
  | MissingLifetime
  | KpvUnsupportedExtension
  | KpvInvalidSignature
  | KpvInvalidLeafNodeSignature
  | KpvInvalidLeafNodeSourceType
  | InitKeyEqualsEncryptionKey
  | InvalidProtocolVersion

datatype key_package_extension_support_error = KpeUnsupportedExtension

datatype key_package_new_error =
    KpnLibraryError library_error
  | CiphersuiteSignatureSchemeMismatch
  | KpnStorageError
  | KpnSignatureError signature_error

abbreviation key_package_leaf_node :: "key_package \<Rightarrow> leaf_node" where
  "key_package_leaf_node kp \<equiv> kpt_leaf_node (key_package_payload kp)"

abbreviation key_package_ciphersuite :: "key_package \<Rightarrow> ciphersuite" where
  "key_package_ciphersuite kp \<equiv> kpt_ciphersuite (key_package_payload kp)"

definition key_package_new_from_keys ::
  "leaf_codec \<Rightarrow> key_package_codec \<Rightarrow> library_error + encryption_key_pair \<Rightarrow> ciphersuite \<Rightarrow> signer \<Rightarrow>
   credential_with_key \<Rightarrow> lifetime \<Rightarrow> extensions \<Rightarrow> capabilities \<Rightarrow> extensions \<Rightarrow> bytes \<Rightarrow>
   key_package_new_error + key_package \<times> encryption_key_pair" where
  "key_package_new_from_keys C KC random_pair cs signer cwk life_time exts caps leaf_exts init_key =
     try_bind (map_err KpnLibraryError
       (leaf_new C (signer_sign signer) random_pair cwk (SourceKeyPackage life_time) caps leaf_exts TbsKeyPackage))
       (\<lambda>(leaf_node, encryption_key_pair).
     let tbs = \<lparr>kpt_protocol_version = Mls10, kpt_ciphersuite = cs, kpt_init_key = init_key,
                kpt_leaf_node = leaf_node, kpt_extensions = exts\<rparr> in
     try_bind (map_err KpnSignatureError
       (signable_sign (tls_sign_content C) signer signature_key_package_label (tls_key_package_tbs KC tbs)))
       (\<lambda>signature.
          Inr (\<lparr>key_package_payload = tbs, key_package_signature = signature\<rparr>, encryption_key_pair)))"

definition key_package_create ::
  "leaf_codec \<Rightarrow> key_package_codec \<Rightarrow> hpke_export_provider \<Rightarrow> crypto_error + bytes \<Rightarrow>
   library_error + encryption_key_pair \<Rightarrow> ciphersuite \<Rightarrow> signer \<Rightarrow> credential_with_key \<Rightarrow> lifetime \<Rightarrow>
   extensions \<Rightarrow> capabilities \<Rightarrow> extensions \<Rightarrow>
   key_package_new_error + key_package \<times> encryption_key_pair \<times> bytes" where
  "key_package_create C KC X random_secret random_pair cs signer cwk life_time exts caps leaf_exts =
     (if signature_algorithm cs \<noteq> signer_signature_scheme signer
      then Inl CiphersuiteSignatureSchemeMismatch
      else
        try_bind (map_err (\<lambda>_. KpnLibraryError UnexpectedCryptoError) random_secret) (\<lambda>ikm.
        try_bind (map_err (\<lambda>_. KpnLibraryError UnexpectedCryptoError)
          (derive_hpke_keypair X (hpke_config cs) ikm)) (\<lambda>init_key.
        try_bind (key_package_new_from_keys C KC random_pair cs signer cwk life_time exts caps leaf_exts
          (kp_public_key init_key)) (\<lambda>(kp, encryption_keypair).
          Inr (kp, encryption_keypair, kp_private_key init_key)))))"

fun key_package_check_extension_support ::
  "key_package \<Rightarrow> extension_type list \<Rightarrow> key_package_extension_support_error + unit" where
  "key_package_check_extension_support kp [] = Inr ()"
| "key_package_check_extension_support kp (ty # required_extensions) =
     (if \<not> extensions_contains (kpt_extensions (key_package_payload kp)) ty
      then Inl KpeUnsupportedExtension
      else key_package_check_extension_support kp required_extensions)"

definition key_package_hash_ref ::
  "crypto_provider \<Rightarrow> key_package_codec \<Rightarrow> key_package \<Rightarrow> library_error + bytes" where
  "key_package_hash_ref P KC kp =
     (case tls_key_package KC kp of
        None \<Rightarrow> Inl MissingBoundCheck
      | Some encoded \<Rightarrow>
          map_err (\<lambda>_. UnexpectedCryptoError)
            (make_key_package_ref P (key_package_ciphersuite kp) encoded))"

definition key_package_last_resort :: "key_package \<Rightarrow> bool" where
  "key_package_last_resort kp = extensions_contains (kpt_extensions (key_package_payload kp)) LastResort"

section \<open>Building\<close>

record key_package_builder =
  kpb_key_package_lifetime :: "lifetime option"
  kpb_key_package_extensions :: "extensions option"
  kpb_leaf_node_capabilities :: "capabilities option"
  kpb_leaf_node_extensions :: "extensions option"
  kpb_last_resort :: bool

definition key_package_builder_new :: key_package_builder where
  "key_package_builder_new =
     \<lparr>kpb_key_package_lifetime = None, kpb_key_package_extensions = None,
      kpb_leaf_node_capabilities = None, kpb_leaf_node_extensions = None, kpb_last_resort = False\<rparr>"

definition ensure_last_resort :: "key_package_builder \<Rightarrow> key_package_builder" where
  "ensure_last_resort b =
     (if kpb_last_resort b then
        (case kpb_key_package_extensions b of
           Some exts \<Rightarrow> b\<lparr>kpb_key_package_extensions := Some (snd (extensions_add_or_replace exts LastResortExtension))\<rparr>
         | None \<Rightarrow> b\<lparr>kpb_key_package_extensions := Some [LastResortExtension]\<rparr>)
      else b)"

record key_package_bundle =
  bundle_key_package :: key_package
  bundle_private_init_key :: bytes
  bundle_private_encryption_key :: bytes

definition bundle_encryption_key_pair :: "key_package_bundle \<Rightarrow> encryption_key_pair" where
  "bundle_encryption_key_pair b =
     \<lparr>kp_public_key = leaf_encryption_key (leaf_payload (key_package_leaf_node (bundle_key_package b))),
      kp_private_key = bundle_private_encryption_key b\<rparr>"

text \<open>The storage is a state that \<open>write_key_package\<close> changes, also when it fails.\<close>

definition key_package_build ::
  "crypto_provider \<Rightarrow> leaf_codec \<Rightarrow> key_package_codec \<Rightarrow> hpke_export_provider \<Rightarrow>
   (bytes \<Rightarrow> key_package_bundle \<Rightarrow> 's \<Rightarrow> ('e + unit) \<times> 's) \<Rightarrow> 64 word \<Rightarrow> crypto_error + bytes \<Rightarrow>
   library_error + encryption_key_pair \<Rightarrow> ciphersuite \<Rightarrow> signer \<Rightarrow> credential_with_key \<Rightarrow>
   key_package_builder \<Rightarrow> 's \<Rightarrow> (key_package_new_error + key_package_bundle) \<times> 's" where
  "key_package_build P C KC X write_key_package now random_secret random_pair cs signer cwk b st =
     (let b = ensure_last_resort b in
      case key_package_create C KC X random_secret random_pair cs signer cwk
             (case kpb_key_package_lifetime b of Some t \<Rightarrow> t | None \<Rightarrow> lifetime_default now)
             (case kpb_key_package_extensions b of Some e \<Rightarrow> e | None \<Rightarrow> [])
             (case kpb_leaf_node_capabilities b of Some c \<Rightarrow> c | None \<Rightarrow> capabilities_new None None None None None)
             (case kpb_leaf_node_extensions b of Some e \<Rightarrow> e | None \<Rightarrow> []) of
        Inl e \<Rightarrow> (Inl e, st)
      | Inr (kp, encryption_keypair, init_private_key) \<Rightarrow>
          let full_kp = \<lparr>bundle_key_package = kp, bundle_private_init_key = init_private_key,
                         bundle_private_encryption_key = kp_private_key encryption_keypair\<rparr> in
          (case key_package_hash_ref P KC kp of
             Inl e \<Rightarrow> (Inl (KpnLibraryError e), st)
           | Inr hash_ref \<Rightarrow>
               (case write_key_package hash_ref full_kp st of
                  (Inl _, st') \<Rightarrow> (Inl KpnStorageError, st')
                | (Inr _, st') \<Rightarrow> (Inr full_kp, st'))))"

section \<open>Validation\<close>

definition version_is_supported :: "protocol_version \<Rightarrow> key_package \<Rightarrow> bool" where
  "version_is_supported version kp = (kpt_protocol_version (key_package_payload kp) = version)"

definition key_package_unverified_credential :: "key_package \<Rightarrow> credential_with_key" where
  "key_package_unverified_credential kp =
     \<lparr>cwk_credential = leaf_credential (leaf_payload (key_package_leaf_node kp)),
      cwk_signature_key = leaf_signature_key (leaf_payload (key_package_leaf_node kp))\<rparr>"

definition key_package_validate ::
  "leaf_codec \<Rightarrow> key_package_codec \<Rightarrow> signature_check \<Rightarrow> 64 word option \<Rightarrow> protocol_version \<Rightarrow> key_package \<Rightarrow>
   key_package_verify_error + key_package" where
  "key_package_validate C KC verify_signature now version kp =
     (let payload = key_package_payload kp;
          verify = verify_signature (signature_algorithm (kpt_ciphersuite payload));
          pk = leaf_signature_key (leaf_payload (kpt_leaf_node payload)) in
      try_bind
        (case into_verifiable_leaf_node (kpt_leaf_node payload) of
           VerifiableKeyPackage p s \<Rightarrow>
             map_err (\<lambda>_. KpvInvalidLeafNodeSignature) (verifiable_verify C verify pk (VerifiableKeyPackage p s))
         | _ \<Rightarrow> Inl KpvInvalidLeafNodeSourceType)
        (\<lambda>leaf_node.
      if \<not> version_is_supported version kp then Inl InvalidProtocolVersion
      else if leaf_encryption_key (leaf_payload leaf_node) = kpt_init_key payload
      then Inl InitKeyEqualsEncryptionKey
      else
        let tbs = payload\<lparr>kpt_leaf_node := leaf_node\<rparr> in
        try_bind (map_err (\<lambda>_. KpvInvalidSignature)
          (verify_no_out (tls_sign_content C) verify pk signature_key_package_label
             (tls_key_package_tbs KC tbs) (key_package_signature kp))) (\<lambda>_.
        let key_package = \<lparr>key_package_payload = tbs, key_package_signature = key_package_signature kp\<rparr> in
        if list_ex (\<lambda>e. \<not> leaf_supports_extension leaf_node (extension_type_of e)) (kpt_extensions tbs)
        then Inl KpvUnsupportedExtension
        else case leaf_life_time leaf_node of
               None \<Rightarrow> Inl MissingLifetime
             | Some life_time \<Rightarrow>
                 if \<not> lifetime_is_valid now life_time then Inl InvalidLifetime else Inr key_package)))"

section \<open>A new key package is valid\<close>

lemma leaf_new_eq_Inr:
  "leaf_new C sign random_pair cwk source caps exts info = Inr (leaf, pair) \<longleftrightarrow>
     random_pair = Inr pair \<and>
     leaf_tbs_sign C sign (leaf_tbs_new (kp_public_key pair) cwk caps source exts info) = Inr leaf"
proof -
  have "leaf_new_with_key C sign key cwk source caps exts info = Inr leaf \<longleftrightarrow>
      leaf_tbs_sign C sign (leaf_tbs_new key cwk caps source exts info) = Inr leaf" for key leaf
    by (simp add: leaf_new_with_key_def split: sum.splits)
  then show ?thesis by (auto simp: leaf_new_def try_bind_eq_Inr)
qed

lemma new_key_package_valid:
  assumes created: "key_package_new_from_keys C KC random_pair cs signer cwk life_time exts caps leaf_exts init_key
      = Inr (kp, pair)"
    and sig: "\<And>m s. signer_sign signer m = Some s \<Longrightarrow>
      verify_signature (signature_algorithm cs) (cwk_signature_key cwk) m s"
    and "init_key \<noteq> kp_public_key pair"
    and "\<And>e. e \<in> set exts \<Longrightarrow>
      extension_type_is_default (extension_type_of e) \<or> extension_type_of e \<in> set (cap_extensions caps)"
    and "lifetime_is_valid now life_time"
  shows "key_package_validate C KC verify_signature now Mls10 kp = Inr kp"
    and "leaf_encryption_key (leaf_payload (key_package_leaf_node kp)) = kp_public_key pair"
proof -
  let ?tbs = "leaf_tbs_new (kp_public_key pair) cwk caps (SourceKeyPackage life_time) leaf_exts TbsKeyPackage"
  obtain leaf s where leaf: "leaf_tbs_sign C (signer_sign signer) ?tbs = Inr leaf"
    and kp: "key_package_payload kp = \<lparr>kpt_protocol_version = Mls10, kpt_ciphersuite = cs, kpt_init_key = init_key,
      kpt_leaf_node = leaf, kpt_extensions = exts\<rparr>" "key_package_signature kp = s"
    and s: "signable_sign (tls_sign_content C) signer signature_key_package_label
      (tls_key_package_tbs KC (key_package_payload kp)) = Inr s"
    using created
    by (auto simp: key_package_new_from_keys_def leaf_new_eq_Inr try_bind_eq_Inr Let_def)
  have payload: "leaf_payload leaf = tbs_payload ?tbs"
    using leaf by (auto simp: leaf_tbs_sign_def split: option.splits)
  have src: "leaf_source (leaf_payload leaf) = SourceKeyPackage life_time"
    by (simp add: payload leaf_tbs_new_def)
  have v: "verifiable_verify C (verify_signature (signature_algorithm cs)) (cwk_signature_key cwk)
      (into_verifiable_leaf_node leaf) = Inr leaf"
    using sign_verify_roundtrip [OF leaf, of undefined "verify_signature (signature_algorithm cs)"] sig src
    by (auto simp: into_verifiable_leaf_node_def payload leaf_tbs_new_def)
  have w: "verify_no_out (tls_sign_content C) (verify_signature (signature_algorithm cs)) (cwk_signature_key cwk)
      signature_key_package_label (tls_key_package_tbs KC (key_package_payload kp)) s = Inr ()"
    by (rule signable_sign_verify [OF s]) (rule sig)
  show enc: "leaf_encryption_key (leaf_payload (key_package_leaf_node kp)) = kp_public_key pair"
    by (simp add: kp(1) payload leaf_tbs_new_def)
  have sup: "\<not> list_ex (\<lambda>e. \<not> leaf_supports_extension leaf (extension_type_of e)) exts"
    using assms(4) by (auto simp: list_ex_iff leaf_supports_extension_def payload leaf_tbs_new_def)
  have pk: "leaf_signature_key (leaf_payload leaf) = cwk_signature_key cwk"
    by (simp add: payload leaf_tbs_new_def)
  have "(key_package_payload kp)\<lparr>kpt_leaf_node := leaf\<rparr> = key_package_payload kp" by (simp add: kp(1))
  moreover have "into_verifiable_leaf_node leaf = VerifiableKeyPackage (leaf_payload leaf) (leaf_signature leaf)"
    by (simp add: into_verifiable_leaf_node_def src)
  ultimately show "key_package_validate C KC verify_signature now Mls10 kp = Inr kp"
    using v w sup assms(3,5) enc src
    by (simp add: key_package_validate_def Let_def kp pk version_is_supported_def leaf_life_time_def)
qed

end
