(* ===== verification/Pre_Shared_Keys.thy ===== *)
theory Pre_Shared_Keys
  imports Key_Schedule
begin

text \<open>
  Pre-shared keys (\<open>schedule/psk.rs\<close>): identifiers and their validation, the secret that a list of
  keys gives, the lookup of keys and the rollover store of resumption keys. The TLS encoding of
  labels and the storage of external keys are arguments.
\<close>

section \<open>Identifiers and errors\<close>

datatype resumption_psk_usage = UsageApplication | UsageReinit | UsageBranch

record resumption_psk =
  psk_usage :: resumption_psk_usage
  psk_group_id :: group_id
  psk_epoch :: group_epoch

datatype psk = ExternalPsk bytes | ResumptionPsk resumption_psk

datatype psk_type = PskTypeExternal | PskTypeResumption

record pre_shared_key_id =
  psk_id_psk :: psk
  psk_nonce :: bytes

datatype psk_error =
    PskLibraryError library_error
  | TooManyKeys
  | KeyNotFound
  | PskStorageError
  | PskTypeMismatch "psk_type list" psk_type
  | UsageMismatch "resumption_psk_usage list" resumption_psk_usage
  | NonceLengthMismatch nat nat
  | DuplicatePsk pre_shared_key_id

text \<open>A fresh identifier takes its nonce from the source of randomness, which can fail.\<close>

definition pre_shared_key_id_new :: "(nat \<Rightarrow> bytes option) \<Rightarrow> ciphersuite \<Rightarrow> psk \<Rightarrow> crypto_error + pre_shared_key_id" where
  "pre_shared_key_id_new random_vec cs psk =
     (case random_vec (hash_length cs) of
        None \<Rightarrow> Inl InsufficientRandomness
      | Some nonce \<Rightarrow> Inr \<lparr>psk_id_psk = psk, psk_nonce = nonce\<rparr>)"

definition pre_shared_key_id_external :: "bytes \<Rightarrow> bytes \<Rightarrow> pre_shared_key_id" where
  "pre_shared_key_id_external psk_id nonce = \<lparr>psk_id_psk = ExternalPsk psk_id, psk_nonce = nonce\<rparr>"

definition pre_shared_key_id_resumption ::
  "resumption_psk_usage \<Rightarrow> group_id \<Rightarrow> group_epoch \<Rightarrow> bytes \<Rightarrow> pre_shared_key_id" where
  "pre_shared_key_id_resumption usage gid ep nonce =
     \<lparr>psk_id_psk = ResumptionPsk \<lparr>psk_usage = usage, psk_group_id = gid, psk_epoch = ep\<rparr>,
      psk_nonce = nonce\<rparr>"

definition validate_in_proposal :: "ciphersuite \<Rightarrow> pre_shared_key_id \<Rightarrow> psk_error + pre_shared_key_id" where
  "validate_in_proposal cs psk_id =
     try_bind
       (case psk_id_psk psk_id of
          ResumptionPsk resumption \<Rightarrow>
            if psk_usage resumption \<noteq> UsageApplication
            then Inl (UsageMismatch [UsageApplication] (psk_usage resumption)) else Inr ()
        | ExternalPsk _ \<Rightarrow> Inr ())
       (\<lambda>_. if hash_length cs \<noteq> length (psk_nonce psk_id)
            then Inl (NonceLengthMismatch (hash_length cs) (length (psk_nonce psk_id)))
            else Inr psk_id)"

section \<open>The secret of a list of keys\<close>

type_synonym psk_label_codec = "pre_shared_key_id \<Rightarrow> 16 word \<Rightarrow> 16 word \<Rightarrow> bytes option"

fun psk_secret_loop ::
  "crypto_provider \<Rightarrow> psk_label_codec \<Rightarrow> ciphersuite \<Rightarrow> 16 word \<Rightarrow> nat \<Rightarrow> bytes \<Rightarrow>
   (pre_shared_key_id \<times> bytes) list \<Rightarrow> psk_error + bytes" where
  "psk_secret_loop P C cs num_psks index psk_secret [] = Inr psk_secret"
| "psk_secret_loop P C cs num_psks index psk_secret ((psk_id, psk) # psks) =
     try_bind (map_err (\<lambda>_. PskLibraryError UnexpectedCryptoError)
       (hkdf_extract P cs (secret_zero cs) (Some psk))) (\<lambda>psk_extracted.
     try_bind (case C psk_id (of_nat index) num_psks of
         None \<Rightarrow> Inl (PskLibraryError MissingBoundCheck) | Some label \<Rightarrow> Inr label) (\<lambda>psk_label.
     try_bind (map_err (\<lambda>_. PskLibraryError UnexpectedCryptoError)
       (kdf_expand_label P cs psk_extracted ''derived psk'' psk_label (hash_length cs))) (\<lambda>psk_input.
     try_bind (map_err (\<lambda>_. PskLibraryError UnexpectedCryptoError)
       (hkdf_extract P cs psk_input (Some psk_secret))) (\<lambda>psk_secret.
       psk_secret_loop P C cs num_psks (Suc index) psk_secret psks))))"

definition psk_secret_new ::
  "crypto_provider \<Rightarrow> psk_label_codec \<Rightarrow> ciphersuite \<Rightarrow> (pre_shared_key_id \<times> bytes) list \<Rightarrow> psk_error + bytes" where
  "psk_secret_new P C cs psks =
     (if length psks > 2 ^ 16 - 1 then Inl TooManyKeys
      else psk_secret_loop P C cs (of_nat (length psks)) 0 (secret_zero cs) psks)"

section \<open>The rollover store of resumption keys\<close>

record resumption_psk_store =
  max_number_of_secrets :: nat
  store_resumption_psk :: "(group_epoch \<times> bytes) list"
  store_cursor :: nat

definition resumption_psk_store_new :: "nat \<Rightarrow> resumption_psk_store" where
  "resumption_psk_store_new n =
     \<lparr>max_number_of_secrets = n, store_resumption_psk = [], store_cursor = 0\<rparr>"

text \<open>
  A full store has at least one entry, so the remainder and the index of the last branch are defined.
\<close>

definition resumption_psk_store_add ::
  "group_epoch \<Rightarrow> bytes \<Rightarrow> resumption_psk_store \<Rightarrow> resumption_psk_store" where
  "resumption_psk_store_add ep psk st =
     (if max_number_of_secrets st = 0 then st
      else
        let item = (ep, psk) in
        if length (store_resumption_psk st) < max_number_of_secrets st
        then st\<lparr>store_resumption_psk := store_resumption_psk st @ [item],
                store_cursor := usize_add (store_cursor st) 1\<rparr>
        else
          let cursor = usize_add (store_cursor st) 1 mod length (store_resumption_psk st)
          in st\<lparr>store_cursor := cursor, store_resumption_psk := (store_resumption_psk st)[cursor := item]\<rparr>)"

definition resumption_psk_store_get :: "group_epoch \<Rightarrow> resumption_psk_store \<Rightarrow> bytes option" where
  "resumption_psk_store_get ep st =
     map_option snd (List.find (\<lambda>(e, s). e = ep) (store_resumption_psk st))"

section \<open>Lookup\<close>

fun load_psks_loop ::
  "(psk \<Rightarrow> 'e + bytes option) \<Rightarrow> resumption_psk_store \<Rightarrow> (pre_shared_key_id \<times> bytes) list \<Rightarrow>
   pre_shared_key_id list \<Rightarrow> psk_error + (pre_shared_key_id \<times> bytes) list" where
  "load_psks_loop storage st psk_bundles [] = Inr psk_bundles"
| "load_psks_loop storage st psk_bundles (psk_id # psk_ids) =
     (case psk_id_psk psk_id of
        ResumptionPsk resumption \<Rightarrow>
          (case resumption_psk_store_get (psk_epoch resumption) st of
             Some secret \<Rightarrow> load_psks_loop storage st (psk_bundles @ [(psk_id, secret)]) psk_ids
           | None \<Rightarrow> Inl KeyNotFound)
      | ExternalPsk _ \<Rightarrow>
          (case storage (psk_id_psk psk_id) of
             Inl _ \<Rightarrow> Inl KeyNotFound
           | Inr (Some secret) \<Rightarrow> load_psks_loop storage st (psk_bundles @ [(psk_id, secret)]) psk_ids
           | Inr None \<Rightarrow> Inl KeyNotFound))"

definition load_psks ::
  "(psk \<Rightarrow> 'e + bytes option) \<Rightarrow> resumption_psk_store \<Rightarrow> pre_shared_key_id list \<Rightarrow>
   psk_error + (pre_shared_key_id \<times> bytes) list" where
  "load_psks storage st psk_ids = load_psks_loop storage st [] psk_ids"

section \<open>The secret is the one the protocol defines\<close>

definition psk_input :: "crypto_provider \<Rightarrow> psk_label_codec \<Rightarrow> ciphersuite \<Rightarrow> nat \<Rightarrow> nat \<Rightarrow> pre_shared_key_id \<Rightarrow> bytes \<Rightarrow> bytes" where
  "psk_input P C cs n index psk_id psk =
     expand P cs (extracted P cs (secret_zero cs) psk) ''derived psk''
       (case C psk_id (of_nat index) (of_nat n) of Some label \<Rightarrow> label | None \<Rightarrow> []) (hash_length cs)"

fun psk_chain :: "crypto_provider \<Rightarrow> ciphersuite \<Rightarrow> bytes list \<Rightarrow> bytes" where
  "psk_chain P cs inputs = foldl (\<lambda>acc input. extracted P cs input acc) (secret_zero cs) inputs"

definition label_ok :: "psk_label_codec \<Rightarrow> (pre_shared_key_id \<times> bytes) list \<Rightarrow> bool" where
  "label_ok C psks \<longleftrightarrow>
     (\<forall>psk_id \<in> fst ` set psks. \<forall>i n. \<exists>label. C psk_id i n = Some label \<and> length label < 2 ^ 30)"

lemma psk_secret_loop_ok:
  assumes "kdf_ok P cs" and "extract_ok P cs" and "label_ok C psks"
  shows "psk_secret_loop P C cs (of_nat n) index acc psks =
    Inr (foldl (\<lambda>acc input. extracted P cs input acc) acc
      (map (\<lambda>(i, psk_id, psk). psk_input P C cs n i psk_id psk) (enumerate index psks)))"
  using assms(3)
proof (induction psks arbitrary: index acc)
  case (Cons x psks)
  obtain psk_id psk where x: "x = (psk_id, psk)" by (cases x)
  obtain label where label: "C psk_id (of_nat index) (of_nat n) = Some label" "length label < 2 ^ 30"
    using Cons.prems x by (force simp: label_ok_def)
  have input: "kdf_expand_label P cs (extracted P cs (secret_zero cs) psk) ''derived psk'' label (hash_length cs)
      = Inr (psk_input P C cs n index psk_id psk)"
    unfolding psk_input_def label(1) option.case
    by (rule kdf_expand_label_ok) (use assms(1) label(2) in \<open>simp_all add: ciphersuite_lengths\<close>)
  have "label_ok C psks" using Cons.prems by (simp add: label_ok_def)
  then show ?case using Cons.IH input label(1) assms(2) by (simp add: x hkdf_extract_ok)
qed simp

lemma psk_secret_new_ok:
  assumes "kdf_ok P cs" and "extract_ok P cs" and "label_ok C psks" and "length psks < 2 ^ 16"
  shows "psk_secret_new P C cs psks =
    Inr (psk_chain P cs (map (\<lambda>(i, psk_id, psk). psk_input P C cs (length psks) i psk_id psk) (enumerate 0 psks)))"
  using assms psk_secret_loop_ok [OF assms(1-3), of "length psks" 0] by (simp add: psk_secret_new_def)

section \<open>Lookup finds all keys or fails\<close>

definition lookup_psk :: "(psk \<Rightarrow> 'e + bytes option) \<Rightarrow> resumption_psk_store \<Rightarrow> pre_shared_key_id \<Rightarrow> bytes option" where
  "lookup_psk storage st psk_id =
     (case psk_id_psk psk_id of
        ResumptionPsk resumption \<Rightarrow> resumption_psk_store_get (psk_epoch resumption) st
      | ExternalPsk _ \<Rightarrow> (case storage (psk_id_psk psk_id) of Inl _ \<Rightarrow> None | Inr r \<Rightarrow> r))"

lemma load_psks_loop_Cons:
  "load_psks_loop storage st acc (x # ids) =
     (case lookup_psk storage st x of
        None \<Rightarrow> Inl KeyNotFound | Some secret \<Rightarrow> load_psks_loop storage st (acc @ [(x, secret)]) ids)"
  by (auto simp: lookup_psk_def split: psk.splits option.splits sum.splits)

lemma load_psks_loop_eq:
  "load_psks_loop storage st acc ids =
     (if \<forall>x \<in> set ids. lookup_psk storage st x \<noteq> None
      then Inr (acc @ map (\<lambda>x. (x, the (lookup_psk storage st x))) ids) else Inl KeyNotFound)"
  by (induction ids arbitrary: acc)
    (auto simp: load_psks_loop_Cons simp del: load_psks_loop.simps(2) split: option.split)

lemma load_psks_eq:
  "load_psks storage st ids =
     (if \<forall>x \<in> set ids. lookup_psk storage st x \<noteq> None
      then Inr (map (\<lambda>x. (x, the (lookup_psk storage st x))) ids) else Inl KeyNotFound)"
  by (simp add: load_psks_def load_psks_loop_eq)

section \<open>What the rollover store keeps\<close>

definition store_after :: "nat \<Rightarrow> (group_epoch \<times> bytes) list \<Rightarrow> resumption_psk_store" where
  "store_after m items = foldl (\<lambda>st (ep, psk). resumption_psk_store_add ep psk st) (resumption_psk_store_new m) items"

lemma store_after_simps:
  "store_after m [] = resumption_psk_store_new m"
  "store_after m (items @ [x]) = resumption_psk_store_add (fst x) (snd x) (store_after m items)"
  by (simp_all add: store_after_def case_prod_unfold)

text \<open>The slot that the \<open>k\<close>-th key goes to, and the keys that are still in their slots after \<open>n\<close> additions.\<close>

definition slot :: "nat \<Rightarrow> nat \<Rightarrow> nat" where
  "slot m k = (if k < m then k else (k - m + 1) mod m)"

lemma slot_less: "0 < m \<Longrightarrow> slot m k < m"
  by (simp add: slot_def)

lemma slot_distinct:
  assumes "k < n" and "n < m + k - 1" and "m \<le> n"
  shows "slot m k \<noteq> slot m n"
proof (cases "k < m")
  case True
  then show ?thesis using assms by (auto simp: slot_def mod_less)
next
  case False
  have "(k - m + 1) mod m \<noteq> (n - m + 1) mod m"
  proof
    assume "(k - m + 1) mod m = (n - m + 1) mod m"
    then have "m dvd (n - m + 1) - (k - m + 1)" using assms(1) by (intro mod_eq_dvd_iff_nat [THEN iffD1]) auto
    moreover have "(n - m + 1) - (k - m + 1) = n - k" using assms False by simp
    ultimately have "m \<le> n - k" using assms(1) by (simp add: dvd_imp_le)
    then show False using assms False by simp
  qed
  then show ?thesis using assms False by (simp add: slot_def)
qed

lemma store_after_inv:
  assumes "0 < m" and "length items < 2 ^ 64" and "m < 2 ^ 64"
  shows "max_number_of_secrets (store_after m items) = m \<and>
    (if length items \<le> m
     then store_resumption_psk (store_after m items) = items \<and> store_cursor (store_after m items) = length items
     else length (store_resumption_psk (store_after m items)) = m \<and>
       store_cursor (store_after m items) = (length items - m) mod m) \<and>
    (\<forall>k < length items. length items < m + k \<or> k = length items - 1 \<longrightarrow>
       store_resumption_psk (store_after m items) ! slot m k = items ! k)"
  using assms(2)
proof (induction items rule: rev_induct)
  case Nil
  then show ?case by (simp add: store_after_simps resumption_psk_store_new_def)
next
  case (snoc x items)
  let ?st = "store_after m items" and ?n = "length items"
  let ?st' = "store_after m (items @ [x])"
  have n: "?n < 2 ^ 64" using snoc.prems by simp
  note IH = snoc.IH [OF n]
  have max: "max_number_of_secrets ?st = m" using IH by simp
  show ?case
  proof (cases "?n < m")
    case True
    then have st: "store_resumption_psk ?st = items" "store_cursor ?st = ?n" using IH by simp_all
    have st': "store_resumption_psk ?st' = items @ [x]" "store_cursor ?st' = Suc ?n"
      "max_number_of_secrets ?st' = m"
      using True max st snoc.prems
      by (simp_all add: store_after_simps(2) resumption_psk_store_add_def usize_add_def)
    then show ?thesis using True by (simp add: slot_def)
  next
    case False
    have len: "length (store_resumption_psk ?st) = m" using IH False by (cases "?n = m") auto
    have cur: "usize_add (store_cursor ?st) 1 mod m = slot m ?n"
    proof (cases "?n = m")
      case True
      then show ?thesis using IH snoc.prems assms(1) by (simp add: usize_add_id slot_def mod_Suc)
    next
      case ne: False
      then have "store_cursor ?st = (?n - m) mod m" using IH False by simp
      moreover have "(?n - m) mod m + 1 < 2 ^ 64"
        using assms(1,3) mod_less_divisor [OF assms(1), of "?n - m"] by linarith
      ultimately show ?thesis using False by (simp add: usize_add_id slot_def mod_Suc_eq)
    qed
    have st': "store_resumption_psk ?st' = (store_resumption_psk ?st)[slot m ?n := x]"
      "store_cursor ?st' = slot m ?n" "max_number_of_secrets ?st' = m"
      using False max len cur assms(1) by (simp_all add: store_after_simps(2) resumption_psk_store_add_def Let_def)
    have "store_resumption_psk ?st' ! slot m k = (items @ [x]) ! k"
      if "k < Suc ?n" "Suc ?n < m + k \<or> k = ?n" for k
    proof (cases "k = ?n")
      case True
      then show ?thesis using st'(1) len slot_less [OF assms(1)] by simp
    next
      case ne: False
      then have "slot m k \<noteq> slot m ?n" using that False by (intro slot_distinct) auto
      then show ?thesis using st'(1) IH that ne by (simp add: nth_append)
    qed
    moreover have "slot m ?n = (Suc ?n - m) mod m" using False by (simp add: slot_def Suc_diff_le)
    ultimately show ?thesis using st' len False by auto
  qed
qed

lemma find_unique:
  assumes "x \<in> set xs" and "P x" and "\<And>y. y \<in> set xs \<Longrightarrow> P y \<Longrightarrow> y = x"
  shows "List.find P xs = Some x"
proof (cases "List.find P xs")
  case None
  then show ?thesis using assms(1,2) by (auto simp: find_None_iff)
next
  case (Some y)
  then show ?thesis using assms(3) [of y] by (auto simp: find_Some_iff)
qed

text \<open>Nothing enters the store that was not added.\<close>

lemma store_after_subset: "set (store_resumption_psk (store_after m items)) \<subseteq> set items"
proof (induction items rule: rev_induct)
  case (snoc x items)
  then show ?case
    by (auto simp: store_after_simps(2) resumption_psk_store_add_def Let_def
        dest!: subsetD [OF set_update_subset_insert] split: if_splits)
qed (simp add: store_after_simps resumption_psk_store_new_def)

lemma store_get_kept:
  assumes "distinct (map fst items)" and "item \<in> set (store_resumption_psk (store_after m items))"
  shows "resumption_psk_store_get (fst item) (store_after m items) = Some (snd item)"
proof -
  have inj: "inj_on fst (set items)" using assms(1) by (simp add: distinct_map)
  have same: "y = item" if "y \<in> set (store_resumption_psk (store_after m items))" "case y of (e, s) \<Rightarrow> e = fst item" for y
  proof (rule inj_onD [OF inj])
    show "fst y = fst item" using that(2) by (simp add: case_prod_unfold)
    show "y \<in> set items" "item \<in> set items" using that(1) assms(2) store_after_subset by blast+
  qed
  have "List.find (\<lambda>(e, s). e = fst item) (store_resumption_psk (store_after m items)) = Some item"
    by (rule find_unique [OF assms(2) _ same]) (simp_all add: case_prod_unfold)
  then show ?thesis by (simp add: resumption_psk_store_get_def)
qed

lemma store_keeps_recent:
  assumes "0 < m" and "m < 2 ^ 64" and "length items < 2 ^ 64" and "distinct (map fst items)"
    and "k < length items" and "length items < m + k \<or> k = length items - 1"
  shows "resumption_psk_store_get (fst (items ! k)) (store_after m items) = Some (snd (items ! k))"
proof (rule store_get_kept [OF assms(4)])
  note inv = store_after_inv [OF assms(1,3,2)]
  have "items ! k = store_resumption_psk (store_after m items) ! slot m k"
    using conjunct2 [OF conjunct2 [OF inv]] assms(5,6) by (metis (no_types))
  moreover have "slot m k < length (store_resumption_psk (store_after m items))"
    using inv assms(5) slot_less [OF assms(1), of k] by (auto simp: slot_def split: if_splits)
  ultimately show "items ! k \<in> set (store_resumption_psk (store_after m items))" by simp
qed

text \<open>
  The first key added to a full store replaces the second oldest key: the oldest one stays.
\<close>

lemma store_first_eviction:
  assumes "1 < m" and "m < 2 ^ 63" and "length items = Suc m" and "distinct (map fst items)"
  shows "resumption_psk_store_get (fst (items ! 0)) (store_after m items) = Some (snd (items ! 0))"
    and "resumption_psk_store_get (fst (items ! 1)) (store_after m items) = None"
proof -
  obtain xs x where items: "items = xs @ [x]" using assms(3) by (cases items rule: rev_cases) auto
  have len: "length xs = m" using assms(3) items by simp
  have inv: "max_number_of_secrets (store_after m xs) = m" "store_resumption_psk (store_after m xs) = xs"
    "store_cursor (store_after m xs) = m"
    using store_after_inv [of m xs] assms len by simp_all
  have "Suc m mod m = 1" using assms(1) by (simp add: mod_Suc)
  then have psks: "store_resumption_psk (store_after m items) = xs[1 := x]"
    using inv len assms by (simp add: items store_after_simps(2) resumption_psk_store_add_def Let_def usize_add_id)
  have "items ! 0 = xs[1 := x] ! 0" "0 < length xs" using len assms(1) by (simp_all add: items nth_append)
  then have "items ! 0 \<in> set (store_resumption_psk (store_after m items))"
    unfolding psks by (metis length_list_update nth_mem)
  then show "resumption_psk_store_get (fst (items ! 0)) (store_after m items) = Some (snd (items ! 0))"
    by (rule store_get_kept [OF assms(4)])
  have ne: "fst (xs[1 := x] ! k) \<noteq> fst (items ! 1)" if "k < length xs" for k
  proof -
    have "xs[1 := x] ! k = items ! (if k = 1 then m else k)"
      using that len by (simp add: items nth_append)
    moreover have "(if k = 1 then m else k) \<noteq> 1" "(if k = 1 then m else k) < length items"
      using that len assms(1,3) by auto
    ultimately show ?thesis
      using nth_eq_iff_index_eq [OF assms(4), of "if k = 1 then m else k" 1] assms(1,3) by (simp add: nth_map)
  qed
  then have "List.find (\<lambda>(e, s). e = fst (items ! 1)) (xs[1 := x]) = None"
    by (fastforce simp: find_None_iff in_set_conv_nth)
  then show "resumption_psk_store_get (fst (items ! 1)) (store_after m items) = None"
    by (simp add: resumption_psk_store_get_def psks)
qed

end
