(* ===== verification/Proposals.thy ===== *)
theory Proposals
  imports Key_Packages Pre_Shared_Keys Tree_Sync_Diff
begin

text \<open>
  Proposals and commits (\<open>messages/proposals.rs\<close>, \<open>messages/proposals_in.rs\<close>, \<open>messages/mod.rs\<close>), the
  checks that a received one passes before it is handed on, and the update path of a commit
  (\<open>UpdatePathIn\<close> of \<open>treesync/treekem.rs\<close>). Received values have the fields of verified ones; both
  are one type here and \<open>validate\<close> tells them apart.
\<close>

section \<open>Proposals\<close>

record message_range =
  range_sender :: bytes
  first_generation :: "32 word"
  last_generation :: "32 word"

record re_init_proposal =
  reinit_group_id :: group_id
  reinit_version :: protocol_version
  reinit_ciphersuite :: ciphersuite
  reinit_extensions :: extensions

datatype proposal =
    Add key_package
  | Update leaf_node
  | Remove nat
  | PreSharedKey pre_shared_key_id
  | ReInit re_init_proposal
  | ExternalInit bytes
  | GroupContextExtensions extensions
  | AppAck "message_range list"
  | Custom "16 word" bytes

fun proposal_type_of :: "proposal \<Rightarrow> proposal_type" where
  "proposal_type_of (Add _) = AddType"
| "proposal_type_of (Update _) = UpdateType"
| "proposal_type_of (Remove _) = RemoveType"
| "proposal_type_of (PreSharedKey _) = PreSharedKeyType"
| "proposal_type_of (ReInit _) = ReinitType"
| "proposal_type_of (ExternalInit _) = ExternalInitType"
| "proposal_type_of (GroupContextExtensions _) = GroupContextExtensionsType"
| "proposal_type_of (AppAck _) = AppAckType"
| "proposal_type_of (Custom proposal_type _) = CustomType proposal_type"

definition proposal_is_type :: "proposal \<Rightarrow> proposal_type \<Rightarrow> bool" where
  "proposal_is_type p ty = (proposal_type_of p = ty)"

definition proposal_is_path_required :: "proposal \<Rightarrow> bool" where
  "proposal_is_path_required p = proposal_type_is_path_required (proposal_type_of p)"

datatype proposal_or_ref = InlineProposal proposal | ProposalReference bytes

record commit =
  commit_proposals :: "proposal_or_ref list"
  commit_path :: "update_path option"

section \<open>Errors\<close>

datatype message_decryption_error =
    MdLibraryError library_error
  | GenerationOutOfBound
  | AeadError
  | MdWrongWireFormat
  | MalformedContent
  | MdSecretTreeError secret_tree_error
  | MdPanic

datatype update_path_error = InvalidPathType | PathSignatureError signature_error

datatype external_commit_validation_error =
    EcvLibraryError library_error
  | NoExternalInitProposals
  | MultipleExternalInitProposals
  | InvalidInlineProposals
  | MultipleRemoveProposals
  | InvalidRemoveProposal
  | EcvNoPath
  | ReferencedProposal

datatype validation_error =
    VeLibraryError library_error
  | WrongGroupId
  | WrongEpoch
  | NotACommit
  | NotAnExternalAddProposal
  | NoPath
  | UnencryptedApplicationMessage
  | VeUnknownMember
  | MissingMembershipTag
  | InvalidMembershipTag
  | MissingConfirmationTag
  | VeWrongWireFormat
  | VeInvalidSignature
  | NonMemberApplicationMessage
  | VeUnableToDecrypt message_decryption_error
  | NoPastEpochData
  | UnauthorizedExternalSender
  | NoExternalSendersExtension
  | VeKeyPackageVerifyError key_package_verify_error
  | VeUpdatePathError update_path_error
  | VeInvalidLeafNodeSignature
  | VeInvalidLeafNodeSourceType
  | InvalidSenderType
  | VeCommitterIncludedOwnUpdate
  | InvalidAddProposalCiphersuite
  | CannotDecryptOwnMessage
  | VeExternalCommitValidation external_commit_validation_error

section \<open>Validation of received proposals and commits\<close>

text \<open>
  The arguments of all checks: codecs, the signature check and the clock.
\<close>

record validation_env =
  env_leaf_codec :: leaf_codec
  env_key_package_codec :: key_package_codec
  env_verify_signature :: signature_check
  env_now :: "64 word option"

datatype sender_context = ContextMember group_id nat | ContextExternalCommit group_id nat

definition add_proposal_validate ::
  "validation_env \<Rightarrow> protocol_version \<Rightarrow> ciphersuite \<Rightarrow> key_package \<Rightarrow> validation_error + key_package" where
  "add_proposal_validate V version cs kp =
     try_bind (map_err VeKeyPackageVerifyError
       (key_package_validate (env_leaf_codec V) (env_key_package_codec V) (env_verify_signature V) (env_now V)
          version kp)) (\<lambda>key_package.
       if key_package_ciphersuite key_package \<noteq> cs then Inl InvalidAddProposalCiphersuite
       else Inr key_package)"

definition update_proposal_validate ::
  "validation_env \<Rightarrow> ciphersuite \<Rightarrow> sender_context \<Rightarrow> leaf_node \<Rightarrow> validation_error + leaf_node" where
  "update_proposal_validate V cs ctx leaf =
     (case into_verifiable_leaf_node leaf of
        VerifiableUpdate p s pos \<Rightarrow>
          (case ctx of
             ContextMember gid leaf_index \<Rightarrow>
               let v = add_tree_position \<lparr>position_group_id = gid, position_leaf_index = leaf_index\<rparr>
                         (VerifiableUpdate p s pos)
               in map_err (\<lambda>_. VeInvalidLeafNodeSignature)
                    (verifiable_verify (env_leaf_codec V) (env_verify_signature V (signature_algorithm cs))
                       (leaf_signature_key p) v)
           | ContextExternalCommit _ _ \<Rightarrow> Inl InvalidSenderType)
      | _ \<Rightarrow> Inl VeInvalidLeafNodeSourceType)"

fun proposal_validate ::
  "validation_env \<Rightarrow> ciphersuite \<Rightarrow> sender_context option \<Rightarrow> protocol_version \<Rightarrow> proposal \<Rightarrow>
   validation_error + proposal" where
  "proposal_validate V cs ctx version (Add kp) = try_bind (add_proposal_validate V version cs kp) (Inr \<circ> Add)"
| "proposal_validate V cs ctx version (Update leaf) =
     (case ctx of
        None \<Rightarrow> Inl VeCommitterIncludedOwnUpdate
      | Some sender_context \<Rightarrow> try_bind (update_proposal_validate V cs sender_context leaf) (Inr \<circ> Update))"
| "proposal_validate V cs ctx version p = Inr p"

fun proposal_or_ref_validate ::
  "validation_env \<Rightarrow> ciphersuite \<Rightarrow> protocol_version \<Rightarrow> proposal_or_ref \<Rightarrow> validation_error + proposal_or_ref" where
  "proposal_or_ref_validate V cs version (InlineProposal p) =
     try_bind (proposal_validate V cs None version p) (Inr \<circ> InlineProposal)"
| "proposal_or_ref_validate V cs version (ProposalReference r) = Inr (ProposalReference r)"

fun collect_validated ::
  "validation_env \<Rightarrow> ciphersuite \<Rightarrow> protocol_version \<Rightarrow> proposal_or_ref list \<Rightarrow>
   validation_error + proposal_or_ref list" where
  "collect_validated V cs version [] = Inr []"
| "collect_validated V cs version (p # ps) =
     try_bind (proposal_or_ref_validate V cs version p) (\<lambda>q.
     try_bind (collect_validated V cs version ps) (\<lambda>qs. Inr (q # qs)))"

definition update_path_into_verified ::
  "validation_env \<Rightarrow> ciphersuite \<Rightarrow> tree_position \<Rightarrow> update_path \<Rightarrow> update_path_error + update_path" where
  "update_path_into_verified V cs pos path =
     (case into_verifiable_leaf_node (up_leaf_node path) of
        VerifiableCommit p s q \<Rightarrow>
          try_bind (map_err PathSignatureError
            (verifiable_verify (env_leaf_codec V) (env_verify_signature V (signature_algorithm cs))
               (leaf_signature_key p) (add_tree_position pos (VerifiableCommit p s q))))
            (\<lambda>leaf_node. Inr \<lparr>up_leaf_node = leaf_node, up_nodes = up_nodes path\<rparr>)
      | _ \<Rightarrow> Inl InvalidPathType)"

fun first_removed :: "proposal_or_ref list \<Rightarrow> nat option" where
  "first_removed [] = None"
| "first_removed (InlineProposal (Remove removed) # ps) = Some removed"
| "first_removed (_ # ps) = first_removed ps"

fun commit_tree_position :: "proposal_or_ref list \<Rightarrow> sender_context \<Rightarrow> tree_position" where
  "commit_tree_position ps (ContextMember gid leaf_index) =
     \<lparr>position_group_id = gid, position_leaf_index = leaf_index\<rparr>"
| "commit_tree_position ps (ContextExternalCommit gid free_index) =
     \<lparr>position_group_id = gid, position_leaf_index =
        (case first_removed ps of
           Some removed_index \<Rightarrow> if removed_index < free_index then removed_index else free_index
         | None \<Rightarrow> free_index)\<rparr>"

definition commit_validate ::
  "validation_env \<Rightarrow> ciphersuite \<Rightarrow> sender_context \<Rightarrow> protocol_version \<Rightarrow> commit \<Rightarrow> validation_error + commit" where
  "commit_validate V cs ctx version c =
     try_bind (collect_validated V cs version (commit_proposals c)) (\<lambda>proposals.
     case commit_path c of
       None \<Rightarrow> Inr \<lparr>commit_proposals = proposals, commit_path = None\<rparr>
     | Some path \<Rightarrow>
         try_bind (map_err VeUpdatePathError
           (update_path_into_verified V cs (commit_tree_position proposals ctx) path)) (\<lambda>verified.
           Inr \<lparr>commit_proposals = proposals, commit_path = Some verified\<rparr>))"

definition commit_unverified_credential :: "commit \<Rightarrow> credential_with_key option" where
  "commit_unverified_credential c =
     map_option (\<lambda>p. \<lparr>cwk_credential = leaf_credential (leaf_payload (up_leaf_node p)),
                      cwk_signature_key = leaf_signature_key (leaf_payload (up_leaf_node p))\<rparr>)
       (commit_path c)"

section \<open>What validation lets through\<close>

text \<open>Verification hands on what it was given.\<close>

lemma verifiable_verify_parts:
  "verifiable_verify C verify pk v = Inr leaf \<Longrightarrow>
     verifiable_parts v = (leaf_payload leaf, leaf_signature leaf)"
  by (auto simp: verifiable_verify_def split: option.splits prod.splits if_splits)

lemma into_verifiable_parts [simp]:
  "verifiable_parts (into_verifiable_leaf_node leaf) = (leaf_payload leaf, leaf_signature leaf)"
  by (simp add: into_verifiable_leaf_node_def split: leaf_node_source.splits)

lemma add_tree_position_parts [simp]: "verifiable_parts (add_tree_position pos v) = verifiable_parts v"
  by (cases v) simp_all

lemma leaf_node_eqI: "leaf_payload a = leaf_payload b \<Longrightarrow> leaf_signature a = leaf_signature b \<Longrightarrow> a = b"
  for a b :: leaf_node
  by simp

lemma key_package_validate_same:
  assumes "key_package_validate C KC verify now version kp = Inr kp'"
  shows "kp' = kp"
proof -
  obtain p s leaf where v: "into_verifiable_leaf_node (key_package_leaf_node kp) = VerifiableKeyPackage p s"
    and leaf: "verifiable_verify C (verify (signature_algorithm (key_package_ciphersuite kp)))
      (leaf_signature_key (leaf_payload (key_package_leaf_node kp))) (VerifiableKeyPackage p s) = Inr leaf"
    and kp': "kp' = \<lparr>key_package_payload = (key_package_payload kp)\<lparr>kpt_leaf_node := leaf\<rparr>,
      key_package_signature = key_package_signature kp\<rparr>"
    using assms
    by (auto simp: key_package_validate_def Let_def try_bind_eq_Inr
        split: verifiable_leaf_node.splits if_splits option.splits)
  have "leaf = key_package_leaf_node kp"
    using verifiable_verify_parts [OF leaf] into_verifiable_parts [of "key_package_leaf_node kp"]
    by (simp add: v leaf_node_eqI)
  then show ?thesis by (simp add: kp')
qed

lemma update_proposal_validate_same:
  assumes "update_proposal_validate V cs ctx leaf = Inr leaf'"
  shows "leaf' = leaf" and "\<exists>gid i. ctx = ContextMember gid i" and "leaf_source (leaf_payload leaf) = SourceUpdate"
proof -
  obtain p s pos gid i where v: "into_verifiable_leaf_node leaf = VerifiableUpdate p s pos"
    and ctx: "ctx = ContextMember gid i"
    and ok: "verifiable_verify (env_leaf_codec V) (env_verify_signature V (signature_algorithm cs)) (leaf_signature_key p)
      (add_tree_position \<lparr>position_group_id = gid, position_leaf_index = i\<rparr> (VerifiableUpdate p s pos)) = Inr leaf'"
    using assms
    by (auto simp: update_proposal_validate_def Let_def split: verifiable_leaf_node.splits sender_context.splits)
  show "\<exists>gid i. ctx = ContextMember gid i" using ctx by blast
  show "leaf_source (leaf_payload leaf) = SourceUpdate"
    using v by (auto simp: into_verifiable_leaf_node_def split: leaf_node_source.splits)
  show "leaf' = leaf"
    using verifiable_verify_parts [OF ok] into_verifiable_parts [of leaf] by (simp add: v leaf_node_eqI)
qed

lemma proposal_validate_same:
  assumes "proposal_validate V cs ctx version p = Inr q"
  shows "q = p" and "proposal_type_of p = UpdateType \<Longrightarrow> \<exists>gid i. ctx = Some (ContextMember gid i)"
proof -
  have "q = p \<and> (proposal_type_of p = UpdateType \<longrightarrow> (\<exists>gid i. ctx = Some (ContextMember gid i)))"
    using assms
  proof (cases p)
    case (Add kp)
    then show ?thesis using assms key_package_validate_same
      by (fastforce simp: try_bind_eq_Inr add_proposal_validate_def split: if_splits)
  next
    case (Update leaf)
    then show ?thesis using assms update_proposal_validate_same
      by (fastforce simp: try_bind_eq_Inr split: option.splits)
  qed auto
  then show "q = p" and "proposal_type_of p = UpdateType \<Longrightarrow> \<exists>gid i. ctx = Some (ContextMember gid i)"
    by blast+
qed

lemma collect_validated_same:
  assumes "collect_validated V cs version ps = Inr qs"
  shows "qs = ps" and "InlineProposal p \<in> set ps \<Longrightarrow> proposal_type_of p \<noteq> UpdateType"
    and "InlineProposal p \<in> set ps \<Longrightarrow> proposal_validate V cs None version p = Inr p"
proof -
  have "qs = ps \<and> (\<forall>p. InlineProposal p \<in> set ps \<longrightarrow>
      proposal_type_of p \<noteq> UpdateType \<and> proposal_validate V cs None version p = Inr p)"
    using assms
  proof (induction ps arbitrary: qs)
    case (Cons x ps)
    then obtain y ys where y: "proposal_or_ref_validate V cs version x = Inr y"
      and ys: "collect_validated V cs version ps = Inr ys" and qs: "qs = y # ys"
      by (auto simp: try_bind_eq_Inr)
    have "y = x \<and> (\<forall>p. x = InlineProposal p \<longrightarrow>
        proposal_type_of p \<noteq> UpdateType \<and> proposal_validate V cs None version p = Inr p)"
      using y proposal_validate_same by (cases x) (fastforce simp: try_bind_eq_Inr)+
    then show ?case using Cons.IH [OF ys] qs by auto
  qed simp
  then show "qs = ps" and "InlineProposal p \<in> set ps \<Longrightarrow> proposal_type_of p \<noteq> UpdateType"
    and "InlineProposal p \<in> set ps \<Longrightarrow> proposal_validate V cs None version p = Inr p"
    by blast+
qed

lemma update_path_into_verified_same:
  assumes "update_path_into_verified V cs pos path = Inr path'"
  shows "path' = path" and "\<exists>ph. leaf_source (leaf_payload (up_leaf_node path)) = SourceCommit ph"
    and "verifiable_verify (env_leaf_codec V) (env_verify_signature V (signature_algorithm cs))
      (leaf_signature_key (leaf_payload (up_leaf_node path)))
      (add_tree_position pos (into_verifiable_leaf_node (up_leaf_node path))) = Inr (up_leaf_node path)"
proof -
  let ?leaf = "up_leaf_node path"
  obtain p s q leaf where v: "into_verifiable_leaf_node ?leaf = VerifiableCommit p s q"
    and ok: "verifiable_verify (env_leaf_codec V) (env_verify_signature V (signature_algorithm cs))
      (leaf_signature_key p) (add_tree_position pos (VerifiableCommit p s q)) = Inr leaf"
    and path': "path' = \<lparr>up_leaf_node = leaf, up_nodes = up_nodes path\<rparr>"
    using assms
    by (auto simp: update_path_into_verified_def try_bind_eq_Inr split: verifiable_leaf_node.splits)
  have parts: "p = leaf_payload ?leaf \<and> s = leaf_signature ?leaf"
    using into_verifiable_parts [of ?leaf] by (simp add: v)
  have leaf: "leaf = ?leaf"
    using verifiable_verify_parts [OF ok] parts by (simp add: leaf_node_eqI)
  show "path' = path" by (simp add: path' leaf)
  show "\<exists>ph. leaf_source (leaf_payload ?leaf) = SourceCommit ph"
    using v by (auto simp: into_verifiable_leaf_node_def split: leaf_node_source.splits)
  show "verifiable_verify (env_leaf_codec V) (env_verify_signature V (signature_algorithm cs))
      (leaf_signature_key (leaf_payload ?leaf)) (add_tree_position pos (into_verifiable_leaf_node ?leaf))
      = Inr ?leaf"
    using ok parts leaf by (simp add: v)
qed

end
