(* ===== verification/Framing.thy ===== *)
theory Framing
  imports Proposals
begin

text \<open>
  Message framing (\<open>framing/mod.rs\<close>, \<open>framing/sender.rs\<close>, \<open>framing/mls_content.rs\<close>,
  \<open>framing/mls_auth_content.rs\<close>, \<open>framing/mls_auth_content_in.rs\<close>, \<open>framing/mls_content_in.rs\<close>,
  \<open>framing/public_message.rs\<close>, \<open>framing/public_message_in.rs\<close>, \<open>framing/validation.rs\<close>): framed content, its
  signature, membership tags, transcript hashes and the checks on a received message. The derived
  TLS codecs are arguments; content that is sent and content that is received have the same fields
  and are one type here.
\<close>

section \<open>Content\<close>

datatype wire_format = WirePublicMessage | WirePrivateMessage | WireWelcome | WireGroupInfo | WireKeyPackage

datatype content_type = ContentApplication | ContentProposal | ContentCommit

definition content_type_try_from :: "8 word \<Rightarrow> content_type option" where
  "content_type_try_from value =
     (if value = 1 then Some ContentApplication
      else if value = 2 then Some ContentProposal
      else if value = 3 then Some ContentCommit
      else None)"

definition is_handshake_message :: "content_type \<Rightarrow> bool" where
  "is_handshake_message ty = (ty = ContentProposal \<or> ty = ContentCommit)"

fun secret_type_from :: "content_type \<Rightarrow> secret_type" where
  "secret_type_from ContentApplication = ApplicationSecret"
| "secret_type_from ContentProposal = HandshakeSecret"
| "secret_type_from ContentCommit = HandshakeSecret"

datatype sender = SenderMember nat | SenderExternal nat | NewMemberProposal | NewMemberCommit

fun sender_is_member :: "sender \<Rightarrow> bool" where
  "sender_is_member (SenderMember _) = True"
| "sender_is_member _ = False"

fun sender_as_member :: "sender \<Rightarrow> nat option" where
  "sender_as_member (SenderMember leaf_index) = Some leaf_index"
| "sender_as_member _ = None"

datatype framed_content_body = BodyApplication bytes | BodyProposal proposal | BodyCommit commit

fun body_content_type :: "framed_content_body \<Rightarrow> content_type" where
  "body_content_type (BodyApplication _) = ContentApplication"
| "body_content_type (BodyProposal _) = ContentProposal"
| "body_content_type (BodyCommit _) = ContentCommit"

record framed_content =
  fc_group_id :: group_id
  fc_epoch :: group_epoch
  fc_sender :: sender
  fc_authenticated_data :: bytes
  fc_body :: framed_content_body

record framed_content_auth_data =
  auth_signature :: bytes
  auth_confirmation_tag :: "bytes option"

record authenticated_content =
  ac_wire_format :: wire_format
  ac_content :: framed_content
  ac_auth :: framed_content_auth_data

record framed_content_tbs =
  fct_version :: protocol_version
  fct_wire_format :: wire_format
  fct_content :: framed_content
  fct_serialized_context :: "bytes option"

text \<open>The derived encodings, and the decoders that read a value off the front of a byte string.\<close>

record framing_codec =
  tls_protocol_version :: "protocol_version \<Rightarrow> bytes option"
  tls_wire_format :: "wire_format \<Rightarrow> bytes option"
  tls_framed_content :: "framed_content \<Rightarrow> bytes option"
  tls_opaque :: "bytes \<Rightarrow> bytes option"
  tls_mac :: "bytes \<Rightarrow> bytes option"
  tls_proposal :: "proposal \<Rightarrow> bytes option"
  tls_commit :: "commit \<Rightarrow> bytes option"
  tls_group_context :: "group_context \<Rightarrow> bytes option"
  tls_transcript_input :: "wire_format \<Rightarrow> framed_content \<Rightarrow> bytes \<Rightarrow> bytes option"
  framing_sign_content :: sign_content_codec
  read_opaque :: "bytes \<Rightarrow> (bytes \<times> bytes) option"
  read_mac :: "bytes \<Rightarrow> (bytes \<times> bytes) option"
  read_proposal :: "bytes \<Rightarrow> (proposal \<times> bytes) option"
  read_commit :: "bytes \<Rightarrow> (commit \<times> bytes) option"

text \<open>Concatenation of encodings, any of which may be missing.\<close>

definition enc_append :: "bytes option \<Rightarrow> bytes option \<Rightarrow> bytes option" where
  "enc_append a b = Option.bind a (\<lambda>x. map_option (\<lambda>y. x @ y) b)"

lemma enc_append_simps [simp]:
  "enc_append None b = None" "enc_append a None = None" "enc_append (Some x) (Some y) = Some (x @ y)"
  by (simp_all add: enc_append_def)

lemma enc_append_eq_Some:
  "enc_append a b = Some z \<longleftrightarrow> (\<exists>x y. a = Some x \<and> b = Some y \<and> z = x @ y)"
  by (cases a; cases b) auto

section \<open>Signatures on content\<close>

fun signs_context :: "sender \<Rightarrow> bool" where
  "signs_context (SenderMember _) = True"
| "signs_context NewMemberCommit = True"
| "signs_context _ = False"

definition framed_content_tbs_serialized ::
  "framing_codec \<Rightarrow> protocol_version \<Rightarrow> wire_format \<Rightarrow> framed_content \<Rightarrow> sender \<Rightarrow> bytes option \<Rightarrow> bytes option" where
  "framed_content_tbs_serialized F version format content sender serialized_context =
     enc_append (tls_protocol_version F version)
       (enc_append (tls_wire_format F format)
          (enc_append (tls_framed_content F content)
             (case serialized_context of
                Some context \<Rightarrow> if signs_context sender then Some context else Some []
              | None \<Rightarrow> Some [])))"

definition framed_content_tbs_new ::
  "wire_format \<Rightarrow> group_id \<Rightarrow> group_epoch \<Rightarrow> sender \<Rightarrow> bytes \<Rightarrow> framed_content_body \<Rightarrow> framed_content_tbs" where
  "framed_content_tbs_new format gid ep sender authenticated_data body =
     \<lparr>fct_version = Mls10, fct_wire_format = format,
      fct_content = \<lparr>fc_group_id = gid, fc_epoch = ep, fc_sender = sender,
                     fc_authenticated_data = authenticated_data, fc_body = body\<rparr>,
      fct_serialized_context = None\<rparr>"

definition fct_with_context :: "bytes \<Rightarrow> framed_content_tbs \<Rightarrow> framed_content_tbs" where
  "fct_with_context context tbs = tbs\<lparr>fct_serialized_context := Some context\<rparr>"

definition fct_unsigned_payload :: "framing_codec \<Rightarrow> framed_content_tbs \<Rightarrow> bytes option" where
  "fct_unsigned_payload F tbs =
     framed_content_tbs_serialized F (fct_version tbs) (fct_wire_format tbs) (fct_content tbs)
       (fc_sender (fct_content tbs)) (fct_serialized_context tbs)"

definition framed_content_label :: string where
  "framed_content_label = ''FramedContentTBS''"

definition framed_content_sign ::
  "framing_codec \<Rightarrow> signer \<Rightarrow> framed_content_tbs \<Rightarrow> signature_error + authenticated_content" where
  "framed_content_sign F signer tbs =
     try_bind (signable_sign (framing_sign_content F) signer framed_content_label (fct_unsigned_payload F tbs))
       (\<lambda>signature.
          Inr \<lparr>ac_wire_format = fct_wire_format tbs, ac_content = fct_content tbs,
               ac_auth = \<lparr>auth_signature = signature, auth_confirmation_tag = None\<rparr>\<rparr>)"

definition new_and_sign ::
  "framing_codec \<Rightarrow> signer \<Rightarrow> bytes \<Rightarrow> wire_format \<Rightarrow> sender \<Rightarrow> framed_content_body \<Rightarrow> group_context \<Rightarrow>
   library_error + authenticated_content" where
  "new_and_sign F signer aad format sender body context =
     (let content_tbs = framed_content_tbs_new format (gc_group_id context) (gc_epoch context) sender aad body in
      try_bind
        (if signs_context sender then
           (case tls_group_context F context of
              None \<Rightarrow> Inl MissingBoundCheck
            | Some serialized_context \<Rightarrow> Inr (fct_with_context serialized_context content_tbs))
         else Inr content_tbs)
        (\<lambda>content_tbs. map_err (\<lambda>_. CustomError ''Signing failed'') (framed_content_sign F signer content_tbs)))"

definition new_application ::
  "framing_codec \<Rightarrow> signer \<Rightarrow> nat \<Rightarrow> bytes \<Rightarrow> bytes \<Rightarrow> group_context \<Rightarrow> library_error + authenticated_content" where
  "new_application F signer sender_leaf_index authenticated_data application_message context =
     new_and_sign F signer authenticated_data WirePrivateMessage (SenderMember sender_leaf_index)
       (BodyApplication application_message) context"

definition member_proposal ::
  "framing_codec \<Rightarrow> signer \<Rightarrow> bytes \<Rightarrow> wire_format \<Rightarrow> nat \<Rightarrow> proposal \<Rightarrow> group_context \<Rightarrow>
   library_error + authenticated_content" where
  "member_proposal F signer aad format sender_leaf_index p context =
     new_and_sign F signer aad format (SenderMember sender_leaf_index) (BodyProposal p) context"

definition new_join_proposal ::
  "framing_codec \<Rightarrow> signer \<Rightarrow> proposal \<Rightarrow> group_id \<Rightarrow> group_epoch \<Rightarrow> library_error + authenticated_content" where
  "new_join_proposal F signer p gid ep =
     map_err (\<lambda>_. CustomError ''Signing failed'')
       (framed_content_sign F signer
          (framed_content_tbs_new WirePublicMessage gid ep NewMemberProposal [] (BodyProposal p)))"

definition new_external_proposal ::
  "framing_codec \<Rightarrow> signer \<Rightarrow> proposal \<Rightarrow> group_id \<Rightarrow> group_epoch \<Rightarrow> nat \<Rightarrow> library_error + authenticated_content" where
  "new_external_proposal F signer p gid ep sender_index =
     map_err (\<lambda>_. CustomError ''Signing failed'')
       (framed_content_sign F signer
          (framed_content_tbs_new WirePublicMessage gid ep (SenderExternal sender_index) [] (BodyProposal p)))"

definition authenticated_commit ::
  "framing_codec \<Rightarrow> signer \<Rightarrow> bytes \<Rightarrow> wire_format \<Rightarrow> sender \<Rightarrow> commit \<Rightarrow> group_context \<Rightarrow>
   library_error + authenticated_content" where
  "authenticated_commit F signer aad format sender c context =
     new_and_sign F signer aad format sender (BodyCommit c) context"

definition set_confirmation_tag :: "bytes \<Rightarrow> authenticated_content \<Rightarrow> authenticated_content" where
  "set_confirmation_tag tag ac = ac\<lparr>ac_auth := (ac_auth ac)\<lparr>auth_confirmation_tag := Some tag\<rparr>\<rparr>"

definition auth_data_serialize :: "framing_codec \<Rightarrow> framed_content_auth_data \<Rightarrow> bytes option" where
  "auth_data_serialize F auth =
     enc_append (tls_opaque F (auth_signature auth))
       (case auth_confirmation_tag auth of Some tag \<Rightarrow> tls_mac F tag | None \<Rightarrow> Some [])"

definition auth_data_deserialize ::
  "framing_codec \<Rightarrow> content_type \<Rightarrow> bytes \<Rightarrow> (framed_content_auth_data \<times> bytes) option" where
  "auth_data_deserialize F ty bs =
     Option.bind (read_opaque F bs) (\<lambda>(signature, bs).
       if ty = ContentCommit
       then Option.bind (read_mac F bs) (\<lambda>(tag, bs).
              Some (\<lparr>auth_signature = signature, auth_confirmation_tag = Some tag\<rparr>, bs))
       else Some (\<lparr>auth_signature = signature, auth_confirmation_tag = None\<rparr>, bs))"

section \<open>Transcript hashes\<close>

definition calculate_confirmed_transcript_hash ::
  "crypto_provider \<Rightarrow> framing_codec \<Rightarrow> ciphersuite \<Rightarrow> bytes \<Rightarrow> wire_format \<Rightarrow> framed_content \<Rightarrow> bytes \<Rightarrow>
   library_error + bytes" where
  "calculate_confirmed_transcript_hash P F cs interim_transcript_hash format content signature =
     (case tls_transcript_input F format content signature of
        None \<Rightarrow> Inl MissingBoundCheck
      | Some serialized \<Rightarrow>
          map_err (\<lambda>_. UnexpectedCryptoError)
            (hash_prim P (hash_algorithm cs) (interim_transcript_hash @ serialized)))"

definition calculate_interim_transcript_hash ::
  "crypto_provider \<Rightarrow> framing_codec \<Rightarrow> ciphersuite \<Rightarrow> bytes \<Rightarrow> bytes \<Rightarrow> library_error + bytes" where
  "calculate_interim_transcript_hash P F cs confirmed_transcript_hash confirmation_tag =
     (case tls_mac F confirmation_tag of
        None \<Rightarrow> Inl MissingBoundCheck
      | Some serialized \<Rightarrow>
          map_err (\<lambda>_. UnexpectedCryptoError)
            (hash_prim P (hash_algorithm cs) (confirmed_transcript_hash @ serialized)))"

definition update_confirmed_transcript_hash ::
  "crypto_provider \<Rightarrow> framing_codec \<Rightarrow> bytes \<Rightarrow> authenticated_content \<Rightarrow> group_context \<Rightarrow>
   library_error + group_context" where
  "update_confirmed_transcript_hash P F interim_transcript_hash ac gc =
     (if body_content_type (fc_body (ac_content ac)) \<noteq> ContentCommit
      then Inl (CustomError ''PublicMessage did not contain a commit'')
      else
        try_bind (calculate_confirmed_transcript_hash P F (gc_ciphersuite gc) interim_transcript_hash
          (ac_wire_format ac) (ac_content ac) (auth_signature (ac_auth ac))) (\<lambda>hash.
          Inr (gc\<lparr>gc_confirmed_transcript_hash := hash\<rparr>)))"

section \<open>Public messages\<close>

record public_message =
  pm_content :: framed_content
  pm_auth :: framed_content_auth_data
  pm_membership_tag :: "bytes option"

definition public_message_from :: "authenticated_content \<Rightarrow> public_message" where
  "public_message_from ac = \<lparr>pm_content = ac_content ac, pm_auth = ac_auth ac, pm_membership_tag = None\<rparr>"

definition tbm_payload ::
  "framing_codec \<Rightarrow> public_message \<Rightarrow> bytes \<Rightarrow> library_error + bytes option" where
  "tbm_payload F m serialized_context =
     (case framed_content_tbs_serialized F Mls10 WirePublicMessage (pm_content m) (fc_sender (pm_content m))
             (Some serialized_context) of
        None \<Rightarrow> Inl MissingBoundCheck
      | Some payload \<Rightarrow> Inr (map_option (\<lambda>auth. payload @ auth) (auth_data_serialize F (pm_auth m))))"

definition set_membership_tag ::
  "crypto_provider \<Rightarrow> framing_codec \<Rightarrow> ciphersuite \<Rightarrow> bytes \<Rightarrow> bytes \<Rightarrow> public_message \<Rightarrow>
   library_error + public_message" where
  "set_membership_tag P F cs membership_key serialized_context m =
     try_bind (tbm_payload F m serialized_context) (\<lambda>payload.
     try_bind (membership_key_tag_message P cs membership_key payload) (\<lambda>tag.
       Inr (m\<lparr>pm_membership_tag := Some tag\<rparr>)))"

text \<open>The tags are compared by the equality of MACs.\<close>

definition verify_membership ::
  "crypto_provider \<Rightarrow> framing_codec \<Rightarrow> ciphersuite \<Rightarrow> bytes \<Rightarrow> bytes \<Rightarrow> public_message \<Rightarrow> validation_error + unit" where
  "verify_membership P F cs membership_key serialized_context m =
     try_bind (map_err VeLibraryError (tbm_payload F m serialized_context)) (\<lambda>payload.
     try_bind (map_err VeLibraryError (membership_key_tag_message P cs membership_key payload))
       (\<lambda>expected_membership_tag.
     case pm_membership_tag m of
       Some membership_tag \<Rightarrow>
         if \<not> mac_eq membership_tag expected_membership_tag then Inl InvalidMembershipTag else Inr ()
     | None \<Rightarrow> Inl MissingMembershipTag))"

section \<open>Checks on a received message\<close>

record verifiable_content =
  vc_tbs :: framed_content_tbs
  vc_auth :: framed_content_auth_data

definition verifiable_content_new ::
  "wire_format \<Rightarrow> framed_content \<Rightarrow> bytes option \<Rightarrow> framed_content_auth_data \<Rightarrow> verifiable_content" where
  "verifiable_content_new format content serialized_context auth =
     \<lparr>vc_tbs = \<lparr>fct_version = Mls10, fct_wire_format = format, fct_content = content,
               fct_serialized_context = serialized_context\<rparr>,
      vc_auth = auth\<rparr>"

definition new_member_credential :: "verifiable_content \<Rightarrow> validation_error + credential_with_key" where
  "new_member_credential vc =
     (let content = fct_content (vc_tbs vc) in
      case fc_sender content of
        NewMemberCommit \<Rightarrow>
          (case fc_body content of
             BodyCommit c \<Rightarrow>
               (case commit_unverified_credential c of None \<Rightarrow> Inl NoPath | Some cwk \<Rightarrow> Inr cwk)
           | _ \<Rightarrow> Inl NotACommit)
      | NewMemberProposal \<Rightarrow>
          (case fc_body content of
             BodyProposal (Add kp) \<Rightarrow> Inr (key_package_unverified_credential kp)
           | _ \<Rightarrow> Inl NotAnExternalAddProposal)
      | _ \<Rightarrow> Inl VeUnknownMember)"

definition verifiable_content_verify ::
  "framing_codec \<Rightarrow> (bytes \<Rightarrow> bytes \<Rightarrow> bytes \<Rightarrow> bool) \<Rightarrow> bytes \<Rightarrow> verifiable_content \<Rightarrow>
   signature_error + authenticated_content" where
  "verifiable_content_verify F verify_signature pk vc =
     try_bind (verify_no_out (framing_sign_content F) verify_signature pk framed_content_label
       (fct_unsigned_payload F (vc_tbs vc)) (auth_signature (vc_auth vc))) (\<lambda>_.
       Inr \<lparr>ac_wire_format = fct_wire_format (vc_tbs vc), ac_content = fct_content (vc_tbs vc),
            ac_auth = vc_auth vc\<rparr>)"

text \<open>\<open>DecryptedMessage::from_verifiable_content\<close>: the wrapped content is returned as it is.\<close>

definition from_verifiable_content :: "verifiable_content \<Rightarrow> validation_error + verifiable_content" where
  "from_verifiable_content vc =
     (let content = fct_content (vc_tbs vc); ty = body_content_type (fc_body content) in
      if ty = ContentCommit \<and> auth_confirmation_tag (vc_auth vc) = None then Inl MissingConfirmationTag
      else if ty = ContentApplication then
        (if fct_wire_format (vc_tbs vc) \<noteq> WirePrivateMessage then Inl UnencryptedApplicationMessage
         else if \<not> sender_is_member (fc_sender content)
         then Inl (VeLibraryError (CustomError ''Expected sender to be member.''))
         else Inr vc)
      else Inr vc)"

definition from_inbound_public_message ::
  "crypto_provider \<Rightarrow> framing_codec \<Rightarrow> ciphersuite \<Rightarrow> message_secrets option \<Rightarrow> bytes \<Rightarrow> public_message \<Rightarrow>
   validation_error + verifiable_content" where
  "from_inbound_public_message P F cs message_secrets_option serialized_context m =
     try_bind
       (if sender_is_member (fc_sender (pm_content m)) then
          if pm_membership_tag m = None then Inl MissingMembershipTag
          else (case message_secrets_option of
                  Some ms \<Rightarrow> verify_membership P F cs (ms_membership_key ms) (ms_serialized_context ms) m
                | None \<Rightarrow> Inr ())
        else Inr ())
       (\<lambda>_. from_verifiable_content
              (verifiable_content_new WirePublicMessage (pm_content m) (Some serialized_context) (pm_auth m)))"

definition message_credential ::
  "(nat \<Rightarrow> credential_with_key option) \<Rightarrow> external_sender list option \<Rightarrow> verifiable_content \<Rightarrow>
   validation_error + credential_with_key" where
  "message_credential look_up_credential_with_key external_senders vc =
     (case fc_sender (fct_content (vc_tbs vc)) of
        SenderMember leaf_index \<Rightarrow>
          (case look_up_credential_with_key leaf_index of None \<Rightarrow> Inl VeUnknownMember | Some cwk \<Rightarrow> Inr cwk)
      | SenderExternal index \<Rightarrow>
          (case external_senders of
             None \<Rightarrow> Inl NoExternalSendersExtension
           | Some senders \<Rightarrow>
               (case vec_get senders index of
                  None \<Rightarrow> Inl UnauthorizedExternalSender
                | Some s \<Rightarrow> Inr \<lparr>cwk_credential = external_credential s,
                                cwk_signature_key = external_signature_key s\<rparr>))
      | _ \<Rightarrow> new_member_credential vc)"

fun body_validate ::
  "validation_env \<Rightarrow> ciphersuite \<Rightarrow> sender_context option \<Rightarrow> protocol_version \<Rightarrow> framed_content_body \<Rightarrow>
   validation_error + framed_content_body" where
  "body_validate V cs ctx version (BodyApplication bs) = Inr (BodyApplication bs)"
| "body_validate V cs ctx version (BodyProposal p) =
     try_bind (proposal_validate V cs ctx version p) (Inr \<circ> BodyProposal)"
| "body_validate V cs ctx version (BodyCommit c) =
     (case ctx of
        None \<Rightarrow> Inl (VeLibraryError (CustomError ''Forgot the commit sender context''))
      | Some sender_context \<Rightarrow> try_bind (commit_validate V cs sender_context version c) (Inr \<circ> BodyCommit))"

definition authenticated_content_validate ::
  "validation_env \<Rightarrow> ciphersuite \<Rightarrow> sender_context option \<Rightarrow> protocol_version \<Rightarrow> authenticated_content \<Rightarrow>
   validation_error + authenticated_content" where
  "authenticated_content_validate V cs ctx version ac =
     try_bind (body_validate V cs ctx version (fc_body (ac_content ac))) (\<lambda>body.
       Inr (ac\<lparr>ac_content := (ac_content ac)\<lparr>fc_body := body\<rparr>\<rparr>))"

record unverified_message =
  um_verifiable_content :: verifiable_content
  um_credential :: credential
  um_sender_pk :: bytes
  um_sender_context :: "sender_context option"

definition unverified_message_verify ::
  "framing_codec \<Rightarrow> validation_env \<Rightarrow> ciphersuite \<Rightarrow> protocol_version \<Rightarrow> unverified_message \<Rightarrow>
   validation_error + authenticated_content \<times> credential" where
  "unverified_message_verify F V cs version um =
     try_bind (map_err (\<lambda>_. VeInvalidSignature)
       (verifiable_content_verify F (env_verify_signature V (signature_algorithm cs)) (um_sender_pk um)
          (um_verifiable_content um))) (\<lambda>content.
     try_bind (authenticated_content_validate V cs (um_sender_context um) version content) (\<lambda>content.
       Inr (content, um_credential um)))"

section \<open>Content that was signed verifies\<close>

lemma new_and_sign_content:
  assumes "new_and_sign F signer aad format sender body context = Inr ac"
  shows "ac_wire_format ac = format"
    and "ac_content ac = \<lparr>fc_group_id = gc_group_id context, fc_epoch = gc_epoch context, fc_sender = sender,
      fc_authenticated_data = aad, fc_body = body\<rparr>"
    and "auth_confirmation_tag (ac_auth ac) = None"
  using assms
  by (auto simp: new_and_sign_def Let_def try_bind_eq_Inr framed_content_sign_def framed_content_tbs_new_def
      fct_with_context_def split: if_splits option.splits)

lemma new_and_sign_verifies:
  assumes signed: "new_and_sign F signer aad format sender body context = Inr ac"
    and ctx: "tls_group_context F context = Some serialized_context"
    and sig: "\<And>m s. signer_sign signer m = Some s \<Longrightarrow> verify_signature pk m s"
    and auth: "auth_signature auth = auth_signature (ac_auth ac)"
  shows "verifiable_content_verify F verify_signature pk
      (verifiable_content_new format (ac_content ac) (Some serialized_context) auth)
    = Inr \<lparr>ac_wire_format = format, ac_content = ac_content ac, ac_auth = auth\<rparr>"
proof -
  let ?tbs = "framed_content_tbs_new format (gc_group_id context) (gc_epoch context) sender aad body"
  let ?signed = "if signs_context sender then fct_with_context serialized_context ?tbs else ?tbs"
  have s: "signable_sign (framing_sign_content F) signer framed_content_label (fct_unsigned_payload F ?signed)
      = Inr (auth_signature (ac_auth ac))"
    and c: "ac_content ac = fct_content ?tbs"
    using signed ctx
    by (auto simp: new_and_sign_def Let_def try_bind_eq_Inr framed_content_sign_def fct_with_context_def
        split: if_splits)
  have "fct_unsigned_payload F (vc_tbs (verifiable_content_new format (ac_content ac) (Some serialized_context) auth))
      = fct_unsigned_payload F ?signed"
    by (simp add: c verifiable_content_new_def fct_unsigned_payload_def framed_content_tbs_serialized_def
        framed_content_tbs_new_def fct_with_context_def)
  then show ?thesis
    using signable_sign_verify [OF s, of verify_signature pk, OF sig] auth
    by (simp add: verifiable_content_verify_def verifiable_content_new_def)
qed

section \<open>Membership tags\<close>

lemma tbm_payload_tag [simp]: "tbm_payload F (m\<lparr>pm_membership_tag := t\<rparr>) sc = tbm_payload F m sc"
  by (simp add: tbm_payload_def cong: option.case_cong)

lemma verify_membership_eq:
  assumes "tbm_payload F m sc = Inr payload" and "membership_key_tag_message P cs key payload = Inr expected"
  shows "verify_membership P F cs key sc (m\<lparr>pm_membership_tag := t\<rparr>) =
    (case t of
       None \<Rightarrow> Inl MissingMembershipTag
     | Some tag \<Rightarrow>
         if take (min (length tag) (length expected)) tag = take (min (length tag) (length expected)) expected
         then Inr () else Inl InvalidMembershipTag)"
  using assms by (simp add: verify_membership_def mac_eq_def equal_ct_iff split: option.split)

lemma set_membership_tag_eq:
  "set_membership_tag P F cs key sc m = Inr m' \<longleftrightarrow>
     (\<exists>payload tag. tbm_payload F m sc = Inr payload \<and> membership_key_tag_message P cs key payload = Inr tag \<and>
        m' = m\<lparr>pm_membership_tag := Some tag\<rparr>)"
  by (auto simp: set_membership_tag_def try_bind_eq_Inr)

lemma membership_tag_verifies:
  assumes "set_membership_tag P F cs key sc m = Inr m'"
  shows "verify_membership P F cs key sc m' = Inr ()"
    and "verify_membership P F cs key sc (m'\<lparr>pm_membership_tag := Some (take n (the (pm_membership_tag m')))\<rparr>) = Inr ()"
proof -
  obtain payload tag where p: "tbm_payload F m sc = Inr payload"
    "membership_key_tag_message P cs key payload = Inr tag" "m' = m\<lparr>pm_membership_tag := Some tag\<rparr>"
    using assms by (auto simp: set_membership_tag_eq)
  show "verify_membership P F cs key sc m' = Inr ()"
    using verify_membership_eq [OF p(1,2), of "Some tag"] by (simp add: p(3))
  show "verify_membership P F cs key sc (m'\<lparr>pm_membership_tag := Some (take n (the (pm_membership_tag m')))\<rparr>) = Inr ()"
    using verify_membership_eq [OF p(1,2), of "Some (take n tag)"] by (simp add: p(3) min_def)
qed

section \<open>What a verified message has passed\<close>

lemma body_validate_same:
  assumes "body_validate V cs ctx version body = Inr body'"
  shows "body' = body"
proof (cases body)
  case (BodyProposal p)
  then show ?thesis using assms proposal_validate_same(1) by (fastforce simp: try_bind_eq_Inr)
next
  case (BodyCommit c)
  then obtain sc c' where c: "ctx = Some sc" "commit_validate V cs sc version c = Inr c'" "body' = BodyCommit c'"
    using assms by (auto simp: try_bind_eq_Inr split: option.splits)
  obtain ps where ps: "collect_validated V cs version (commit_proposals c) = Inr ps"
    and rest: "(case commit_path c of None \<Rightarrow> Inr \<lparr>commit_proposals = ps, commit_path = None\<rparr>
      | Some path \<Rightarrow> try_bind (map_err VeUpdatePathError
           (update_path_into_verified V cs (commit_tree_position ps sc) path)) (\<lambda>verified.
           Inr \<lparr>commit_proposals = ps, commit_path = Some verified\<rparr>)) = Inr c'"
    using c(2) by (auto simp: commit_validate_def try_bind_eq_Inr)
  have "c' = c"
    using rest collect_validated_same(1) [OF ps] update_path_into_verified_same(1)
    by (cases "commit_path c") (fastforce simp: try_bind_eq_Inr)+
  then show ?thesis by (simp add: BodyCommit c)
qed (use assms in simp)

lemma commit_validate_facts:
  assumes "commit_validate V cs sc version c = Inr c'"
  shows "InlineProposal p \<in> set (commit_proposals c) \<Longrightarrow> proposal_type_of p \<noteq> UpdateType"
    and "InlineProposal p \<in> set (commit_proposals c) \<Longrightarrow> proposal_validate V cs None version p = Inr p"
    and "commit_path c = Some path \<Longrightarrow>
      update_path_into_verified V cs (commit_tree_position (commit_proposals c) sc) path = Inr path"
proof -
  obtain ps where ps: "collect_validated V cs version (commit_proposals c) = Inr ps"
    using assms by (auto simp: commit_validate_def try_bind_eq_Inr)
  note same = collect_validated_same [OF ps]
  show "InlineProposal p \<in> set (commit_proposals c) \<Longrightarrow> proposal_type_of p \<noteq> UpdateType"
    and "InlineProposal p \<in> set (commit_proposals c) \<Longrightarrow> proposal_validate V cs None version p = Inr p"
    using same(2,3) by blast+
  show "update_path_into_verified V cs (commit_tree_position (commit_proposals c) sc) path = Inr path"
    if "commit_path c = Some path"
    using assms that same(1) ps update_path_into_verified_same(1)
    by (fastforce simp: commit_validate_def try_bind_eq_Inr)
qed

lemma unverified_message_verify_facts:
  assumes "unverified_message_verify F V cs version um = Inr (ac, cred)"
  shows "ac = \<lparr>ac_wire_format = fct_wire_format (vc_tbs (um_verifiable_content um)),
      ac_content = fct_content (vc_tbs (um_verifiable_content um)), ac_auth = vc_auth (um_verifiable_content um)\<rparr>"
    and "\<exists>payload content. fct_unsigned_payload F (vc_tbs (um_verifiable_content um)) = Some payload \<and>
      framing_sign_content F framed_content_label payload = Some content \<and>
      env_verify_signature V (signature_algorithm cs) (um_sender_pk um) content (auth_signature (ac_auth ac))"
    and "body_validate V cs (um_sender_context um) version (fc_body (ac_content ac)) = Inr (fc_body (ac_content ac))"
proof -
  obtain ac1 where v: "verifiable_content_verify F (env_verify_signature V (signature_algorithm cs))
      (um_sender_pk um) (um_verifiable_content um) = Inr ac1"
    and w: "authenticated_content_validate V cs (um_sender_context um) version ac1 = Inr ac"
    using assms by (auto simp: unverified_message_verify_def try_bind_eq_Inr)
  obtain body where b: "body_validate V cs (um_sender_context um) version (fc_body (ac_content ac1)) = Inr body"
    and ac: "ac = ac1\<lparr>ac_content := (ac_content ac1)\<lparr>fc_body := body\<rparr>\<rparr>"
    using w by (auto simp: authenticated_content_validate_def try_bind_eq_Inr)
  have same: "body = fc_body (ac_content ac1)" by (rule body_validate_same [OF b])
  then have ac1: "ac = ac1" using ac by simp
  show "ac = \<lparr>ac_wire_format = fct_wire_format (vc_tbs (um_verifiable_content um)),
      ac_content = fct_content (vc_tbs (um_verifiable_content um)), ac_auth = vc_auth (um_verifiable_content um)\<rparr>"
    using v unfolding ac1 by (auto simp: verifiable_content_verify_def try_bind_eq_Inr)
  show "\<exists>payload content. fct_unsigned_payload F (vc_tbs (um_verifiable_content um)) = Some payload \<and>
      framing_sign_content F framed_content_label payload = Some content \<and>
      env_verify_signature V (signature_algorithm cs) (um_sender_pk um) content (auth_signature (ac_auth ac))"
    using v unfolding ac1
    by (auto simp: verifiable_content_verify_def verify_no_out_def try_bind_eq_Inr split: option.splits if_splits)
  show "body_validate V cs (um_sender_context um) version (fc_body (ac_content ac)) = Inr (fc_body (ac_content ac))"
    using b same ac1 by simp
qed

end
