(* ===== verification/Private_Messages.thy ===== *)
theory Private_Messages
  imports Framing
begin

text \<open>
  Private messages (\<open>framing/private_message.rs\<close>, \<open>framing/private_message_in.rs\<close>, \<open>framing/codec.rs\<close>,
  \<open>MlsSenderData\<close> of \<open>framing/sender.rs\<close>): encryption of content under a key of the secret tree and of
  the sender data under a key that depends on the ciphertext, and the way back.
\<close>

section \<open>State and codecs\<close>

record mls_sender_data =
  sd_leaf_index :: nat
  sd_generation :: "32 word"
  sd_reuse_guard :: bytes

record private_message =
  prm_group_id :: group_id
  prm_epoch :: group_epoch
  prm_content_type :: content_type
  prm_authenticated_data :: bytes
  prm_encrypted_sender_data :: bytes
  prm_ciphertext :: bytes

record private_codec =
  tls_private_content_aad :: "group_id \<Rightarrow> group_epoch \<Rightarrow> content_type \<Rightarrow> bytes \<Rightarrow> bytes option"
  tls_sender_data_aad :: "group_id \<Rightarrow> group_epoch \<Rightarrow> content_type \<Rightarrow> bytes option"
  tls_sender_data :: "mls_sender_data \<Rightarrow> bytes option"
  read_sender_data :: "bytes \<Rightarrow> mls_sender_data option"

datatype message_encryption_error =
    MeLibraryError library_error
  | MeWrongWireFormat
  | MeSecretTreeError secret_tree_error
  | MeStorageError
  | MePanic

fun encryption_derive_error :: "derive_error \<Rightarrow> message_encryption_error" where
  "encryption_derive_error (DeriveCryptoError _) = MeLibraryError UnexpectedCryptoError"
| "encryption_derive_error DerivePanic = MePanic"

fun decryption_derive_error :: "derive_error \<Rightarrow> message_decryption_error" where
  "decryption_derive_error (DeriveCryptoError _) = MdLibraryError UnexpectedCryptoError"
| "decryption_derive_error DerivePanic = MdPanic"

text \<open>A missing encoding is an error.\<close>

definition ok_or :: "'e \<Rightarrow> 'a option \<Rightarrow> 'e + 'a" where
  "ok_or e r = (case r of None \<Rightarrow> Inl e | Some x \<Rightarrow> Inr x)"

lemma ok_or_simps [simp]: "ok_or e None = Inl e" "ok_or e (Some x) = Inr x"
  by (simp_all add: ok_or_def)

lemma ok_or_eq_Inr [simp]: "ok_or e r = Inr x \<longleftrightarrow> r = Some x"
  by (cases r) simp_all

section \<open>Encryption\<close>

fun serialize_without_type :: "framing_codec \<Rightarrow> framed_content_body \<Rightarrow> bytes option" where
  "serialize_without_type F (BodyApplication a) = tls_opaque F a"
| "serialize_without_type F (BodyProposal p) = tls_proposal F p"
| "serialize_without_type F (BodyCommit c) = tls_commit F c"

definition padding_length :: "nat \<Rightarrow> nat \<Rightarrow> nat \<Rightarrow> nat" where
  "padding_length padding_size plaintext_length mac_len =
     (if padding_size > 0
      then (padding_size - (plaintext_length + mac_len) mod padding_size) mod padding_size
      else 0)"

definition encode_padded_ciphertext_content_detached ::
  "framing_codec \<Rightarrow> authenticated_content \<Rightarrow> nat \<Rightarrow> nat \<Rightarrow> bytes option" where
  "encode_padded_ciphertext_content_detached F ac padding_size mac_len =
     Option.bind (serialize_without_type F (fc_body (ac_content ac))) (\<lambda>content.
     Option.bind (auth_data_serialize F (ac_auth ac)) (\<lambda>auth.
       Some (content @ auth @ replicate (padding_length padding_size (length content + length auth) mac_len) 0)))"

text \<open>The part of \<open>encrypt_content\<close> after the key has been drawn from the secret tree.\<close>

definition seal_content ::
  "crypto_provider \<Rightarrow> framing_codec \<Rightarrow> private_codec \<Rightarrow> crypto_error + bytes \<Rightarrow> authenticated_content \<Rightarrow>
   ciphersuite \<Rightarrow> nat \<Rightarrow> bytes \<Rightarrow> nat \<Rightarrow> bytes \<Rightarrow> 32 word \<Rightarrow> aead_key \<Rightarrow> bytes \<Rightarrow>
   message_encryption_error + private_message" where
  "seal_content P F Q random_guard ac cs padding_size sender_data_secret sender_index content_aad
     generation ratchet_key ratchet_nonce =
     (let content = ac_content ac; ty = body_content_type (fc_body content) in
      try_bind (map_err (\<lambda>_. MeLibraryError UnexpectedCryptoError) random_guard) (\<lambda>reuse_guard.
      let prepared_nonce = xor_with_reuse_guard ratchet_nonce reuse_guard in
      try_bind (ok_or (MeLibraryError MissingBoundCheck)
        (encode_padded_ciphertext_content_detached F ac padding_size (mac_length cs))) (\<lambda>plaintext.
      try_bind (map_err (\<lambda>_. MeLibraryError UnexpectedCryptoError)
        (aead_seal P ratchet_key plaintext content_aad prepared_nonce)) (\<lambda>ciphertext.
      try_bind (map_err encryption_derive_error (sender_data_aead_key P cs sender_data_secret ciphertext))
        (\<lambda>sender_data_key.
      try_bind (map_err encryption_derive_error (sender_data_aead_nonce P cs sender_data_secret ciphertext))
        (\<lambda>sender_data_nonce.
      try_bind (ok_or (MeLibraryError MissingBoundCheck)
        (tls_sender_data_aad Q (fc_group_id content) (fc_epoch content) ty)) (\<lambda>sender_data_aad.
      try_bind (ok_or (MeLibraryError MissingBoundCheck)
        (tls_sender_data Q \<lparr>sd_leaf_index = sender_index, sd_generation = generation,
                            sd_reuse_guard = reuse_guard\<rparr>)) (\<lambda>sender_data.
      try_bind (map_err (\<lambda>_. MeLibraryError UnexpectedCryptoError)
        (aead_seal P sender_data_key sender_data sender_data_aad sender_data_nonce))
        (\<lambda>encrypted_sender_data.
        Inr \<lparr>prm_group_id = fc_group_id content, prm_epoch = fc_epoch content, prm_content_type = ty,
             prm_authenticated_data = fc_authenticated_data content,
             prm_encrypted_sender_data = encrypted_sender_data, prm_ciphertext = ciphertext\<rparr>)))))))))"

definition encrypt_content ::
  "crypto_provider \<Rightarrow> framing_codec \<Rightarrow> private_codec \<Rightarrow> crypto_error + bytes \<Rightarrow> authenticated_content \<Rightarrow>
   ciphersuite \<Rightarrow> nat \<Rightarrow> message_secrets \<Rightarrow>
   (message_encryption_error + private_message) \<times> message_secrets" where
  "encrypt_content P F Q random_guard ac cs padding_size ms =
     (let content = ac_content ac; ty = body_content_type (fc_body content) in
      case sender_as_member (fc_sender content) of
        None \<Rightarrow> (Inl (MeLibraryError (CustomError ''Sender is not a member.'')), ms)
      | Some sender_index \<Rightarrow>
          (case tls_private_content_aad Q (fc_group_id content) (fc_epoch content) ty
                  (fc_authenticated_data content) of
             None \<Rightarrow> (Inl (MeLibraryError MissingBoundCheck), ms)
           | Some content_aad \<Rightarrow>
               (case secret_for_encryption P cs sender_index (secret_type_from ty) (ms_secret_tree ms) of
                  (Inl e, tree) \<Rightarrow> (Inl (MeSecretTreeError e), ms\<lparr>ms_secret_tree := tree\<rparr>)
                | (Inr (generation, ratchet_key, ratchet_nonce), tree) \<Rightarrow>
                    (seal_content P F Q random_guard ac cs padding_size (ms_sender_data_secret ms)
                       sender_index content_aad generation ratchet_key ratchet_nonce,
                     ms\<lparr>ms_secret_tree := tree\<rparr>))))"

definition try_from_authenticated_content ::
  "crypto_provider \<Rightarrow> framing_codec \<Rightarrow> private_codec \<Rightarrow> crypto_error + bytes \<Rightarrow> authenticated_content \<Rightarrow>
   ciphersuite \<Rightarrow> nat \<Rightarrow> message_secrets \<Rightarrow>
   (message_encryption_error + private_message) \<times> message_secrets" where
  "try_from_authenticated_content P F Q random_guard ac cs padding_size ms =
     (if ac_wire_format ac \<noteq> WirePrivateMessage then (Inl MeWrongWireFormat, ms)
      else encrypt_content P F Q random_guard ac cs padding_size ms)"

section \<open>Decryption\<close>

definition sender_data ::
  "crypto_provider \<Rightarrow> private_codec \<Rightarrow> ciphersuite \<Rightarrow> message_secrets \<Rightarrow> private_message \<Rightarrow>
   message_decryption_error + mls_sender_data" where
  "sender_data P Q cs ms m =
     try_bind (map_err decryption_derive_error
       (sender_data_aead_key P cs (ms_sender_data_secret ms) (prm_ciphertext m))) (\<lambda>sender_data_key.
     try_bind (map_err decryption_derive_error
       (sender_data_aead_nonce P cs (ms_sender_data_secret ms) (prm_ciphertext m))) (\<lambda>sender_data_nonce.
     try_bind (ok_or (MdLibraryError MissingBoundCheck)
       (tls_sender_data_aad Q (prm_group_id m) (prm_epoch m) (prm_content_type m))) (\<lambda>aad.
     try_bind (map_err (\<lambda>_. AeadError)
       (aead_open P sender_data_key (prm_encrypted_sender_data m) aad sender_data_nonce)) (\<lambda>sender_data_bytes.
       ok_or MalformedContent (read_sender_data Q sender_data_bytes)))))"

fun deserialize_without_type :: "framing_codec \<Rightarrow> content_type \<Rightarrow> bytes \<Rightarrow> (framed_content_body \<times> bytes) option" where
  "deserialize_without_type F ContentApplication bs = map_option (\<lambda>(x, bs). (BodyApplication x, bs)) (read_opaque F bs)"
| "deserialize_without_type F ContentProposal bs = map_option (\<lambda>(x, bs). (BodyProposal x, bs)) (read_proposal F bs)"
| "deserialize_without_type F ContentCommit bs = map_option (\<lambda>(x, bs). (BodyCommit x, bs)) (read_commit F bs)"

definition deserialize_ciphertext_content ::
  "framing_codec \<Rightarrow> content_type \<Rightarrow> bytes \<Rightarrow> (framed_content_body \<times> framed_content_auth_data) option" where
  "deserialize_ciphertext_content F ty bs =
     Option.bind (deserialize_without_type F ty bs) (\<lambda>(content, bs).
     Option.bind (auth_data_deserialize F ty bs) (\<lambda>(auth, padding).
       if \<not> list_all (\<lambda>byte. byte = 0) padding then None else Some (content, auth)))"

definition private_decrypt ::
  "crypto_provider \<Rightarrow> framing_codec \<Rightarrow> private_codec \<Rightarrow> aead_key \<Rightarrow> bytes \<Rightarrow> private_message \<Rightarrow>
   message_decryption_error + framed_content_body \<times> framed_content_auth_data" where
  "private_decrypt P F Q ratchet_key ratchet_nonce m =
     try_bind (ok_or (MdLibraryError MissingBoundCheck)
       (tls_private_content_aad Q (prm_group_id m) (prm_epoch m) (prm_content_type m)
          (prm_authenticated_data m))) (\<lambda>aad.
     try_bind (map_err (\<lambda>_. AeadError) (aead_open P ratchet_key (prm_ciphertext m) aad ratchet_nonce))
       (\<lambda>content_bytes.
       ok_or MalformedContent (deserialize_ciphertext_content F (prm_content_type m) content_bytes)))"

definition to_verifiable_content ::
  "crypto_provider \<Rightarrow> framing_codec \<Rightarrow> private_codec \<Rightarrow> ciphersuite \<Rightarrow> sender_ratchet_configuration \<Rightarrow> nat \<Rightarrow>
   mls_sender_data \<Rightarrow> private_message \<Rightarrow> message_secrets \<Rightarrow>
   (message_decryption_error + verifiable_content) \<times> message_secrets" where
  "to_verifiable_content P F Q cs cfg sender_index sd m ms =
     (case secret_for_decryption P cs cfg sender_index (secret_type_from (prm_content_type m))
             (sd_generation sd) (ms_secret_tree ms) of
        (Inl e, tree) \<Rightarrow> (Inl (MdSecretTreeError e), ms\<lparr>ms_secret_tree := tree\<rparr>)
      | (Inr (ratchet_key, ratchet_nonce), tree) \<Rightarrow>
          (try_bind (private_decrypt P F Q ratchet_key
             (xor_with_reuse_guard ratchet_nonce (sd_reuse_guard sd)) m) (\<lambda>(content, auth).
             Inr (verifiable_content_new WirePrivateMessage
               \<lparr>fc_group_id = prm_group_id m, fc_epoch = prm_epoch m, fc_sender = SenderMember (sd_leaf_index sd),
                fc_authenticated_data = prm_authenticated_data m, fc_body = content\<rparr>
               (Some (ms_serialized_context ms)) auth)),
           ms\<lparr>ms_secret_tree := tree\<rparr>))"

section \<open>Padding\<close>

lemma padding_aligns:
  assumes "0 < padding_size"
  shows "padding_size dvd n + padding_length padding_size n mac_len + mac_len"
    and "padding_length padding_size n mac_len < padding_size"
proof -
  let ?r = "(n + mac_len) mod padding_size"
  have r: "?r < padding_size" using assms by simp
  have "(n + mac_len + (padding_size - ?r)) mod padding_size = (?r + (padding_size - ?r)) mod padding_size"
    by (simp add: mod_add_left_eq)
  also have "\<dots> = 0" using r by simp
  finally have "(n + mac_len + (padding_size - ?r) mod padding_size) mod padding_size = 0"
    by (simp add: mod_add_right_eq)
  then show "padding_size dvd n + padding_length padding_size n mac_len + mac_len"
    using assms by (simp add: padding_length_def add.assoc add.commute add.left_commute mod_eq_0_iff_dvd)
  show "padding_length padding_size n mac_len < padding_size" using assms by (simp add: padding_length_def)
qed

section \<open>A message that was encrypted is decrypted\<close>

text \<open>
  What is relied on of the codecs and of AEAD: a decoder reads back what the encoder wrote and
  leaves the rest, and opening inverts sealing.
\<close>

definition codec_ok :: "framing_codec \<Rightarrow> bool" where
  "codec_ok F \<longleftrightarrow>
     (\<forall>x enc rest. tls_opaque F x = Some enc \<longrightarrow> read_opaque F (enc @ rest) = Some (x, rest)) \<and>
     (\<forall>x enc rest. tls_mac F x = Some enc \<longrightarrow> read_mac F (enc @ rest) = Some (x, rest)) \<and>
     (\<forall>x enc rest. tls_proposal F x = Some enc \<longrightarrow> read_proposal F (enc @ rest) = Some (x, rest)) \<and>
     (\<forall>x enc rest. tls_commit F x = Some enc \<longrightarrow> read_commit F (enc @ rest) = Some (x, rest))"

definition sender_data_codec_ok :: "private_codec \<Rightarrow> bool" where
  "sender_data_codec_ok Q \<longleftrightarrow> (\<forall>x enc. tls_sender_data Q x = Some enc \<longrightarrow> read_sender_data Q enc = Some x)"

definition aead_ok :: "crypto_provider \<Rightarrow> bool" where
  "aead_ok P \<longleftrightarrow>
     (\<forall>ty key msg nonce aad ct. aead_encrypt_prim P ty key msg nonce aad = Inr ct \<longrightarrow>
        aead_decrypt_prim P ty key ct nonce aad = Inr msg)"

lemma aead_open_seal: "aead_ok P \<Longrightarrow> aead_seal P key msg aad nonce = Inr ct \<Longrightarrow> aead_open P key ct aad nonce = Inr msg"
  by (simp add: aead_ok_def aead_seal_def aead_open_def)

definition tag_fits :: "authenticated_content \<Rightarrow> bool" where
  "tag_fits ac \<longleftrightarrow>
     (auth_confirmation_tag (ac_auth ac) \<noteq> None \<longleftrightarrow> body_content_type (fc_body (ac_content ac)) = ContentCommit)"

lemma deserialize_encoded:
  assumes F: "codec_ok F" and fits: "tag_fits ac"
    and enc: "encode_padded_ciphertext_content_detached F ac padding_size mac_len = Some bs"
  shows "deserialize_ciphertext_content F (body_content_type (fc_body (ac_content ac))) bs =
    Some (fc_body (ac_content ac), ac_auth ac)"
proof -
  let ?body = "fc_body (ac_content ac)" and ?auth = "ac_auth ac"
  obtain content auth n where c: "serialize_without_type F ?body = Some content"
    and a: "auth_data_serialize F ?auth = Some auth" and bs: "bs = content @ auth @ replicate n 0"
    using enc by (auto simp: encode_padded_ciphertext_content_detached_def bind_eq_Some_conv)
  have "deserialize_without_type F (body_content_type ?body) (content @ rest) = Some (?body, rest)" for rest
    using F c by (cases ?body) (auto simp: codec_ok_def)
  moreover have "auth_data_deserialize F (body_content_type ?body) (auth @ rest) = Some (?auth, rest)" for rest
    using F a fits
    by (cases "auth_confirmation_tag ?auth")
      (auto simp: codec_ok_def auth_data_serialize_def auth_data_deserialize_def enc_append_eq_Some tag_fits_def)
  ultimately show ?thesis by (simp add: deserialize_ciphertext_content_def bs list_all_iff)
qed

lemma length_ciphertext_sample: "length (ciphertext_sample cs ct) \<le> hash_length cs"
  by (simp add: ciphertext_sample_def)

lemma open_sealed_content:
  assumes kdf: "kdf_ok P cs" and aead: "aead_ok P" and F: "codec_ok F" and Q: "sender_data_codec_ok Q"
    and fits: "tag_fits ac"
    and aad: "tls_private_content_aad Q (fc_group_id (ac_content ac)) (fc_epoch (ac_content ac))
      (body_content_type (fc_body (ac_content ac))) (fc_authenticated_data (ac_content ac)) = Some content_aad"
    and sealed: "seal_content P F Q guard ac cs padding_size sds i content_aad gen key nonce = Inr m"
    and sds: "ms_sender_data_secret ms = sds"
  obtains g where "sender_data P Q cs ms m = Inr \<lparr>sd_leaf_index = i, sd_generation = gen, sd_reuse_guard = g\<rparr>"
    and "private_decrypt P F Q key (xor_with_reuse_guard nonce g) m = Inr (fc_body (ac_content ac), ac_auth ac)"
    and "prm_group_id m = fc_group_id (ac_content ac)" and "prm_epoch m = fc_epoch (ac_content ac)"
    and "prm_content_type m = body_content_type (fc_body (ac_content ac))"
    and "prm_authenticated_data m = fc_authenticated_data (ac_content ac)" and "guard = Inr g"
proof -
  obtain g plaintext ct sdk sdn sd_aad sd esd where g: "guard = Inr g"
    and plain: "encode_padded_ciphertext_content_detached F ac padding_size (mac_length cs) = Some plaintext"
    and ct: "aead_seal P key plaintext content_aad (xor_with_reuse_guard nonce g) = Inr ct"
    and sdk: "sender_data_aead_key P cs sds ct = Inr sdk" and sdn: "sender_data_aead_nonce P cs sds ct = Inr sdn"
    and sd_aad: "tls_sender_data_aad Q (fc_group_id (ac_content ac)) (fc_epoch (ac_content ac))
      (body_content_type (fc_body (ac_content ac))) = Some sd_aad"
    and sd: "tls_sender_data Q \<lparr>sd_leaf_index = i, sd_generation = gen, sd_reuse_guard = g\<rparr> = Some sd"
    and esd: "aead_seal P sdk sd sd_aad sdn = Inr esd"
    and m: "m = \<lparr>prm_group_id = fc_group_id (ac_content ac), prm_epoch = fc_epoch (ac_content ac),
      prm_content_type = body_content_type (fc_body (ac_content ac)),
      prm_authenticated_data = fc_authenticated_data (ac_content ac),
      prm_encrypted_sender_data = esd, prm_ciphertext = ct\<rparr>"
    using sealed by (auto simp: seal_content_def Let_def try_bind_eq_Inr)
  have "sender_data P Q cs ms m = Inr \<lparr>sd_leaf_index = i, sd_generation = gen, sd_reuse_guard = g\<rparr>"
    using sdk sdn sd_aad aead_open_seal [OF aead esd] Q sd
    by (simp add: sender_data_def sds m sender_data_codec_ok_def)
  moreover have "private_decrypt P F Q key (xor_with_reuse_guard nonce g) m = Inr (fc_body (ac_content ac), ac_auth ac)"
    using aad aead_open_seal [OF aead ct] deserialize_encoded [OF F fits plain]
    by (simp add: private_decrypt_def m)
  ultimately show thesis using that g m by simp
qed

lemma private_message_decrypts:
  assumes kdf: "kdf_ok P cs" and aead: "aead_ok P" and F: "codec_ok F" and Q: "sender_data_codec_ok Q"
    and fits: "tag_fits ac" and fmt: "ac_wire_format ac = WirePrivateMessage"
    and snd: "fc_sender (ac_content ac) = SenderMember (st_own_index (ms_secret_tree sms))"
    and inv: "secret_tree_inv P cs cfg s h (ms_secret_tree sms)" "secret_tree_inv P cs cfg' s h (ms_secret_tree rms)"
    and own: "st_own_index (ms_secret_tree sms) < 2 ^ h"
    and sds: "ms_sender_data_secret rms = ms_sender_data_secret sms"
    and enc: "try_from_authenticated_content P F Q guard ac cs padding_size sms = (Inr m, sms')"
  obtains sd where "sender_data P Q cs rms m = Inr sd" and "sd_leaf_index sd = st_own_index (ms_secret_tree sms)"
    and "(st_own_index (ms_secret_tree sms), secret_type_from (prm_content_type m), sd_generation sd)
        \<in> st_available h (ms_secret_tree rms) \<Longrightarrow>
      in_window cfg' (receiving_ratchet P cs s h (secret_type_from (prm_content_type m))
        (st_own_index (ms_secret_tree sms)) (ms_secret_tree rms)) (sd_generation sd) \<Longrightarrow>
      fst (to_verifiable_content P F Q cs cfg' (sd_leaf_index sd) sd m rms) =
        Inr (verifiable_content_new WirePrivateMessage (ac_content ac) (Some (ms_serialized_context rms)) (ac_auth ac))"
proof -
  let ?i = "st_own_index (ms_secret_tree sms)" and ?c = "ac_content ac"
  let ?ty = "body_content_type (fc_body (ac_content ac))"
  obtain content_aad gen key nonce t where
    aad: "tls_private_content_aad Q (fc_group_id ?c) (fc_epoch ?c) ?ty (fc_authenticated_data ?c) = Some content_aad"
    and draw: "secret_for_encryption P cs ?i (secret_type_from ?ty) (ms_secret_tree sms) = (Inr (gen, key, nonce), t)"
    and sealed: "seal_content P F Q guard ac cs padding_size (ms_sender_data_secret sms) ?i content_aad gen key nonce = Inr m"
    using enc snd fmt
    by (auto simp: try_from_authenticated_content_def encrypt_content_def Let_def
        split: option.splits sum.splits prod.splits)
  have km: "(key, nonce) = leaf_key P cs s h (?i, secret_type_from ?ty, gen)"
    by (rule secret_for_encryption_at(1) [OF kdf inv(1) own draw])
  obtain g where g: "sender_data P Q cs rms m = Inr \<lparr>sd_leaf_index = ?i, sd_generation = gen, sd_reuse_guard = g\<rparr>"
    and dec: "private_decrypt P F Q key (xor_with_reuse_guard nonce g) m = Inr (fc_body ?c, ac_auth ac)"
    and m: "prm_group_id m = fc_group_id ?c" "prm_epoch m = fc_epoch ?c" "prm_content_type m = ?ty"
      "prm_authenticated_data m = fc_authenticated_data ?c"
    by (rule open_sealed_content [OF kdf aead F Q fits aad sealed sds]) (rule that)
  have "fst (to_verifiable_content P F Q cs cfg' ?i \<lparr>sd_leaf_index = ?i, sd_generation = gen, sd_reuse_guard = g\<rparr> m rms) =
      Inr (verifiable_content_new WirePrivateMessage ?c (Some (ms_serialized_context rms)) (ac_auth ac))"
    if av: "(?i, secret_type_from ?ty, gen) \<in> st_available h (ms_secret_tree rms)"
      and win: "in_window cfg' (receiving_ratchet P cs s h (secret_type_from ?ty) ?i (ms_secret_tree rms)) gen"
  proof -
    obtain t' where "secret_for_decryption P cs cfg' ?i (secret_type_from ?ty) gen (ms_secret_tree rms)
        = (Inr (key, nonce), t')"
      using secret_for_decryption_returns [OF kdf inv(2) av win] km by (metis prod.collapse)
    moreover have "\<lparr>fc_group_id = fc_group_id ?c, fc_epoch = fc_epoch ?c, fc_sender = SenderMember ?i,
        fc_authenticated_data = fc_authenticated_data ?c, fc_body = fc_body ?c\<rparr> = ?c"
      by (rule framed_content.equality) (simp_all add: snd)
    ultimately show ?thesis using dec by (simp add: to_verifiable_content_def m)
  qed
  then show thesis using that [of "\<lparr>sd_leaf_index = ?i, sd_generation = gen, sd_reuse_guard = g\<rparr>"] g m(3) by simp
qed

end
