(* ===== verification/Proposal_Queue.thy ===== *)
theory Proposal_Queue
  imports Framing "HOL-Library.AList"
begin

text \<open>
  Stored proposals and the queue of proposals of a commit (\<open>group/mls_group/proposal_store.rs\<close>,
  \<open>ProposalRef\<close> of \<open>messages/proposals.rs\<close>). A hash map is a map or, where the code iterates over it,
  an association list together with the order of the iteration, which is an argument.
\<close>

section \<open>References\<close>

datatype proposal_ref_error = AuthenticatedContentHasWrongType content_type | PrOther library_error

text \<open>The derived encoding of authenticated content: its fields in order.\<close>

definition tls_authenticated_content :: "framing_codec \<Rightarrow> authenticated_content \<Rightarrow> bytes option" where
  "tls_authenticated_content F ac =
     enc_append (tls_wire_format F (ac_wire_format ac))
       (enc_append (tls_framed_content F (ac_content ac)) (auth_data_serialize F (ac_auth ac)))"

definition proposal_ref_from_authenticated_content ::
  "crypto_provider \<Rightarrow> framing_codec \<Rightarrow> ciphersuite \<Rightarrow> authenticated_content \<Rightarrow> proposal_ref_error + bytes" where
  "proposal_ref_from_authenticated_content P F cs ac =
     (if body_content_type (fc_body (ac_content ac)) \<noteq> ContentProposal
      then Inl (AuthenticatedContentHasWrongType (body_content_type (fc_body (ac_content ac))))
      else case tls_authenticated_content F ac of
             None \<Rightarrow> Inl (PrOther MissingBoundCheck)
           | Some encoded \<Rightarrow> map_err (\<lambda>_. PrOther UnexpectedCryptoError) (make_proposal_ref P cs encoded))"

definition proposal_ref_from_raw_proposal ::
  "crypto_provider \<Rightarrow> framing_codec \<Rightarrow> ciphersuite \<Rightarrow> proposal \<Rightarrow> library_error + bytes" where
  "proposal_ref_from_raw_proposal P F cs p =
     (case tls_proposal F p of
        None \<Rightarrow> Inl MissingBoundCheck
      | Some encoded \<Rightarrow>
          map_err (\<lambda>_. UnexpectedCryptoError)
            (make_proposal_ref P cs (str_bytes ''Internal OpenMLS ProposalRef Label'' @ encoded)))"

section \<open>Stored proposals\<close>

datatype proposal_or_ref_type = TypeProposal | TypeReference

record queued_proposal =
  qp_proposal :: proposal
  qp_reference :: bytes
  qp_sender :: sender
  qp_type :: proposal_or_ref_type

type_synonym proposal_store = "queued_proposal list"

definition store_add :: "queued_proposal \<Rightarrow> proposal_store \<Rightarrow> proposal_store" where
  "store_add x st = st @ [x]"

definition store_empty :: "proposal_store \<Rightarrow> proposal_store" where
  "store_empty st = []"

fun store_remove :: "bytes \<Rightarrow> proposal_store \<Rightarrow> proposal_store option" where
  "store_remove r [] = None"
| "store_remove r (x # st) =
     (if qp_reference x = r then Some st else map_option ((#) x) (store_remove r st))"

definition queued_from_authenticated_content ::
  "crypto_provider \<Rightarrow> framing_codec \<Rightarrow> ciphersuite \<Rightarrow> authenticated_content \<Rightarrow> proposal_or_ref_type \<Rightarrow>
   library_error + queued_proposal" where
  "queued_from_authenticated_content P F cs ac ty =
     try_bind (map_err (\<lambda>_. CustomError ''Could not calculate `ProposalRef`.'')
       (proposal_ref_from_authenticated_content P F cs ac)) (\<lambda>r.
     case fc_body (ac_content ac) of
       BodyProposal p \<Rightarrow>
         Inr \<lparr>qp_proposal = p, qp_reference = r, qp_sender = fc_sender (ac_content ac), qp_type = ty\<rparr>
     | _ \<Rightarrow> Inl (CustomError ''Wrong content type''))"

definition queued_from_authenticated_content_by_ref ::
  "crypto_provider \<Rightarrow> framing_codec \<Rightarrow> ciphersuite \<Rightarrow> authenticated_content \<Rightarrow> library_error + queued_proposal" where
  "queued_from_authenticated_content_by_ref P F cs ac =
     queued_from_authenticated_content P F cs ac TypeReference"

definition queued_from_proposal_and_sender ::
  "crypto_provider \<Rightarrow> framing_codec \<Rightarrow> ciphersuite \<Rightarrow> proposal \<Rightarrow> sender \<Rightarrow> library_error + queued_proposal" where
  "queued_from_proposal_and_sender P F cs p s =
     try_bind (proposal_ref_from_raw_proposal P F cs p) (\<lambda>r.
       Inr \<lparr>qp_proposal = p, qp_reference = r, qp_sender = s, qp_type = TypeProposal\<rparr>)"

section \<open>The queue of a commit\<close>

record proposal_queue =
  pq_references :: "bytes list"
  pq_proposals :: "bytes \<rightharpoonup> queued_proposal"

definition pq_default :: proposal_queue where
  "pq_default = \<lparr>pq_references = [], pq_proposals = Map.empty\<rparr>"

definition pq_is_empty :: "proposal_queue \<Rightarrow> bool" where
  "pq_is_empty q = (pq_references q = [])"

definition pq_add :: "queued_proposal \<Rightarrow> proposal_queue \<Rightarrow> proposal_queue" where
  "pq_add x q =
     (case pq_proposals q (qp_reference x) of
        None \<Rightarrow> \<lparr>pq_references = pq_references q @ [qp_reference x],
                 pq_proposals = (pq_proposals q)(qp_reference x \<mapsto> x)\<rparr>
      | Some _ \<Rightarrow> q)"

definition pq_get :: "proposal_queue \<Rightarrow> bytes \<Rightarrow> queued_proposal option" where
  "pq_get q r = pq_proposals q r"

definition pq_queued_proposals :: "proposal_queue \<Rightarrow> queued_proposal list" where
  "pq_queued_proposals q = List.map_filter (pq_get q) (pq_references q)"

definition pq_filtered_by_type :: "proposal_type \<Rightarrow> proposal_queue \<Rightarrow> queued_proposal list" where
  "pq_filtered_by_type ty q =
     List.map_filter (pq_get q)
       (filter (\<lambda>r. case pq_proposals q r of Some x \<Rightarrow> proposal_is_type (qp_proposal x) ty | None \<Rightarrow> False)
          (pq_references q))"

fun as_add :: "queued_proposal \<Rightarrow> (key_package \<times> sender) option" where
  "as_add x = (case qp_proposal x of Add kp \<Rightarrow> Some (kp, qp_sender x) | _ \<Rightarrow> None)"

fun as_remove :: "queued_proposal \<Rightarrow> (nat \<times> sender) option" where
  "as_remove x = (case qp_proposal x of Remove i \<Rightarrow> Some (i, qp_sender x) | _ \<Rightarrow> None)"

fun as_update :: "queued_proposal \<Rightarrow> (leaf_node \<times> sender) option" where
  "as_update x = (case qp_proposal x of Update l \<Rightarrow> Some (l, qp_sender x) | _ \<Rightarrow> None)"

fun as_psk :: "queued_proposal \<Rightarrow> (pre_shared_key_id \<times> sender) option" where
  "as_psk x = (case qp_proposal x of PreSharedKey k \<Rightarrow> Some (k, qp_sender x) | _ \<Rightarrow> None)"

definition pq_add_proposals :: "proposal_queue \<Rightarrow> (key_package \<times> sender) list" where
  "pq_add_proposals q = List.map_filter as_add (pq_queued_proposals q)"

definition pq_remove_proposals :: "proposal_queue \<Rightarrow> (nat \<times> sender) list" where
  "pq_remove_proposals q = List.map_filter as_remove (pq_queued_proposals q)"

definition pq_update_proposals :: "proposal_queue \<Rightarrow> (leaf_node \<times> sender) list" where
  "pq_update_proposals q = List.map_filter as_update (pq_queued_proposals q)"

definition pq_psk_proposals :: "proposal_queue \<Rightarrow> (pre_shared_key_id \<times> sender) list" where
  "pq_psk_proposals q = List.map_filter as_psk (pq_queued_proposals q)"

text \<open>The code hands on every proposal of the queue by value.\<close>

definition pq_commit_list :: "proposal_queue \<Rightarrow> proposal_or_ref list" where
  "pq_commit_list q = map (InlineProposal \<circ> qp_proposal) (List.map_filter (pq_proposals q) (pq_references q))"

section \<open>The queue of a received commit\<close>

datatype from_committed_proposals_error = FcLibraryError library_error | FcProposalNotFound | SelfRemoval

definition is_self_removal :: "proposal \<Rightarrow> sender \<Rightarrow> bool" where
  "is_self_removal p s =
     (case p of Remove removed \<Rightarrow> (case s of SenderMember i \<Rightarrow> removed = i | _ \<Rightarrow> False) | _ \<Rightarrow> False)"

definition resolve_committed ::
  "crypto_provider \<Rightarrow> framing_codec \<Rightarrow> ciphersuite \<Rightarrow> (bytes \<rightharpoonup> queued_proposal) \<Rightarrow> sender \<Rightarrow> proposal_or_ref \<Rightarrow>
   from_committed_proposals_error + queued_proposal" where
  "resolve_committed P F cs known s pr =
     (case pr of
        InlineProposal p \<Rightarrow>
          if is_self_removal p s then Inl SelfRemoval
          else map_err FcLibraryError (queued_from_proposal_and_sender P F cs p s)
      | ProposalReference r \<Rightarrow>
          (case known r of
             Some x \<Rightarrow> if is_self_removal (qp_proposal x) s then Inl SelfRemoval else Inr x
           | None \<Rightarrow> Inl FcProposalNotFound))"

fun committed_loop ::
  "crypto_provider \<Rightarrow> framing_codec \<Rightarrow> ciphersuite \<Rightarrow> (bytes \<rightharpoonup> queued_proposal) \<Rightarrow> sender \<Rightarrow>
   proposal_or_ref list \<Rightarrow> proposal_queue \<Rightarrow> from_committed_proposals_error + proposal_queue" where
  "committed_loop P F cs known s [] q = Inr q"
| "committed_loop P F cs known s (pr # prs) q =
     try_bind (resolve_committed P F cs known s pr) (\<lambda>x. committed_loop P F cs known s prs (pq_add x q))"

definition from_committed_proposals ::
  "crypto_provider \<Rightarrow> framing_codec \<Rightarrow> ciphersuite \<Rightarrow> proposal_or_ref list \<Rightarrow> proposal_store \<Rightarrow> sender \<Rightarrow>
   from_committed_proposals_error + proposal_queue" where
  "from_committed_proposals P F cs committed st s =
     committed_loop P F cs (foldl (\<lambda>known x. known(qp_reference x \<mapsto> x)) Map.empty st) s committed pq_default"

section \<open>Filtering of proposals by a committer\<close>

datatype proposal_queue_error = PqLibraryError library_error | PqProposalNotFound | UpdateFromExternalSender | PqUnimplemented

record ordered_proposal_refs =
  proposal_refs :: "bytes set"
  ordered_refs :: "bytes list"

definition refs_new :: ordered_proposal_refs where
  "refs_new = \<lparr>proposal_refs = {}, ordered_refs = []\<rparr>"

definition refs_add :: "bytes \<Rightarrow> ordered_proposal_refs \<Rightarrow> ordered_proposal_refs" where
  "refs_add r rs = (if r \<notin> proposal_refs rs
     then \<lparr>proposal_refs = insert r (proposal_refs rs), ordered_refs = ordered_refs rs @ [r]\<rparr> else rs)"

record member_chains =
  mc_updates :: "queued_proposal list"
  mc_removes :: "queued_proposal list"

definition member_default :: member_chains where
  "member_default = \<lparr>mc_updates = [], mc_removes = []\<rparr>"

record filter_state =
  fs_members :: "(nat \<times> member_chains) list"
  fs_adds :: ordered_proposal_refs
  fs_valid :: ordered_proposal_refs
  fs_pool :: "bytes \<rightharpoonup> queued_proposal"
  fs_own_updates :: bool
  fs_external_init :: bool

definition filter_init :: filter_state where
  "filter_init = \<lparr>fs_members = [], fs_adds = refs_new, fs_valid = refs_new, fs_pool = Map.empty,
     fs_own_updates = False, fs_external_init = False\<rparr>"

text \<open>\<open>members.entry(k).or_default()\<close> with an update of the entry.\<close>

definition entry_or_default ::
  "nat \<Rightarrow> (member_chains \<Rightarrow> member_chains) \<Rightarrow> (nat \<times> member_chains) list \<Rightarrow> (nat \<times> member_chains) list" where
  "entry_or_default k f ms =
     AList.update k (f (case map_of ms k of Some m \<Rightarrow> m | None \<Rightarrow> member_default)) ms"

definition pool_insert :: "queued_proposal \<Rightarrow> filter_state \<Rightarrow> filter_state" where
  "pool_insert x st = st\<lparr>fs_pool := (fs_pool st)(qp_reference x \<mapsto> x)\<rparr>"

definition valid_add :: "queued_proposal \<Rightarrow> filter_state \<Rightarrow> filter_state" where
  "valid_add x st = st\<lparr>fs_valid := refs_add (qp_reference x) (fs_valid st)\<rparr>"

definition filter_step :: "nat \<Rightarrow> queued_proposal \<Rightarrow> filter_state \<Rightarrow> proposal_queue_error + filter_state" where
  "filter_step own_index x st =
     (case qp_proposal x of
        Add _ \<Rightarrow> Inr (pool_insert x (st\<lparr>fs_adds := refs_add (qp_reference x) (fs_adds st)\<rparr>))
      | Update _ \<Rightarrow>
          (case qp_sender x of
             SenderMember leaf_index \<Rightarrow>
               Inr (pool_insert x
                 (if leaf_index \<noteq> own_index
                  then st\<lparr>fs_members := entry_or_default leaf_index
                            (\<lambda>m. m\<lparr>mc_updates := mc_updates m @ [x]\<rparr>) (fs_members st)\<rparr>
                  else st\<lparr>fs_own_updates := True\<rparr>))
           | _ \<Rightarrow> Inl UpdateFromExternalSender)
      | Remove removed \<Rightarrow>
          Inr (pool_insert x
            (st\<lparr>fs_members := entry_or_default removed
                  (\<lambda>m. m\<lparr>mc_removes := mc_removes m @ [x]\<rparr>) (fs_members st)\<rparr>))
      | PreSharedKey _ \<Rightarrow> Inr (pool_insert x (valid_add x st))
      | ReInit _ \<Rightarrow> Inr (pool_insert x st)
      | ExternalInit _ \<Rightarrow>
          if \<not> fs_external_init st
          then Inr ((pool_insert x (valid_add x st))\<lparr>fs_external_init := True\<rparr>)
          else Inr st
      | GroupContextExtensions _ \<Rightarrow> Inr (pool_insert x (valid_add x st))
      | AppAck _ \<Rightarrow> Inl PqUnimplemented
      | Custom _ _ \<Rightarrow> Inr (pool_insert x (valid_add x st)))"

fun filter_loop :: "nat \<Rightarrow> queued_proposal list \<Rightarrow> filter_state \<Rightarrow> proposal_queue_error + filter_state" where
  "filter_loop own_index [] st = Inr st"
| "filter_loop own_index (x # xs) st =
     try_bind (filter_step own_index x st) (\<lambda>st'. filter_loop own_index xs st')"

text \<open>What is kept of the proposals on one leaf: the last removal, or the last update.\<close>

definition member_refs :: "member_chains \<Rightarrow> bytes list" where
  "member_refs m =
     (if mc_removes m \<noteq> [] then [qp_reference (last (mc_removes m))]
      else if mc_updates m \<noteq> [] then [qp_reference (last (mc_updates m))]
      else [])"

definition members_loop ::
  "(nat list \<Rightarrow> nat list) \<Rightarrow> (nat \<times> member_chains) list \<Rightarrow> ordered_proposal_refs \<Rightarrow> ordered_proposal_refs" where
  "members_loop hash_order ms valid =
     foldl (\<lambda>valid k. case map_of ms k of
               Some m \<Rightarrow> foldl (\<lambda>v r. refs_add r v) valid (member_refs m) | None \<Rightarrow> valid)
       valid (hash_order (map fst ms))"

fun retain_loop ::
  "(bytes \<rightharpoonup> queued_proposal) \<Rightarrow> bytes list \<Rightarrow> proposal_queue \<Rightarrow> proposal_queue_error + proposal_queue" where
  "retain_loop pool [] q = Inr q"
| "retain_loop pool (r # rs) q =
     (case pool r of None \<Rightarrow> Inl PqProposalNotFound | Some x \<Rightarrow> retain_loop pool rs (pq_add x q))"

definition filter_proposals_without_inline ::
  "(nat list \<Rightarrow> nat list) \<Rightarrow> queued_proposal list \<Rightarrow> nat \<Rightarrow> proposal_queue_error + proposal_queue \<times> bool" where
  "filter_proposals_without_inline hash_order proposals own_index =
     try_bind (filter_loop own_index proposals filter_init) (\<lambda>st.
     let valid = members_loop hash_order (fs_members st) (fs_valid st) in
     try_bind (retain_loop (fs_pool st) (ordered_refs (fs_adds st) @ ordered_refs valid) pq_default) (\<lambda>q.
       Inr (q, fs_own_updates st)))"

fun queue_inline ::
  "crypto_provider \<Rightarrow> framing_codec \<Rightarrow> ciphersuite \<Rightarrow> sender \<Rightarrow> proposal list \<Rightarrow> library_error + queued_proposal list" where
  "queue_inline P F cs s [] = Inr []"
| "queue_inline P F cs s (p # ps) =
     try_bind (queued_from_proposal_and_sender P F cs p s) (\<lambda>x.
     try_bind (queue_inline P F cs s ps) (\<lambda>xs. Inr (x # xs)))"

definition filter_proposals ::
  "crypto_provider \<Rightarrow> framing_codec \<Rightarrow> (nat list \<Rightarrow> nat list) \<Rightarrow> ciphersuite \<Rightarrow> sender \<Rightarrow> proposal_store \<Rightarrow>
   proposal list \<Rightarrow> nat \<Rightarrow> proposal_queue_error + proposal_queue \<times> bool" where
  "filter_proposals P F hash_order cs s st inline_proposals own_index =
     try_bind (map_err PqLibraryError (queue_inline P F cs s inline_proposals)) (\<lambda>inline.
       filter_proposals_without_inline hash_order (st @ inline) own_index)"

section \<open>The queue as a list\<close>

text \<open>
  The references of a queue are distinct and are those of its proposals, so the queue is the list of its
  proposals.
\<close>

definition pq_inv :: "proposal_queue \<Rightarrow> bool" where
  "pq_inv q \<longleftrightarrow> distinct (pq_references q) \<and> dom (pq_proposals q) = set (pq_references q) \<and>
     (\<forall>r x. pq_proposals q r = Some x \<longrightarrow> qp_reference x = r)"

lemma pq_inv_default [simp]: "pq_inv pq_default"
  by (simp add: pq_inv_def pq_default_def)

lemma pq_queued_default [simp]: "pq_queued_proposals pq_default = []"
  by (simp add: pq_queued_proposals_def pq_default_def List.map_filter_simps)

lemma pq_inv_add [simp]: "pq_inv q \<Longrightarrow> pq_inv (pq_add x q)"
  by (auto simp: pq_inv_def pq_add_def split: option.splits)

lemma map_filter_cong: "(\<And>x. x \<in> set xs \<Longrightarrow> f x = g x) \<Longrightarrow> List.map_filter f xs = List.map_filter g xs"
  by (induction xs) (auto simp: List.map_filter_simps split: option.splits)

lemma map_filter_append [simp]: "List.map_filter f (xs @ ys) = List.map_filter f xs @ List.map_filter f ys"
  by (simp add: List.map_filter_def)

lemma pq_known_iff:
  "pq_inv q \<Longrightarrow> pq_proposals q r \<noteq> None \<longleftrightarrow> r \<in> qp_reference ` set (pq_queued_proposals q)"
  by (force simp: pq_inv_def pq_queued_proposals_def pq_get_def List.map_filter_def)

lemma pq_references_eq: "pq_inv q \<Longrightarrow> map qp_reference (pq_queued_proposals q) = pq_references q"
proof -
  assume inv: "pq_inv q"
  have "set rs \<subseteq> dom (pq_proposals q) \<Longrightarrow> map qp_reference (List.map_filter (pq_get q) rs) = rs" for rs
    using inv by (induction rs) (auto simp: pq_inv_def pq_get_def List.map_filter_simps split: option.splits)
  then show ?thesis using inv by (simp add: pq_inv_def pq_queued_proposals_def)
qed

lemma pq_queued_distinct: "pq_inv q \<Longrightarrow> distinct (pq_queued_proposals q)"
  using pq_references_eq [of q] by (metis distinct_map pq_inv_def)

lemma pq_queued_add:
  assumes "pq_inv q"
  shows "pq_queued_proposals (pq_add x q) =
    (if qp_reference x \<in> qp_reference ` set (pq_queued_proposals q) then pq_queued_proposals q
     else pq_queued_proposals q @ [x])"
proof (cases "pq_proposals q (qp_reference x)")
  case None
  then have "qp_reference x \<notin> set (pq_references q)" using assms by (auto simp: pq_inv_def)
  then have "List.map_filter (pq_get (pq_add x q)) (pq_references q) = pq_queued_proposals q"
    using None by (auto simp: pq_queued_proposals_def pq_get_def pq_add_def intro!: map_filter_cong)
  then show ?thesis using None pq_known_iff [OF assms, of "qp_reference x"]
    by (simp add: pq_queued_proposals_def pq_add_def pq_get_def List.map_filter_simps)
next
  case (Some y)
  then show ?thesis using pq_known_iff [OF assms, of "qp_reference x"] by (auto simp: pq_add_def)
qed

text \<open>The list without the proposals whose reference occurs earlier.\<close>

definition first_refs :: "queued_proposal list \<Rightarrow> queued_proposal list" where
  "first_refs xs = foldl (\<lambda>acc x. if qp_reference x \<in> qp_reference ` set acc then acc else acc @ [x]) [] xs"

lemma first_refs_snoc:
  "first_refs (xs @ [x]) =
     (if qp_reference x \<in> qp_reference ` set (first_refs xs) then first_refs xs else first_refs xs @ [x])"
  by (simp add: first_refs_def)

lemma first_refs_refs: "qp_reference ` set (first_refs xs) = qp_reference ` set xs"
  by (induction xs rule: rev_induct) (auto simp: first_refs_snoc first_refs_def [of "[]"])

lemma first_refs_sub: "set (first_refs xs) \<subseteq> set xs"
  by (induction xs rule: rev_induct) (auto simp: first_refs_snoc first_refs_def [of "[]"])

lemma first_refs_inj: "inj_on qp_reference (set xs) \<Longrightarrow> set (first_refs xs) = set xs"
  using first_refs_refs [of xs] first_refs_sub [of xs] by (metis inj_on_image_eq_iff order_refl)

lemma pq_foldl_add:
  "pq_inv (foldl (\<lambda>q x. pq_add x q) pq_default xs) \<and>
   pq_queued_proposals (foldl (\<lambda>q x. pq_add x q) pq_default xs) = first_refs xs"
  by (induction xs rule: rev_induct) (simp_all add: pq_queued_add first_refs_snoc first_refs_def [of "[]"])

lemma pq_filtered_by_type_eq:
  assumes "pq_inv q"
  shows "pq_filtered_by_type ty q = filter (\<lambda>x. proposal_is_type (qp_proposal x) ty) (pq_queued_proposals q)"
proof -
  have "set rs \<subseteq> dom (pq_proposals q) \<Longrightarrow>
    List.map_filter (pq_get q)
      (filter (\<lambda>r. case pq_proposals q r of Some x \<Rightarrow> proposal_is_type (qp_proposal x) ty | None \<Rightarrow> False) rs)
    = filter (\<lambda>x. proposal_is_type (qp_proposal x) ty) (List.map_filter (pq_get q) rs)" for rs
    by (induction rs) (auto simp: pq_get_def List.map_filter_simps split: option.splits)
  then show ?thesis using assms by (simp add: pq_filtered_by_type_def pq_queued_proposals_def pq_inv_def)
qed

lemma pq_commit_list_eq: "pq_commit_list q = map (InlineProposal \<circ> qp_proposal) (pq_queued_proposals q)"
  by (simp add: pq_commit_list_def pq_queued_proposals_def pq_get_def [abs_def])

section \<open>Received commits\<close>

fun resolve_all ::
  "crypto_provider \<Rightarrow> framing_codec \<Rightarrow> ciphersuite \<Rightarrow> (bytes \<rightharpoonup> queued_proposal) \<Rightarrow> sender \<Rightarrow> proposal_or_ref list \<Rightarrow>
   from_committed_proposals_error + queued_proposal list" where
  "resolve_all P F cs known s [] = Inr []"
| "resolve_all P F cs known s (pr # prs) =
     try_bind (resolve_committed P F cs known s pr) (\<lambda>x.
     try_bind (resolve_all P F cs known s prs) (\<lambda>xs. Inr (x # xs)))"

lemma committed_loop_eq:
  "committed_loop P F cs known s prs q =
     try_bind (resolve_all P F cs known s prs) (\<lambda>xs. Inr (foldl (\<lambda>q x. pq_add x q) q xs))"
proof (induction prs arbitrary: q)
  case (Cons pr prs)
  show ?case
  proof (cases "resolve_committed P F cs known s pr")
    case (Inr x)
    then show ?thesis using Cons by (cases "resolve_all P F cs known s prs") simp_all
  qed simp
qed simp

lemma known_lookup:
  "foldl (\<lambda>known x. known(qp_reference x \<mapsto> x)) Map.empty st r =
     find (\<lambda>x. qp_reference x = r) (rev st)"
  by (induction st rule: rev_induct) auto

section \<open>What a committer keeps\<close>

definition updates_of :: "nat \<Rightarrow> nat \<Rightarrow> queued_proposal \<Rightarrow> bool" where
  "updates_of own_index k x \<longleftrightarrow>
     (case qp_proposal x of Update _ \<Rightarrow> qp_sender x = SenderMember k \<and> k \<noteq> own_index | _ \<Rightarrow> False)"

definition removal_of :: "nat \<Rightarrow> queued_proposal \<Rightarrow> bool" where
  "removal_of k x \<longleftrightarrow> qp_proposal x = Remove k"

definition is_add :: "queued_proposal \<Rightarrow> bool" where
  "is_add x \<longleftrightarrow> (case qp_proposal x of Add _ \<Rightarrow> True | _ \<Rightarrow> False)"

definition is_external_init :: "queued_proposal \<Rightarrow> bool" where
  "is_external_init x \<longleftrightarrow> (case qp_proposal x of ExternalInit _ \<Rightarrow> True | _ \<Rightarrow> False)"

definition own_update :: "nat \<Rightarrow> queued_proposal \<Rightarrow> bool" where
  "own_update own_index x \<longleftrightarrow>
     (case qp_proposal x of Update _ \<Rightarrow> qp_sender x = SenderMember own_index | _ \<Rightarrow> False)"

definition is_plain :: "queued_proposal \<Rightarrow> bool" where
  "is_plain x \<longleftrightarrow> (case qp_proposal x of
     PreSharedKey _ \<Rightarrow> True | GroupContextExtensions _ \<Rightarrow> True | Custom _ _ \<Rightarrow> True | _ \<Rightarrow> False)"

text \<open>Proposals the filter accepts: no acknowledgements, and updates of members only.\<close>

definition filterable :: "queued_proposal \<Rightarrow> bool" where
  "filterable x \<longleftrightarrow> (case qp_proposal x of
     AppAck _ \<Rightarrow> False | Update _ \<Rightarrow> (\<exists>i. qp_sender x = SenderMember i) | _ \<Rightarrow> True)"

definition on_leaf :: "nat \<Rightarrow> queued_proposal list \<Rightarrow> nat \<Rightarrow> queued_proposal list" where
  "on_leaf own_index xs k =
     (if \<exists>x \<in> set xs. removal_of k x then [last (filter (removal_of k) xs)]
      else if \<exists>x \<in> set xs. updates_of own_index k x then [last (filter (updates_of own_index k) xs)]
      else [])"

definition kept_valid :: "queued_proposal list \<Rightarrow> queued_proposal set" where
  "kept_valid xs = {x \<in> set xs. is_plain x \<or> (is_external_init x \<and> x = hd (filter is_external_init xs))}"

definition kept :: "nat \<Rightarrow> queued_proposal list \<Rightarrow> queued_proposal set" where
  "kept own_index xs = {x \<in> set xs. is_add x} \<union> kept_valid xs \<union> (\<Union>k. set (on_leaf own_index xs k))"

definition chain_updates :: "(nat \<times> member_chains) list \<Rightarrow> nat \<Rightarrow> queued_proposal list" where
  "chain_updates ms k = (case map_of ms k of Some m \<Rightarrow> mc_updates m | None \<Rightarrow> [])"

definition chain_removes :: "(nat \<times> member_chains) list \<Rightarrow> nat \<Rightarrow> queued_proposal list" where
  "chain_removes ms k = (case map_of ms k of Some m \<Rightarrow> mc_removes m | None \<Rightarrow> [])"

definition refs_inv :: "ordered_proposal_refs \<Rightarrow> bool" where
  "refs_inv rs \<longleftrightarrow> distinct (ordered_refs rs) \<and> proposal_refs rs = set (ordered_refs rs)"

lemma refs_inv_new [simp]: "refs_inv refs_new" "ordered_refs refs_new = []"
  by (simp_all add: refs_inv_def refs_new_def)

lemma refs_inv_add [simp]: "refs_inv rs \<Longrightarrow> refs_inv (refs_add r rs)"
  by (auto simp: refs_inv_def refs_add_def)

lemma refs_add_set [simp]: "refs_inv rs \<Longrightarrow> set (ordered_refs (refs_add r rs)) = insert r (set (ordered_refs rs))"
  by (auto simp: refs_inv_def refs_add_def)

lemma entry_updates [simp]:
  "chain_updates (entry_or_default k (\<lambda>m. m\<lparr>mc_updates := mc_updates m @ [x]\<rparr>) ms) k' =
     chain_updates ms k' @ (if k' = k then [x] else [])"
  "chain_updates (entry_or_default k (\<lambda>m. m\<lparr>mc_removes := mc_removes m @ [x]\<rparr>) ms) k' = chain_updates ms k'"
  by (auto simp: chain_updates_def entry_or_default_def update_conv' member_default_def split: option.splits)

lemma entry_removes [simp]:
  "chain_removes (entry_or_default k (\<lambda>m. m\<lparr>mc_removes := mc_removes m @ [x]\<rparr>) ms) k' =
     chain_removes ms k' @ (if k' = k then [x] else [])"
  "chain_removes (entry_or_default k (\<lambda>m. m\<lparr>mc_updates := mc_updates m @ [x]\<rparr>) ms) k' = chain_removes ms k'"
  by (auto simp: chain_removes_def entry_or_default_def update_conv' member_default_def split: option.splits)

text \<open>What the state of the loop holds after the proposals \<^term>\<open>xs\<close>.\<close>

definition filter_inv :: "nat \<Rightarrow> queued_proposal list \<Rightarrow> filter_state \<Rightarrow> bool" where
  "filter_inv own_index xs st \<longleftrightarrow>
     (\<forall>k. chain_updates (fs_members st) k = filter (updates_of own_index k) xs) \<and>
     (\<forall>k. chain_removes (fs_members st) k = filter (removal_of k) xs) \<and>
     refs_inv (fs_adds st) \<and> ordered_refs (fs_adds st) = map qp_reference (first_refs (filter is_add xs)) \<and>
     refs_inv (fs_valid st) \<and> set (ordered_refs (fs_valid st)) = qp_reference ` kept_valid xs \<and>
     (\<forall>r x. fs_pool st r = Some x \<longrightarrow> x \<in> set xs \<and> qp_reference x = r) \<and>
     qp_reference ` (set xs - {x. is_external_init x} \<union> kept_valid xs) \<subseteq> dom (fs_pool st) \<and>
     (fs_own_updates st \<longleftrightarrow> (\<exists>x \<in> set xs. own_update own_index x)) \<and>
     (fs_external_init st \<longleftrightarrow> (\<exists>x \<in> set xs. is_external_init x))"

lemma filter_inv_init: "filter_inv own_index [] filter_init"
  by (simp add: filter_inv_def filter_init_def chain_updates_def chain_removes_def kept_valid_def first_refs_def)

lemma kept_valid_snoc:
  "kept_valid (xs @ [x]) =
     kept_valid xs \<union> (if is_plain x \<or> (is_external_init x \<and> \<not> (\<exists>y \<in> set xs. is_external_init y)) then {x} else {})"
proof -
  have hd: "hd (filter is_external_init (xs @ [x])) = hd (filter is_external_init xs)"
    if "\<exists>y \<in> set xs. is_external_init y"
  proof -
    have "filter is_external_init xs \<noteq> []" using that by (auto simp: filter_empty_conv)
    then show ?thesis by simp
  qed
  have nil: "filter is_external_init xs = []" if "\<not> (\<exists>y \<in> set xs. is_external_init y)"
    using that by (simp add: filter_empty_conv)
  have mem: "hd (filter is_external_init xs) \<in> set xs" if "\<exists>y \<in> set xs. is_external_init y"
    using that by (metis filter_empty_conv filter_is_subset hd_in_set subsetD)
  show ?thesis
  proof (cases "\<exists>y \<in> set xs. is_external_init y")
    case True
    then show ?thesis using hd [OF True] mem [OF True] by (auto simp: kept_valid_def)
  next
    case False
    then show ?thesis using nil [OF False] by (auto simp: kept_valid_def)
  qed
qed

lemma refs_add_ordered:
  "refs_inv rs \<Longrightarrow> ordered_refs (refs_add r rs) =
     (if r \<in> set (ordered_refs rs) then ordered_refs rs else ordered_refs rs @ [r])"
  by (simp add: refs_inv_def refs_add_def)

lemmas kind_defs = is_add_def is_plain_def is_external_init_def updates_of_def removal_of_def own_update_def

lemma filter_step_inv:
  assumes "filter_inv own_index xs st" "filterable x"
  shows "\<exists>st'. filter_step own_index x st = Inr st' \<and> filter_inv own_index (xs @ [x]) st'"
proof (cases "qp_proposal x")
  case (Add kp)
  then show ?thesis using assms
    by (auto simp: filter_inv_def filter_step_def pool_insert_def kept_valid_snoc kind_defs first_refs_snoc
        refs_add_ordered)
next
  case (Update l)
  then obtain i where "qp_sender x = SenderMember i" using assms(2) by (auto simp: filterable_def)
  then show ?thesis using assms Update
    by (auto simp: filter_inv_def filter_step_def pool_insert_def kept_valid_snoc kind_defs)
next
  case (Remove k)
  then show ?thesis using assms
    by (auto simp: filter_inv_def filter_step_def pool_insert_def kept_valid_snoc kind_defs)
next
  case (PreSharedKey k)
  then show ?thesis using assms
    by (auto simp: filter_inv_def filter_step_def pool_insert_def valid_add_def kept_valid_snoc kind_defs)
next
  case (ReInit r)
  then show ?thesis using assms
    by (auto simp: filter_inv_def filter_step_def pool_insert_def kept_valid_snoc kind_defs)
next
  case (ExternalInit r)
  then show ?thesis using assms
    by (cases "fs_external_init st")
      (auto simp: filter_inv_def filter_step_def pool_insert_def valid_add_def kept_valid_snoc kind_defs)
next
  case (GroupContextExtensions r)
  then show ?thesis using assms
    by (auto simp: filter_inv_def filter_step_def pool_insert_def valid_add_def kept_valid_snoc kind_defs)
next
  case (AppAck r)
  then show ?thesis using assms by (simp add: filterable_def)
next
  case (Custom t r)
  then show ?thesis using assms
    by (auto simp: filter_inv_def filter_step_def pool_insert_def valid_add_def kept_valid_snoc kind_defs)
qed

lemma filter_loop_inv:
  "filter_inv own_index xs st \<Longrightarrow> \<forall>x \<in> set ys. filterable x \<Longrightarrow>
   \<exists>st'. filter_loop own_index ys st = Inr st' \<and> filter_inv own_index (xs @ ys) st'"
proof (induction ys arbitrary: xs st)
  case (Cons y ys)
  obtain st1 where "filter_step own_index y st = Inr st1" "filter_inv own_index (xs @ [y]) st1"
    using filter_step_inv [of own_index xs st y] Cons.prems by auto
  then show ?case using Cons.IH [of "xs @ [y]" st1] Cons.prems by simp
qed simp

lemma filter_step_error:
  "\<not> filterable x \<Longrightarrow> \<exists>e. filter_step own_index x st = Inl e"
  by (auto simp: filterable_def filter_step_def split: proposal.splits sender.splits)

lemma filter_loop_error:
  "\<exists>x \<in> set xs. \<not> filterable x \<Longrightarrow> \<exists>e. filter_loop own_index xs st = Inl e"
proof (induction xs arbitrary: st)
  case (Cons x xs)
  show ?case
  proof (cases "filter_step own_index x st")
    case (Inr st1)
    then have "filterable x" using filter_step_error [of x own_index st] by auto
    then show ?thesis using Cons Inr by simp
  qed simp
qed simp

lemma member_refs_eq:
  assumes "filter_inv own_index xs st" "map_of (fs_members st) k = Some m"
  shows "member_refs m = map qp_reference (on_leaf own_index xs k)"
proof -
  have "mc_updates m = filter (updates_of own_index k) xs" "mc_removes m = filter (removal_of k) xs"
    using assms by (auto simp: filter_inv_def chain_updates_def chain_removes_def dest: spec [of _ k])
  then show ?thesis by (auto simp: member_refs_def on_leaf_def filter_empty_conv)
qed

lemma on_leaf_unknown:
  assumes "filter_inv own_index xs st" "map_of (fs_members st) k = None"
  shows "on_leaf own_index xs k = []"
proof -
  have "filter (updates_of own_index k) xs = []" "filter (removal_of k) xs = []"
    using assms by (auto simp: filter_inv_def chain_updates_def chain_removes_def dest: spec [of _ k])
  then show ?thesis by (auto simp: on_leaf_def filter_empty_conv)
qed

lemma refs_foldl:
  "refs_inv v \<Longrightarrow> refs_inv (foldl (\<lambda>v r. refs_add r v) v rs) \<and>
     set (ordered_refs (foldl (\<lambda>v r. refs_add r v) v rs)) = set (ordered_refs v) \<union> set rs"
  by (induction rs arbitrary: v) auto

lemma members_loop_set:
  assumes "filter_inv own_index xs st" "\<forall>ks. set (hash_order ks) = set ks"
  shows "set (ordered_refs (members_loop hash_order (fs_members st) (fs_valid st))) =
    qp_reference ` (kept_valid xs \<union> (\<Union>k. set (on_leaf own_index xs k)))"
proof -
  have step: "refs_inv v \<Longrightarrow>
      let v' = foldl (\<lambda>valid k. case map_of (fs_members st) k of
                 Some m \<Rightarrow> foldl (\<lambda>v r. refs_add r v) valid (member_refs m) | None \<Rightarrow> valid) v ks in
      refs_inv v' \<and>
      set (ordered_refs v') = set (ordered_refs v) \<union> qp_reference ` (\<Union>k \<in> set ks. set (on_leaf own_index xs k))"
    for v ks
  proof (induction ks arbitrary: v)
    case (Cons k ks)
    show ?case
    proof (cases "map_of (fs_members st) k")
      case None
      then show ?thesis using Cons on_leaf_unknown [OF assms(1) None] by (simp add: Let_def)
    next
      case (Some m)
      then show ?thesis
        using Cons.IH [of "foldl (\<lambda>v r. refs_add r v) v (member_refs m)"] Cons.prems refs_foldl [of v "member_refs m"]
          member_refs_eq [OF assms(1) Some]
        by (auto simp: Let_def)
    qed
  qed simp
  have "(\<Union>k \<in> set (map fst (fs_members st)). set (on_leaf own_index xs k)) = (\<Union>k. set (on_leaf own_index xs k))"
  proof -
    have "on_leaf own_index xs k = []" if "k \<notin> set (map fst (fs_members st))" for k
      using on_leaf_unknown [OF assms(1)] that by (simp add: map_of_eq_None_iff)
    then show ?thesis by (force simp del: set_map)
  qed
  then show ?thesis
    using step [of "fs_valid st" "hash_order (map fst (fs_members st))"] assms
    by (simp add: members_loop_def Let_def filter_inv_def image_Un)
qed

lemma retain_loop_eq:
  "set rs \<subseteq> dom pool \<Longrightarrow> retain_loop pool rs q = Inr (foldl (\<lambda>q x. pq_add x q) q (map (the \<circ> pool) rs))"
  by (induction rs arbitrary: q) auto

lemma last_filter: "\<exists>x \<in> set xs. P x \<Longrightarrow> last (filter P xs) \<in> set xs \<and> P (last (filter P xs))"
proof -
  assume "\<exists>x \<in> set xs. P x"
  then have "filter P xs \<noteq> []" by (simp add: filter_empty_conv)
  then have "last (filter P xs) \<in> set (filter P xs)" by (rule last_in_set)
  then show ?thesis by simp
qed

lemma on_leaf_sub: "set (on_leaf own_index xs k) \<subseteq> {x \<in> set xs. removal_of k x \<or> updates_of own_index k x}"
  using last_filter [of xs "removal_of k"] last_filter [of xs "updates_of own_index k"] by (auto simp: on_leaf_def)

lemma kept_sub: "kept own_index xs \<subseteq> set xs"
  using on_leaf_sub by (fastforce simp: kept_def kept_valid_def)

lemma first_refs_append:
  "first_refs (xs @ ys) = first_refs xs @ filter (\<lambda>y. qp_reference y \<notin> qp_reference ` set xs) (first_refs ys)"
proof (induction ys rule: rev_induct)
  case Nil
  then show ?case by (simp add: first_refs_def [of "[]"])
next
  case (snoc y ys)
  have "first_refs (xs @ ys @ [y]) =
    (if qp_reference y \<in> qp_reference ` set (xs @ ys) then first_refs (xs @ ys) else first_refs (xs @ ys) @ [y])"
    using first_refs_snoc [of "xs @ ys" y] first_refs_refs [of "xs @ ys"] by simp
  then show ?case using snoc first_refs_snoc [of ys y] first_refs_refs [of ys] by (auto simp: image_Un)
qed

lemma first_refs_idem: "distinct (map qp_reference xs) \<Longrightarrow> first_refs xs = xs"
proof (induction xs rule: rev_induct)
  case (snoc x xs)
  then show ?case by (auto simp: first_refs_snoc)
qed (simp add: first_refs_def)

lemma first_refs_distinct: "distinct (map qp_reference (first_refs xs))"
  by (induction xs rule: rev_induct) (auto simp: first_refs_snoc first_refs_def [of "[]"])

lemma add_kind:
  "is_add x \<Longrightarrow> \<not> is_plain x \<and> \<not> is_external_init x \<and> \<not> removal_of k x \<and> \<not> updates_of own_index k x"
  by (cases "qp_proposal x") (simp_all add: kind_defs)

lemma external_init_kind: "is_external_init x \<Longrightarrow> \<not> removal_of k x \<and> \<not> updates_of own_index k x"
  by (cases "qp_proposal x") (simp_all add: kind_defs)

lemma kept_rest_sub:
  "kept_valid xs \<union> (\<Union>k. set (on_leaf own_index xs k)) \<subseteq> {x \<in> set xs. \<not> is_add x}"
  by (auto simp: kept_valid_def dest!: subsetD [OF on_leaf_sub] dest: add_kind)

lemma kept_pooled: "kept own_index xs \<subseteq> set xs - {x. is_external_init x} \<union> kept_valid xs"
  by (auto simp: kept_def dest!: subsetD [OF on_leaf_sub] dest: add_kind external_init_kind)

lemma filter_inv_pool:
  assumes "filter_inv own_index xs st" "inj_on qp_reference (set xs)" "x \<in> kept own_index xs"
  shows "fs_pool st (qp_reference x) = Some x"
proof -
  have sub: "qp_reference ` (set xs - {x. is_external_init x} \<union> kept_valid xs) \<subseteq> dom (fs_pool st)"
    and src: "\<And>r y. fs_pool st r = Some y \<Longrightarrow> y \<in> set xs \<and> qp_reference y = r"
    using assms(1) by (simp_all add: filter_inv_def)
  have "qp_reference x \<in> dom (fs_pool st)" using sub kept_pooled assms(3) by blast
  then obtain y where "fs_pool st (qp_reference x) = Some y" by blast
  then show ?thesis using src [of "qp_reference x" y] assms(2,3) kept_sub [of own_index xs] by (auto dest: inj_onD)
qed

theorem filter_kept:
  assumes inj: "inj_on qp_reference (set xs)" and ok: "\<forall>x \<in> set xs. filterable x"
    and order: "\<forall>ks. set (hash_order ks) = set ks"
  shows "\<exists>q rest. filter_proposals_without_inline hash_order xs own_index =
      Inr (q, \<exists>x \<in> set xs. own_update own_index x) \<and> pq_inv q \<and>
    pq_queued_proposals q = first_refs (filter is_add xs) @ rest \<and>
    set (pq_queued_proposals q) = kept own_index xs \<and> (\<forall>x \<in> set rest. \<not> is_add x)"
proof -
  obtain st where st: "filter_loop own_index xs filter_init = Inr st" "filter_inv own_index xs st"
    using filter_loop_inv [OF filter_inv_init, of xs own_index] ok by auto
  define valid where "valid = members_loop hash_order (fs_members st) (fs_valid st)"
  have valid: "set (ordered_refs valid) = qp_reference ` (kept_valid xs \<union> (\<Union>k. set (on_leaf own_index xs k)))"
    using members_loop_set [OF st(2) order] by (simp add: valid_def)
  note rest_sub = kept_rest_sub [of xs own_index]
  note pool = filter_inv_pool [OF st(2) inj]
  define as where "as = first_refs (filter is_add xs)"
  have as: "set as = {x \<in> set xs. is_add x}"
    using first_refs_inj [of "filter is_add xs"] inj by (auto simp: as_def inj_on_def)
  define ys where "ys = map (the \<circ> fs_pool st) (ordered_refs valid)"
  have ys: "set ys = kept_valid xs \<union> (\<Union>k. set (on_leaf own_index xs k))"
  proof -
    have "the (fs_pool st (qp_reference x)) = x" if "x \<in> kept_valid xs \<union> (\<Union>k. set (on_leaf own_index xs k))" for x
      using pool [of x] that by (auto simp: kept_def)
    then show ?thesis by (auto simp: ys_def valid image_image)
  qed
  have adds: "map (the \<circ> fs_pool st) (ordered_refs (fs_adds st)) = as"
  proof -
    have "map (\<lambda>x. the (fs_pool st (qp_reference x))) as = as"
      using pool as by (intro map_idI) (auto simp: kept_def)
    then show ?thesis using st(2) by (simp add: filter_inv_def as_def comp_def)
  qed
  have dom: "set (ordered_refs (fs_adds st) @ ordered_refs valid) \<subseteq> dom (fs_pool st)"
  proof -
    have "set (ordered_refs (fs_adds st)) = qp_reference ` set as" using st(2) by (simp add: filter_inv_def as_def)
    then have "set (ordered_refs (fs_adds st) @ ordered_refs valid) = qp_reference ` kept own_index xs"
      using as valid by (simp add: kept_def image_Un Un_assoc)
    moreover have "qp_reference ` kept own_index xs \<subseteq> dom (fs_pool st)" using pool by auto
    ultimately show ?thesis by simp
  qed
  define q where "q = foldl (\<lambda>q x. pq_add x q) pq_default (as @ ys)"
  have q: "pq_inv q" "pq_queued_proposals q = first_refs (as @ ys)" using pq_foldl_add [of "as @ ys"] by (simp_all add: q_def)
  have "first_refs as = as" using first_refs_idem [OF first_refs_distinct] by (simp add: as_def)
  then have "pq_queued_proposals q = as @ filter (\<lambda>y. qp_reference y \<notin> qp_reference ` set as) (first_refs ys)"
    using q(2) by (simp add: first_refs_append)
  moreover have "set (pq_queued_proposals q) = kept own_index xs"
  proof -
    have "inj_on qp_reference (set (as @ ys))"
      using inj by (rule inj_on_subset) (use as ys rest_sub in auto)
    then show ?thesis using first_refs_inj [of "as @ ys"] q(2) as ys by (auto simp: kept_def)
  qed
  moreover have "filter_proposals_without_inline hash_order xs own_index = Inr (q, \<exists>x \<in> set xs. own_update own_index x)"
    using st retain_loop_eq [OF dom, of pq_default] adds
    by (simp add: filter_proposals_without_inline_def Let_def valid_def [symmetric] ys_def [symmetric] q_def filter_inv_def)
  moreover have "\<forall>x \<in> set (filter (\<lambda>y. qp_reference y \<notin> qp_reference ` set as) (first_refs ys)). \<not> is_add x"
    using subset_trans [OF first_refs_sub [of ys, unfolded ys] rest_sub] by auto
  ultimately show ?thesis using q(1) unfolding as_def by (intro exI conjI)
qed

lemma on_leaf_update:
  assumes "\<exists>x \<in> set xs. updates_of own_index k x" and "\<not> (\<exists>x \<in> set xs. removal_of k x)"
  shows "\<exists>x \<in> kept own_index xs. updates_of own_index k x"
proof -
  have "last (filter (updates_of own_index k) xs) \<in> set (on_leaf own_index xs k)" using assms by (simp add: on_leaf_def)
  then have "last (filter (updates_of own_index k) xs) \<in> kept own_index xs" by (auto simp: kept_def)
  then show ?thesis using last_filter [OF assms(1)] by blast
qed

text \<open>An update that is kept is inlined in the commit, and receivers refuse it there.\<close>

lemma covered_update_rejected:
  assumes "inj_on qp_reference (set xs)" and "\<forall>x \<in> set xs. filterable x"
    and "\<forall>ks. set (hash_order ks) = set ks"
    and "\<exists>x \<in> set xs. updates_of own_index k x" and "\<not> (\<exists>x \<in> set xs. removal_of k x)"
    and "filter_proposals_without_inline hash_order xs own_index = Inr (q, own_updates)"
    and "commit_proposals c = pq_commit_list q"
  shows "\<exists>e. commit_validate V cs sc version c = Inl e"
proof (rule ccontr)
  assume "\<not> ?thesis"
  then obtain c' where c': "commit_validate V cs sc version c = Inr c'"
    by (cases "commit_validate V cs sc version c") auto
  have "set (pq_queued_proposals q) = kept own_index xs"
    using filter_kept [OF assms(1-3), of own_index] assms(6) by auto
  then obtain x where x: "x \<in> set (pq_queued_proposals q)" "updates_of own_index k x"
    using on_leaf_update [OF assms(4,5)] by blast
  have "InlineProposal (qp_proposal x) \<in> set (commit_proposals c)"
    using x(1) assms(7) by (auto simp: pq_commit_list_eq)
  then have "proposal_type_of (qp_proposal x) \<noteq> UpdateType" using commit_validate_facts(1) [OF c'] by blast
  then show False using x(2) by (simp add: updates_of_def split: proposal.splits)
qed

lemma resolve_committed_facts:
  assumes "resolve_committed P F cs known s pr = Inr x"
  shows "\<not> is_self_removal (qp_proposal x) s"
    and "pr = InlineProposal (qp_proposal x) \<and> qp_sender x = s \<and>
        proposal_ref_from_raw_proposal P F cs (qp_proposal x) = Inr (qp_reference x) \<or>
      (\<exists>r. pr = ProposalReference r \<and> known r = Some x)"
  using assms
  by (auto simp: resolve_committed_def queued_from_proposal_and_sender_def try_bind_eq_Inr
      split: proposal_or_ref.splits if_splits option.splits)

lemma resolve_all_facts:
  assumes "resolve_all P F cs known s prs = Inr xs"
  shows "x \<in> set xs \<Longrightarrow> \<exists>pr \<in> set prs. resolve_committed P F cs known s pr = Inr x"
    and "pr \<in> set prs \<Longrightarrow> \<exists>x \<in> set xs. resolve_committed P F cs known s pr = Inr x"
proof -
  have "(\<forall>x \<in> set xs. \<exists>pr \<in> set prs. resolve_committed P F cs known s pr = Inr x) \<and>
    (\<forall>pr \<in> set prs. \<exists>x \<in> set xs. resolve_committed P F cs known s pr = Inr x)"
    using assms
  proof (induction prs arbitrary: xs)
    case (Cons pr prs)
    then obtain y ys where "resolve_committed P F cs known s pr = Inr y" "xs = y # ys"
      and "resolve_all P F cs known s prs = Inr ys"
      by (auto simp: try_bind_eq_Inr)
    then show ?case using Cons.IH by auto
  qed simp
  then show "x \<in> set xs \<Longrightarrow> \<exists>pr \<in> set prs. resolve_committed P F cs known s pr = Inr x"
    and "pr \<in> set prs \<Longrightarrow> \<exists>x \<in> set xs. resolve_committed P F cs known s pr = Inr x"
    by blast+
qed

lemma find_rev_Some: "find P (rev xs) = Some x \<Longrightarrow> x \<in> set xs \<and> P x"
  by (metis find_Some_iff nth_mem set_rev)

lemma from_committed_facts:
  assumes "from_committed_proposals P F cs committed st s = Inr q"
  shows "pq_inv q \<and>
    (\<forall>x \<in> set (pq_queued_proposals q). \<not> is_self_removal (qp_proposal x) s \<and>
      (InlineProposal (qp_proposal x) \<in> set committed \<and> qp_sender x = s \<or>
       ProposalReference (qp_reference x) \<in> set committed \<and> x \<in> set st)) \<and>
    (\<forall>r. ProposalReference r \<in> set committed \<longrightarrow> r \<in> set (pq_references q)) \<and>
    (\<forall>p. InlineProposal p \<in> set committed \<longrightarrow>
      (\<exists>r \<in> set (pq_references q). proposal_ref_from_raw_proposal P F cs p = Inr r))"
proof -
  define known where "known = (\<lambda>r. find (\<lambda>x. qp_reference x = r) (rev st))"
  have known: "known r = Some x \<Longrightarrow> x \<in> set st \<and> qp_reference x = r" for r x
    unfolding known_def by (rule find_rev_Some)
  obtain xs where xs: "resolve_all P F cs known s committed = Inr xs"
    and q: "q = foldl (\<lambda>q x. pq_add x q) pq_default xs"
  proof -
    have "foldl (\<lambda>known x. known(qp_reference x \<mapsto> x)) Map.empty st = known"
      by (rule ext) (simp add: known_lookup known_def)
    then show thesis using assms that
      by (auto simp: from_committed_proposals_def committed_loop_eq try_bind_eq_Inr)
  qed
  have inv: "pq_inv q" and list: "pq_queued_proposals q = first_refs xs" using pq_foldl_add [of xs] by (simp_all add: q)
  have refs: "set (pq_references q) = qp_reference ` set xs"
    using pq_references_eq [OF inv] first_refs_refs [of xs] by (metis list set_map)
  have "\<not> is_self_removal (qp_proposal x) s \<and>
      (InlineProposal (qp_proposal x) \<in> set committed \<and> qp_sender x = s \<or>
       ProposalReference (qp_reference x) \<in> set committed \<and> x \<in> set st)"
    if x: "x \<in> set (pq_queued_proposals q)" for x
  proof -
    have "x \<in> set xs" using x first_refs_sub [of xs] by (auto simp: list)
    then obtain pr where pr: "pr \<in> set committed" "resolve_committed P F cs known s pr = Inr x"
      using resolve_all_facts(1) [OF xs] by blast
    show ?thesis using resolve_committed_facts [OF pr(2)] pr(1) known by blast
  qed
  moreover have "r \<in> set (pq_references q)" if r: "ProposalReference r \<in> set committed" for r
  proof -
    obtain x where x: "x \<in> set xs" "resolve_committed P F cs known s (ProposalReference r) = Inr x"
      using resolve_all_facts(2) [OF xs r] by blast
    then show ?thesis using resolve_committed_facts(2) [OF x(2)] known refs by auto
  qed
  moreover have "\<exists>r \<in> set (pq_references q). proposal_ref_from_raw_proposal P F cs p = Inr r"
    if p: "InlineProposal p \<in> set committed" for p
  proof -
    obtain x where x: "x \<in> set xs" "resolve_committed P F cs known s (InlineProposal p) = Inr x"
      using resolve_all_facts(2) [OF xs p] by blast
    then show ?thesis using resolve_committed_facts(2) [OF x(2)] refs by auto
  qed
  ultimately show ?thesis using inv by blast
qed

end
