(* ===== verification/Past_Secrets.thy ===== *)
theory Past_Secrets
  imports Key_Schedule
begin

text \<open>
  The message secrets of past epochs (\<open>group/mls_group/past_secrets.rs\<close>), with the members of those
  epochs (\<open>Member\<close> of \<open>group/mls_group/mod.rs\<close>). A queue is a list whose front is its oldest entry.
\<close>

record member =
  member_index :: nat
  member_credential :: credential
  member_encryption_key :: bytes
  member_signature_key :: bytes

record epoch_tree =
  et_epoch :: group_epoch
  et_message_secrets :: message_secrets
  et_leaves :: "member list"

record message_secrets_store =
  mss_max_epochs :: nat
  mss_past_epoch_trees :: "epoch_tree list"
  mss_message_secrets :: message_secrets

definition mss_new_with_secret :: "nat \<Rightarrow> message_secrets \<Rightarrow> message_secrets_store" where
  "mss_new_with_secret max_epochs ms =
     \<lparr>mss_max_epochs = max_epochs, mss_past_epoch_trees = [], mss_message_secrets = ms\<rparr>"

text \<open>\<open>VecDeque::rotate_left\<close>, which panics when asked to rotate by more than the length.\<close>

definition rotate_left :: "nat \<Rightarrow> 'a list \<Rightarrow> 'a list option" where
  "rotate_left n xs = (if n \<le> length xs then Some (drop n xs @ take n xs) else None)"

definition mss_resize :: "nat \<Rightarrow> message_secrets_store \<Rightarrow> message_secrets_store option" where
  "mss_resize max_past_epochs store =
     (let old_size = mss_max_epochs store; store = store\<lparr>mss_max_epochs := max_past_epochs\<rparr> in
      if old_size > max_past_epochs
      then map_option
        (\<lambda>trees. store\<lparr>mss_past_epoch_trees := take max_past_epochs trees\<rparr>)
        (rotate_left (old_size - max_past_epochs) (mss_past_epoch_trees store))
      else Some store)"

text \<open>The queue is not empty where it is rotated, since it has as many entries as are allowed.\<close>

definition mss_add ::
  "group_epoch \<Rightarrow> message_secrets \<Rightarrow> member list \<Rightarrow> message_secrets_store \<Rightarrow> message_secrets_store" where
  "mss_add ep ms leaves store =
     (if mss_max_epochs store = 0 then store
      else
        let trees = mss_past_epoch_trees store;
            trees = (if length trees \<ge> mss_max_epochs store
                     then take (mss_max_epochs store - 1) (drop 1 trees @ take 1 trees)
                     else trees)
        in store\<lparr>mss_past_epoch_trees :=
             trees @ [\<lparr>et_epoch = ep, et_message_secrets = ms, et_leaves = leaves\<rparr>]\<rparr>)"

fun find_epoch_tree :: "group_epoch \<Rightarrow> epoch_tree list \<Rightarrow> epoch_tree option" where
  "find_epoch_tree ep [] = None"
| "find_epoch_tree ep (t # trees) = (if et_epoch t = ep then Some t else find_epoch_tree ep trees)"

text \<open>
  A mutable reference to the secrets of an epoch: the caller's update of the first entry found, and
  what it computes from it.
\<close>

fun modify_epoch_tree ::
  "group_epoch \<Rightarrow> (message_secrets \<Rightarrow> 'a \<times> message_secrets) \<Rightarrow> epoch_tree list \<Rightarrow> 'a option \<times> epoch_tree list" where
  "modify_epoch_tree ep f [] = (None, [])"
| "modify_epoch_tree ep f (t # trees) =
     (if et_epoch t = ep
      then let (a, ms) = f (et_message_secrets t) in (Some a, t\<lparr>et_message_secrets := ms\<rparr> # trees)
      else let (a, trees') = modify_epoch_tree ep f trees in (a, t # trees'))"

definition secrets_for_epoch_mut ::
  "group_epoch \<Rightarrow> (message_secrets \<Rightarrow> 'a \<times> message_secrets) \<Rightarrow> message_secrets_store \<Rightarrow>
   'a option \<times> message_secrets_store" where
  "secrets_for_epoch_mut ep f store =
     (let (a, trees) = modify_epoch_tree ep f (mss_past_epoch_trees store)
      in (a, store\<lparr>mss_past_epoch_trees := trees\<rparr>))"

definition secrets_for_epoch :: "group_epoch \<Rightarrow> message_secrets_store \<Rightarrow> message_secrets option" where
  "secrets_for_epoch ep store =
     map_option et_message_secrets (find_epoch_tree ep (mss_past_epoch_trees store))"

definition leaves_for_epoch :: "group_epoch \<Rightarrow> message_secrets_store \<Rightarrow> member list" where
  "leaves_for_epoch ep store =
     (case find_epoch_tree ep (mss_past_epoch_trees store) of Some t \<Rightarrow> et_leaves t | None \<Rightarrow> [])"

definition epoch_has_leaf :: "group_epoch \<Rightarrow> nat \<Rightarrow> message_secrets_store \<Rightarrow> bool" where
  "epoch_has_leaf ep leaf_index store =
     list_ex (\<lambda>t. et_epoch t = ep \<and> list_ex (\<lambda>m. member_index m = leaf_index) (et_leaves t))
       (mss_past_epoch_trees store)"

definition message_secrets_mut ::
  "(message_secrets \<Rightarrow> 'a \<times> message_secrets) \<Rightarrow> message_secrets_store \<Rightarrow> 'a \<times> message_secrets_store" where
  "message_secrets_mut f store =
     (let (a, ms) = f (mss_message_secrets store) in (a, store\<lparr>mss_message_secrets := ms\<rparr>))"

section \<open>A bounded history\<close>

text \<open>The store after a sequence of epochs has ended.\<close>

definition mss_after :: "nat \<Rightarrow> message_secrets \<Rightarrow> epoch_tree list \<Rightarrow> message_secrets_store" where
  "mss_after m ms ended =
     foldl (\<lambda>store t. mss_add (et_epoch t) (et_message_secrets t) (et_leaves t) store)
       (mss_new_with_secret m ms) ended"

lemma mss_after_simps:
  "mss_after m ms [] = mss_new_with_secret m ms"
  "mss_after m ms (ended @ [t]) =
     mss_add (et_epoch t) (et_message_secrets t) (et_leaves t) (mss_after m ms ended)"
  by (simp_all add: mss_after_def)

lemma mss_after_eq:
  "mss_after m ms ended =
     \<lparr>mss_max_epochs = m, mss_past_epoch_trees = drop (length ended - m) ended, mss_message_secrets = ms\<rparr>"
proof (induction ended rule: rev_induct)
  case Nil
  then show ?case by (simp add: mss_after_simps mss_new_with_secret_def)
next
  case (snoc t ended)
  consider "m = 0" | "0 < m" "length ended < m" | "0 < m" "m \<le> length ended" by linarith
  then show ?case
  proof cases
    case 3
    then have "take (m - 1) (drop 1 (drop (length ended - m) ended)) = drop (Suc (length ended) - m) ended"
      by (simp add: Suc_diff_le)
    with 3 show ?thesis unfolding mss_after_simps(2) snoc by (simp add: mss_add_def Let_def)
  qed (unfold mss_after_simps(2) snoc, simp_all add: mss_add_def Let_def)
qed

lemma find_epoch_tree_distinct:
  assumes "distinct (map et_epoch trees)" and "i < length trees"
  shows "find_epoch_tree (et_epoch (trees ! i)) trees = Some (trees ! i)"
  using assms
proof (induction trees arbitrary: i)
  case (Cons t trees)
  show ?case
  proof (cases i)
    case (Suc j)
    then have "et_epoch (trees ! j) \<in> et_epoch ` set trees" using Cons.prems(2) by simp
    then show ?thesis using Cons Suc by auto
  qed simp
qed simp

lemma find_epoch_tree_None: "find_epoch_tree ep trees = None \<longleftrightarrow> ep \<notin> et_epoch ` set trees"
  by (induction trees) auto

lemma history_window:
  assumes "distinct (map et_epoch ended)" and "i < length ended"
  shows "secrets_for_epoch (et_epoch (ended ! i)) (mss_after m ms ended) =
    (if length ended \<le> i + m then Some (et_message_secrets (ended ! i)) else None)"
proof -
  let ?k = "length ended - m"
  have d: "distinct (map et_epoch (drop ?k ended))" using assms(1) by (simp flip: drop_map)
  show ?thesis
  proof (cases "length ended \<le> i + m")
    case True
    then have "drop ?k ended ! (i - ?k) = ended ! i" "i - ?k < length (drop ?k ended)"
      using assms(2) by (simp_all add: nth_drop)
    then show ?thesis
      using find_epoch_tree_distinct [OF d, of "i - ?k"] True
      by (simp add: secrets_for_epoch_def mss_after_eq)
  next
    case False
    have "et_epoch (ended ! i) \<noteq> et_epoch (drop ?k ended ! j)" if "j < length (drop ?k ended)" for j
      using that False assms nth_eq_iff_index_eq [OF assms(1), of i "?k + j"] by (simp add: nth_map)
    then have "et_epoch (ended ! i) \<notin> et_epoch ` set (drop ?k ended)"
      by (metis imageE in_set_conv_nth)
    then show ?thesis using False by (simp add: secrets_for_epoch_def mss_after_eq find_epoch_tree_None)
  qed
qed

text \<open>Members are known exactly for the epochs whose secrets are.\<close>

lemma epoch_has_leaf_iff:
  assumes "distinct (map et_epoch ended)"
  shows "epoch_has_leaf ep i (mss_after m ms ended) \<longleftrightarrow>
    i \<in> member_index ` set (leaves_for_epoch ep (mss_after m ms ended))"
proof -
  let ?trees = "drop (length ended - m) ended"
  have d: "distinct (map et_epoch ?trees)" using assms by (simp flip: drop_map)
  have one: "t' = t" if "find_epoch_tree ep ?trees = Some t" "t' \<in> set ?trees" "et_epoch t' = ep" for t t'
    using find_epoch_tree_distinct [OF d] that by (metis in_set_conv_nth option.inject)
  have mem: "t \<in> set trees \<and> et_epoch t = ep" if "find_epoch_tree ep trees = Some t" for t trees
    using that by (induction trees) (auto split: if_splits)
  show ?thesis
  proof (cases "find_epoch_tree ep ?trees")
    case None
    then have "ep \<notin> et_epoch ` set ?trees" by (simp add: find_epoch_tree_None)
    then show ?thesis using None
      by (auto simp: epoch_has_leaf_def leaves_for_epoch_def mss_after_eq list_ex_iff)
  next
    case (Some t)
    then show ?thesis using one [OF Some] mem [OF Some]
      by (auto simp: epoch_has_leaf_def leaves_for_epoch_def mss_after_eq list_ex_iff)
  qed
qed

text \<open>
  Shrinking the store keeps the most recent epochs if the store was full; if it holds fewer epochs
  than the reduction of its size, the rotation panics.
\<close>

lemma resize_full:
  assumes "n < m" and "m \<le> length ended"
  shows "mss_resize n (mss_after m ms ended) = Some (mss_after n ms ended)"
  using assms by (simp add: mss_resize_def rotate_left_def mss_after_eq Let_def)

lemma resize_panics:
  assumes "n + length ended < m"
  shows "mss_resize n (mss_after m ms ended) = None"
  using assms by (simp add: mss_resize_def rotate_left_def mss_after_eq Let_def)

text \<open>In between it keeps the oldest epochs, behind the more recent ones, and drops those in the middle.\<close>

lemma resize_partial:
  assumes "n < m" and "length ended < m" and "m \<le> n + length ended"
  shows "mss_resize n (mss_after m ms ended) =
    Some (mss_after n ms [] \<lparr>mss_past_epoch_trees :=
      drop (m - n) ended @ take (m - max n (length ended)) ended\<rparr>)"
proof -
  have "take n (drop (m - n) ended @ take (m - n) ended) =
      drop (m - n) ended @ take (m - max n (length ended)) ended"
    using assms by (simp add: min_def max_def)
  then show ?thesis using assms by (simp add: mss_resize_def rotate_left_def mss_after_eq Let_def)
qed

end
