(* ===== verification/Sample_Messages.thy ===== *)
theory Sample_Messages
  imports Sample_Group Private_Messages Proposal_Queue Past_Secrets
begin

text \<open>
  Concrete codecs, a signer, a message and proposals for the parameters of the theories on messages,
  with the facts that show that the hypotheses of their theorems can hold.
\<close>

section \<open>Codecs and providers\<close>

definition sample_opaque :: "bytes \<Rightarrow> bytes option" where
  "sample_opaque x = (if length x < 256 then Some (of_nat (length x) # x) else None)"

fun sample_read_opaque :: "bytes \<Rightarrow> (bytes \<times> bytes) option" where
  "sample_read_opaque [] = None"
| "sample_read_opaque (n # bs) = (if unat n \<le> length bs then Some (take (unat n) bs, drop (unat n) bs) else None)"

lemma sample_opaque_read:
  "sample_opaque x = Some enc \<Longrightarrow> sample_read_opaque (enc @ rest) = Some (x, rest)"
  by (auto simp: sample_opaque_def unat_of_nat split: if_splits)

fun sample_proposal_bytes :: "proposal \<Rightarrow> bytes option" where
  "sample_proposal_bytes (Remove i) = (if i < 256 then Some [of_nat i] else None)"
| "sample_proposal_bytes _ = None"

fun sample_read_proposal :: "bytes \<Rightarrow> (proposal \<times> bytes) option" where
  "sample_read_proposal [] = None"
| "sample_read_proposal (n # bs) = Some (Remove (unat n), bs)"

lemma sample_proposal_read:
  "sample_proposal_bytes p = Some enc \<Longrightarrow> sample_read_proposal (enc @ rest) = Some (p, rest)"
  by (cases p) (auto simp: unat_of_nat split: if_splits)

definition sample_framing :: framing_codec where
  "sample_framing =
     \<lparr>tls_protocol_version = (\<lambda>v. Some [0, 1]), tls_wire_format = (\<lambda>w. Some [0, 2]),
      tls_framed_content = (\<lambda>c. Some (fc_group_id c @ fc_authenticated_data c)),
      tls_opaque = sample_opaque, tls_mac = sample_opaque, tls_proposal = sample_proposal_bytes,
      tls_commit = (\<lambda>c. None), tls_group_context = (\<lambda>gc. Some (gc_group_id gc @ gc_tree_hash gc)),
      tls_transcript_input = (\<lambda>w c s. Some (fc_group_id c @ s)),
      framing_sign_content = (\<lambda>label content. Some (str_bytes label @ content)),
      read_opaque = sample_read_opaque, read_mac = sample_read_opaque, read_proposal = sample_read_proposal,
      read_commit = (\<lambda>bs. None)\<rparr>"

lemma sample_codec_ok: "codec_ok sample_framing"
  by (simp add: codec_ok_def sample_framing_def sample_opaque_read sample_proposal_read)

fun sample_read_sender_data :: "bytes \<Rightarrow> mls_sender_data option" where
  "sample_read_sender_data (i # g # guard) =
     Some \<lparr>sd_leaf_index = unat i, sd_generation = ucast g, sd_reuse_guard = guard\<rparr>"
| "sample_read_sender_data _ = None"

definition sample_private :: private_codec where
  "sample_private =
     \<lparr>tls_private_content_aad = (\<lambda>g e ty aad. Some (g @ aad)), tls_sender_data_aad = (\<lambda>g e ty. Some g),
      tls_sender_data = (\<lambda>sd.
        if sd_leaf_index sd < 256 \<and> ucast (ucast (sd_generation sd) :: 8 word) = sd_generation sd
        then Some (of_nat (sd_leaf_index sd) # ucast (sd_generation sd) # sd_reuse_guard sd) else None),
      read_sender_data = sample_read_sender_data\<rparr>"

lemma sample_sender_data_codec_ok: "sender_data_codec_ok sample_private"
  by (auto simp: sender_data_codec_ok_def sample_private_def unat_of_nat split: if_splits)

lemma sample_aead_ok: "aead_ok sample_provider"
  by (auto simp: aead_ok_def sample_provider_def)

lemma sample_extract_ok: "extract_ok sample_provider cs"
  by (auto simp: extract_ok_def sample_provider_def hash_length_def min_def)

definition sample_signer :: signer where
  "sample_signer = \<lparr>signer_signature_scheme = ED25519, signer_sign = (\<lambda>m. Some (rev m))\<rparr>"

definition sample_check :: signature_check where
  "sample_check scheme pk m s \<longleftrightarrow> s = rev m"

lemma sample_signer_sel [simp]: "signer_sign sample_signer m = Some (rev m)"
  by (simp add: sample_signer_def)

definition sample_context :: group_context where
  "sample_context =
     \<lparr>gc_protocol_version = Mls10, gc_ciphersuite = sample_suite, gc_group_id = [5], gc_epoch = 0,
      gc_tree_hash = [6], gc_confirmed_transcript_hash = [], gc_extensions = []\<rparr>"

section \<open>An application message\<close>

definition sample_content :: authenticated_content where
  "sample_content =
     \<lparr>ac_wire_format = WirePrivateMessage,
      ac_content = \<lparr>fc_group_id = [5], fc_epoch = 0, fc_sender = SenderMember 0, fc_authenticated_data = [9],
        fc_body = BodyApplication [1, 2, 3]\<rparr>,
      ac_auth = \<lparr>auth_signature = [8, 8], auth_confirmation_tag = None\<rparr>\<rparr>"

definition sample_secrets :: "nat \<Rightarrow> message_secrets" where
  "sample_secrets own =
     \<lparr>ms_sender_data_secret = [4], ms_membership_key = [], ms_confirmation_key = [],
      ms_serialized_context = [7], ms_secret_tree = secret_tree_new [1] (full_size 1) own\<rparr>"

text \<open>The first key drawn from a fresh ratchet is that of generation zero.\<close>

lemma secret_for_encryption_first:
  assumes kdf: "kdf_ok P cs" and inv: "secret_tree_inv P cs cfg s h t"
    and own: "st_own_index t < 2 ^ h" and fresh: "sender_ratchets ty t ! st_own_index t = None"
  shows "\<exists>t'. secret_for_encryption P cs (st_own_index t) ty t =
    (Inr (0, leaf_key P cs s h (st_own_index t, ty, 0)), t')"
proof -
  let ?i = "st_own_index t" and ?s = "leaf_ratchet_secret P cs s h ty (st_own_index t)"
  obtain t1 where t1: "ensure_ratchet P cs ?i ty t = (Inr (), t1)"
      "secret_tree_inv P cs cfg s h t1" "st_own_index t1 = st_own_index t"
    and rs: "\<And>ty. sender_ratchets ty t1 = (if sender_ratchets ty t ! ?i = None then (sender_ratchets ty t)
      [?i := Some (new_ratchet (?i = st_own_index t) (leaf_ratchet_secret P cs s h ty ?i))]
      else sender_ratchets ty t)"
    by (rule ensure_ratchet_inv [OF kdf inv own]) (rule that)
  have len: "?i < length (sender_ratchets ty t1)" "?i < length (sender_ratchets ty t)"
    using secret_tree_invD(1) [OF t1(2)] secret_tree_invD(1) [OF inv] own
    by (cases ty; simp add: st_shape_def)+
  have r: "sender_ratchets ty t1 ! ?i = Some (EncryptionRatchet (initial_ratchet_secret ?s))"
    using rs [of ty] fresh len by (simp add: new_ratchet_def)
  obtain x t' where x: "secret_for_encryption P cs ?i ty t = (Inr x, t')"
    using secret_for_encryption_returns [OF kdf inv own, of ty] fresh by auto
  have "fst x = 0"
    using x t1(1) r len
    by (auto simp: secret_for_encryption_def ratchet_mut_def vec_get_def ratchet_forward_def Let_def
        initial_ratchet_secret_def try_bind_eq_Inr split: sum.splits option.splits if_splits)
  then show ?thesis using secret_for_encryption_at(1) [OF kdf inv own, of ty 0 "snd x" t'] x by (cases x) auto
qed

lemma sample_secrets_sel [simp]:
  "ms_secret_tree (sample_secrets own) = secret_tree_new [1] (full_size 1) own"
  "ms_sender_data_secret (sample_secrets own) = [4]" "ms_serialized_context (sample_secrets own) = [7]"
  by (simp_all add: sample_secrets_def)

lemma sample_tree_inv:
  "own < 2 \<Longrightarrow> secret_tree_inv sample_provider sample_suite sender_ratchet_configuration_default [1] 1
     (secret_tree_new [1] (full_size 1) own)"
  "own < 2 \<Longrightarrow> st_own_index (secret_tree_new [1] (full_size 1) own) = own"
  by (rule secret_tree_new_inv; simp)+

lemma sample_tree_fresh: "i < 2 \<Longrightarrow> sender_ratchets ty (secret_tree_new [1] (full_size 1) own) ! i = None"
  by (cases ty) (auto simp: secret_tree_new_def root_full less_2_cases_iff split: prod.splits)

lemma sample_aead_seal [simp]:
  "aead_seal sample_provider key msg aad nonce = Inr (msg @ replicate (tag_size (aead_mode key)) 0)"
  by (simp add: aead_seal_def sample_provider_def)

lemma sample_private_sel [simp]:
  "tls_private_content_aad sample_private g e ty aad = Some (g @ aad)"
  "tls_sender_data_aad sample_private g e ty = Some g"
  "tls_sender_data sample_private \<lparr>sd_leaf_index = 0, sd_generation = 0, sd_reuse_guard = guard\<rparr> = Some (0 # 0 # guard)"
  by (simp_all add: sample_private_def)

lemma sample_plaintext:
  "\<exists>bs. encode_padded_ciphertext_content_detached sample_framing sample_content n k = Some bs"
  by (simp add: encode_padded_ciphertext_content_detached_def sample_content_def sample_framing_def
      sample_opaque_def auth_data_serialize_def Let_def)

lemma sample_sender_data_keys:
  "\<exists>key. sender_data_aead_key sample_provider sample_suite sds ct = Inr key"
  "\<exists>nonce. sender_data_aead_nonce sample_provider sample_suite sds ct = Inr nonce"
proof -
  have len: "length (ciphertext_sample sample_suite ct) < 2 ^ 30"
    using length_ciphertext_sample [of sample_suite ct] by (simp add: hash_length_def)
  show "\<exists>key. sender_data_aead_key sample_provider sample_suite sds ct = Inr key"
    "\<exists>nonce. sender_data_aead_nonce sample_provider sample_suite sds ct = Inr nonce"
    using derive_key_nonce_ok(1,2) [OF sample_kdf_ok len]
    by (simp_all add: sender_data_aead_key_def sender_data_aead_nonce_def)
qed

lemma sample_seal:
  "\<exists>m. seal_content sample_provider sample_framing sample_private (Inr [1, 2, 3, 4]) sample_content sample_suite 0
     [4] 0 aad 0 key nonce = Inr m"
proof -
  obtain bs where bs: "encode_padded_ciphertext_content_detached sample_framing sample_content 0
      (mac_length sample_suite) = Some bs"
    using sample_plaintext by blast
  let ?ct = "bs @ replicate (tag_size (aead_mode key)) 0"
  obtain k n where "sender_data_aead_key sample_provider sample_suite [4] ?ct = Inr k"
    "sender_data_aead_nonce sample_provider sample_suite [4] ?ct = Inr n"
    using sample_sender_data_keys by blast
  then show ?thesis by (simp add: seal_content_def Let_def bs)
qed

lemma sample_encrypted:
  "\<exists>m sms'. try_from_authenticated_content sample_provider sample_framing sample_private (Inr [1, 2, 3, 4])
     sample_content sample_suite 0 (sample_secrets 0) = (Inr m, sms') \<and> prm_content_type m = ContentApplication \<and>
   (\<forall>sd. sender_data sample_provider sample_private sample_suite (sample_secrets 1) m = Inr sd \<longrightarrow> sd_generation sd = 0)"
proof -
  let ?t = "secret_tree_new [1] (full_size 1) 0"
  obtain t' where t': "secret_for_encryption sample_provider sample_suite 0 ApplicationSecret ?t =
      (Inr (0, leaf_key sample_provider sample_suite [1] 1 (0, ApplicationSecret, 0)), t')"
  proof -
    have own: "st_own_index ?t = 0" by (rule sample_tree_inv(2)) simp
    have "st_own_index ?t < 2 ^ 1" unfolding own by simp
    moreover have "sender_ratchets ApplicationSecret ?t ! st_own_index ?t = None"
      unfolding own by (rule sample_tree_fresh) simp
    moreover have "secret_tree_inv sample_provider sample_suite sender_ratchet_configuration_default [1] 1 ?t"
      by (rule sample_tree_inv(1)) simp
    ultimately show thesis
      using secret_for_encryption_first [OF sample_kdf_ok, of sample_suite _ "[1]" 1 ?t ApplicationSecret] that
      unfolding own by blast
  qed
  obtain key nonce where kn: "leaf_key sample_provider sample_suite [1] 1 (0, ApplicationSecret, 0) = (key, nonce)"
    by (metis prod.collapse)
  obtain m where m: "seal_content sample_provider sample_framing sample_private (Inr [1, 2, 3, 4]) sample_content
      sample_suite 0 [4] 0 [5, 9] 0 key nonce = Inr m"
    using sample_seal by blast
  have content: "fc_sender (ac_content sample_content) = SenderMember 0"
    "fc_group_id (ac_content sample_content) = [5]" "fc_authenticated_data (ac_content sample_content) = [9]"
    "body_content_type (fc_body (ac_content sample_content)) = ContentApplication"
    "ac_wire_format sample_content = WirePrivateMessage" "tag_fits sample_content"
    by (simp_all add: sample_content_def tag_fits_def)
  have aad: "tls_private_content_aad sample_private (fc_group_id (ac_content sample_content))
      (fc_epoch (ac_content sample_content)) (body_content_type (fc_body (ac_content sample_content)))
      (fc_authenticated_data (ac_content sample_content)) = Some [5, 9]"
    by (simp add: content)
  obtain g where "sender_data sample_provider sample_private sample_suite (sample_secrets 1) m =
      Inr \<lparr>sd_leaf_index = 0, sd_generation = 0, sd_reuse_guard = g\<rparr>"
    and "prm_content_type m = ContentApplication"
    by (rule open_sealed_content [OF sample_kdf_ok sample_aead_ok sample_codec_ok sample_sender_data_codec_ok
          content(6) aad m, of "sample_secrets 1"]) (simp_all add: content)
  moreover have "try_from_authenticated_content sample_provider sample_framing sample_private (Inr [1, 2, 3, 4])
     sample_content sample_suite 0 (sample_secrets 0) = (Inr m, (sample_secrets 0)\<lparr>ms_secret_tree := t'\<rparr>)"
    using t' kn m by (simp add: try_from_authenticated_content_def encrypt_content_def content Let_def)
  ultimately show ?thesis by simp
qed

section \<open>Keys and key packages\<close>

definition sample_export :: hpke_export_provider where
  "sample_export =
     \<lparr>hpke_setup_sender_and_export = (\<lambda>cfg pk info ctx len. Inr (info, take len (pk @ info @ ctx))),
      hpke_setup_receiver_and_export = (\<lambda>cfg kem sk info ctx len. Inr (take len (sk @ info @ ctx))),
      derive_hpke_keypair = (\<lambda>cfg ikm. Inr \<lparr>kp_public_key = ikm, kp_private_key = ikm\<rparr>)\<rparr>"

definition psk_a :: pre_shared_key_id where
  "psk_a = pre_shared_key_id_external [1] [0]"

definition psk_b :: pre_shared_key_id where
  "psk_b = pre_shared_key_id_external [2] [0]"

definition sample_key_package_codec :: key_package_codec where
  "sample_key_package_codec =
     \<lparr>tls_key_package_tbs = (\<lambda>t. Some (kpt_init_key t)), tls_key_package = (\<lambda>kp. Some (key_package_signature kp))\<rparr>"

definition sample_env :: validation_env where
  "sample_env =
     \<lparr>env_leaf_codec = sample_codec, env_key_package_codec = sample_key_package_codec,
      env_verify_signature = sample_check, env_now = Some 5\<rparr>"

lemma run_schedule_calls:
  assumes "run_schedule P cs joiner psk ctx = Inr (w, es, ks2)"
  obtains ks ks1 where "key_schedule_init cs P joiner psk = Inr ks"
    and "key_schedule_add_context P ctx ks = (Inr (), ks1)"
    and "key_schedule_epoch_secrets P cs ks1 = (Inr es, ks2)"
proof -
  obtain ks where ks: "key_schedule_init cs P joiner psk = Inr ks"
    using assms by (auto simp: run_schedule_def try_bind_eq_Inr)
  obtain r ks1 where add: "key_schedule_add_context P ctx ks = (r, ks1)" by (metis prod.collapse)
  obtain r' ks3 where es: "key_schedule_epoch_secrets P cs ks1 = (r', ks3)" by (metis prod.collapse)
  show thesis using assms that [OF ks, of ks1]
    by (cases r; cases r') (auto simp: run_schedule_def ks add es try_bind_eq_Inr)
qed

definition sample_credential :: credential where
  "sample_credential = \<lparr>cred_type = Basic, serialized_content = [0]\<rparr>"

definition sample_key_package :: "key_package_new_error + key_package \<times> encryption_key_pair" where
  "sample_key_package =
     key_package_new_from_keys sample_codec sample_key_package_codec
       (Inr \<lparr>kp_public_key = [2], kp_private_key = [2]\<rparr>) sample_suite sample_signer
       \<lparr>cwk_credential = sample_credential, cwk_signature_key = [0]\<rparr>
       \<lparr>not_before = 1, not_after = 9\<rparr> [] (leaf_capabilities (sample_payload 0)) [] [3]"

lemma sample_key_package_built:
  "\<exists>kp. sample_key_package = Inr (kp, \<lparr>kp_public_key = [2], kp_private_key = [2]\<rparr>)"
  by (simp add: sample_key_package_def key_package_new_from_keys_def leaf_new_def leaf_tbs_sign_def
      sample_codec_def sample_key_package_codec_def signable_sign_def Let_def leaf_tbs_new_def
      leaf_new_with_key_def leaf_tbs_serialize_def)

lemma sample_verified:
  "\<exists>um ac. unverified_message_verify sample_framing sample_env sample_suite Mls10 um = Inr (ac, sample_credential) \<and>
     fc_body (ac_content ac) = BodyApplication [1, 2, 3]"
proof -
  obtain ac where ac: "new_and_sign sample_framing sample_signer [9] WirePublicMessage (SenderMember 0)
      (BodyApplication [1, 2, 3]) sample_context = Inr ac"
    by (auto simp: new_and_sign_def framed_content_sign_def signable_sign_def sample_framing_def Let_def
        framed_content_tbs_new_def fct_unsigned_payload_def framed_content_tbs_serialized_def fct_with_context_def)
  have ctx: "tls_group_context sample_framing sample_context = Some [5, 6]"
    by (simp add: sample_framing_def sample_context_def)
  have v: "verifiable_content_verify sample_framing (sample_check (signature_algorithm sample_suite)) [0]
      (verifiable_content_new WirePublicMessage (ac_content ac) (Some [5, 6]) (ac_auth ac))
    = Inr \<lparr>ac_wire_format = WirePublicMessage, ac_content = ac_content ac, ac_auth = ac_auth ac\<rparr>"
    by (rule new_and_sign_verifies [OF ac ctx]) (simp_all add: sample_check_def)
  have body: "fc_body (ac_content ac) = BodyApplication [1, 2, 3]" by (simp add: new_and_sign_content(2) [OF ac])
  let ?um = "\<lparr>um_verifiable_content = verifiable_content_new WirePublicMessage (ac_content ac) (Some [5, 6]) (ac_auth ac),
    um_credential = sample_credential, um_sender_pk = [0], um_sender_context = None\<rparr>"
  have "\<exists>ac'. unverified_message_verify sample_framing sample_env sample_suite Mls10 ?um = Inr (ac', sample_credential) \<and>
      fc_body (ac_content ac') = BodyApplication [1, 2, 3]"
    using v body by (simp add: unverified_message_verify_def sample_env_def authenticated_content_validate_def)
  then show ?thesis by blast
qed

section \<open>Proposals\<close>

definition sample_update :: "nat \<Rightarrow> queued_proposal" where
  "sample_update i = \<lparr>qp_proposal = Update (sample_leaf i), qp_reference = [of_nat i], qp_sender = SenderMember i,
     qp_type = TypeReference\<rparr>"

definition sample_removal :: "nat \<Rightarrow> queued_proposal" where
  "sample_removal i = \<lparr>qp_proposal = Remove i, qp_reference = [of_nat i, 0], qp_sender = SenderMember 0,
     qp_type = TypeReference\<rparr>"

lemma sample_kept:
  "kept 0 [sample_update 1, sample_update 2, sample_removal 2, sample_update 0] = {sample_update 1, sample_removal 2}"
proof -
  let ?xs = "[sample_update 1, sample_update 2, sample_removal 2, sample_update 0]"
  have leaf: "on_leaf 0 ?xs k = (if k = 1 then [sample_update 1] else if k = 2 then [sample_removal 2] else [])" for k
    by (auto simp: on_leaf_def sample_update_def sample_removal_def removal_of_def updates_of_def)
  have none: "{x \<in> set ?xs. is_add x} = {}" "kept_valid ?xs = {}"
    by (auto simp: kept_valid_def kind_defs sample_update_def sample_removal_def)
  have "(\<Union>k. set (if k = 1 then [a] else if k = (2::nat) then [b] else [])) = {a, b}"
    for a b :: queued_proposal
  proof (intro subset_antisym subsetI)
    fix x assume "x \<in> {a, b}"
    then show "x \<in> (\<Union>k. set (if k = 1 then [a] else if k = (2::nat) then [b] else []))"
      using UN_I [of 1 UNIV x "\<lambda>k. set (if k = 1 then [a] else if k = (2::nat) then [b] else [])"]
        UN_I [of 2 UNIV x "\<lambda>k. set (if k = 1 then [a] else if k = (2::nat) then [b] else [])"]
      by fastforce
  qed (auto split: if_splits)
  then show ?thesis unfolding kept_def none leaf by simp
qed

lemma sample_committed:
  "\<exists>q. from_committed_proposals sample_provider sample_framing sample_suite
     [ProposalReference [1], InlineProposal (Remove 3)] [sample_update 1] (SenderMember 2) = Inr q"
  by (simp add: from_committed_proposals_def resolve_committed_def is_self_removal_def
      queued_from_proposal_and_sender_def proposal_ref_from_raw_proposal_def sample_framing_def sample_update_def
      make_proposal_ref_def hash_reference_new_def sample_provider_def)

end
