(* ===== verification/Welcome_Messages.thy ===== *)
theory Welcome_Messages
  imports Tree_Kem Private_Messages Pre_Shared_Keys
begin

text \<open>
  Welcome messages (\<open>messages/mod.rs\<close>, \<open>messages/group_info.rs\<close>, \<open>ciphersuite/hpke.rs\<close>,
  \<open>TreeSyncDiff::encrypt_group_secrets\<close> of \<open>treesync/treekem.rs\<close>): labelled public key encryption, the
  derivation of path secrets, group infos, the group secrets of an invited member, the part of a
  commit that builds the welcome (\<open>group/mls_group/commit_builder.rs\<close>) and its processing by the
  member (\<open>ProcessedWelcome\<close> of \<open>group/mls_group/creation.rs\<close>). The derived TLS codecs, HPKE and the
  storage are arguments.
\<close>

section \<open>Labelled public key encryption\<close>

record hpke_crypto =
  hpke_seal_prim :: "hpke_kem_type \<times> hpke_kdf_type \<times> hpke_aead_type \<Rightarrow> bytes \<Rightarrow> bytes \<Rightarrow> bytes \<Rightarrow> bytes \<Rightarrow>
    crypto_error + hpke_ciphertext"
  hpke_open_prim :: "hpke_kem_type \<times> hpke_kdf_type \<times> hpke_aead_type \<Rightarrow> hpke_ciphertext \<Rightarrow> bytes \<Rightarrow> bytes \<Rightarrow> bytes \<Rightarrow>
    crypto_error + bytes"
  tls_encrypt_context :: "bytes \<Rightarrow> bytes \<Rightarrow> bytes option"

datatype hpke_error = HpkeMissingBoundCheck | HpkeDecryptionFailed

definition encrypt_context :: "hpke_crypto \<Rightarrow> string \<Rightarrow> bytes \<Rightarrow> hpke_error + bytes" where
  "encrypt_context X label context =
     ok_or HpkeMissingBoundCheck (tls_encrypt_context X (str_bytes (''MLS 1.0 '' @ label)) context)"

definition encrypt_with_label ::
  "hpke_crypto \<Rightarrow> bytes \<Rightarrow> string \<Rightarrow> bytes \<Rightarrow> bytes \<Rightarrow> ciphersuite \<Rightarrow> hpke_error + hpke_ciphertext" where
  "encrypt_with_label X public_key label context plaintext cs =
     try_bind (encrypt_context X label context) (\<lambda>context.
       map_err (\<lambda>_. HpkeDecryptionFailed)
         (hpke_seal_prim X (hpke_config cs) public_key context [] plaintext))"

definition decrypt_with_label ::
  "hpke_crypto \<Rightarrow> bytes \<Rightarrow> string \<Rightarrow> bytes \<Rightarrow> hpke_ciphertext \<Rightarrow> ciphersuite \<Rightarrow> hpke_error + bytes" where
  "decrypt_with_label X private_key label context ct cs =
     try_bind (encrypt_context X label context) (\<lambda>context.
       map_err (\<lambda>_. HpkeDecryptionFailed)
         (hpke_open_prim X (hpke_config cs) ct private_key context []))"

text \<open>What HPKE promises for a key pair: what is sealed to the public key, the private key opens.\<close>

definition hpke_pair_ok :: "hpke_crypto \<Rightarrow> ciphersuite \<Rightarrow> bytes \<Rightarrow> bytes \<Rightarrow> bool" where
  "hpke_pair_ok X cs pk sk \<longleftrightarrow>
     (\<forall>info aad m c. hpke_seal_prim X (hpke_config cs) pk info aad m = Inr c \<longrightarrow>
        hpke_open_prim X (hpke_config cs) c sk info aad = Inr m)"

lemma decrypt_encrypt_with_label:
  "hpke_pair_ok X cs pk sk \<Longrightarrow> encrypt_with_label X pk label context m cs = Inr c \<Longrightarrow>
     decrypt_with_label X sk label context c cs = Inr m"
  by (auto simp: encrypt_with_label_def decrypt_with_label_def try_bind_eq_Inr hpke_pair_ok_def)

text \<open>The HPKE operations of path encryption are the labelled ones.\<close>

definition labelled_hpke :: "hpke_crypto \<Rightarrow> ciphersuite \<Rightarrow> hpke_provider" where
  "labelled_hpke X cs =
     \<lparr>hpke_seal = \<lambda>pk label context m.
        (case encrypt_with_label X pk label context m cs of Inr c \<Rightarrow> Some c | Inl _ \<Rightarrow> None),
      hpke_open = \<lambda>sk label context c.
        (case decrypt_with_label X sk label context c cs of Inr m \<Rightarrow> Some m | Inl _ \<Rightarrow> None)\<rparr>"

lemma labelled_hpke_open:
  assumes "hpke_pair_ok X cs pk sk" and "hpke_seal (labelled_hpke X cs) pk label context m = Some c"
  shows "hpke_open (labelled_hpke X cs) sk label context c = Some m"
  using assms(2) decrypt_encrypt_with_label [OF assms(1)]
  by (auto simp: labelled_hpke_def split: sum.splits)

section \<open>Path secrets\<close>

definition path_secret_derive_key_pair ::
  "crypto_provider \<Rightarrow> hpke_export_provider \<Rightarrow> ciphersuite \<Rightarrow> bytes \<Rightarrow> library_error + encryption_key_pair" where
  "path_secret_derive_key_pair P E cs path_secret =
     try_bind (map_err (\<lambda>_. UnexpectedCryptoError)
       (kdf_expand_label P cs path_secret ''node'' [] (hash_length cs))) (\<lambda>node_secret.
       map_err (\<lambda>_. UnexpectedCryptoError) (derive_hpke_keypair E (hpke_config cs) node_secret))"

definition path_secret_derive_path_secret ::
  "crypto_provider \<Rightarrow> ciphersuite \<Rightarrow> bytes \<Rightarrow> library_error + bytes" where
  "path_secret_derive_path_secret P cs path_secret =
     map_err (\<lambda>_. UnexpectedCryptoError)
       (kdf_expand_label P cs path_secret ''path'' [] (hash_length cs))"

definition path_secret_deriver ::
  "crypto_provider \<Rightarrow> hpke_export_provider \<Rightarrow> ciphersuite \<Rightarrow> path_deriver" where
  "path_secret_deriver P E cs =
     \<lparr>derive_path_secret = path_secret_derive_path_secret P cs,
      derive_key_pair = path_secret_derive_key_pair P E cs\<rparr>"

text \<open>
  The secrets along a path are the iterates of one derivation, and the commit secret is the next
  of them.
\<close>

definition path_iterate :: "crypto_provider \<Rightarrow> ciphersuite \<Rightarrow> bytes \<Rightarrow> nat \<Rightarrow> bytes" where
  "path_iterate P cs path_secret n = ((\<lambda>s. expand P cs s ''path'' [] (hash_length cs)) ^^ n) path_secret"

lemma path_iterate_Suc:
  "path_iterate P cs s (Suc n) = path_iterate P cs (expand P cs s ''path'' [] (hash_length cs)) n"
  by (simp only: path_iterate_def funpow_Suc_right comp_def)

lemma derive_secrets_iterates:
  assumes "kdf_ok P cs"
  shows "derive_secrets (path_secret_deriver P E cs) n s =
    Inr (map (path_iterate P cs s) [0..<n], path_iterate P cs s n)"
proof (induction n arbitrary: s)
  case (Suc n)
  have "derive_path_secret (path_secret_deriver P E cs) s = Inr (expand P cs s ''path'' [] (hash_length cs))"
    using kdf_expand_label_ok(1) [OF assms, of "hash_length cs" "''path''" "[]" s]
    by (simp add: path_secret_deriver_def path_secret_derive_path_secret_def ciphersuite_lengths)
  then show ?case
    by (simp add: Suc path_iterate_Suc map_upt_Suc del: upt_Suc)
      (simp add: path_iterate_def)
qed (simp add: path_iterate_def)

section \<open>Group infos\<close>

record group_info_tbs =
  git_group_context :: group_context
  git_extensions :: extensions
  git_confirmation_tag :: bytes
  git_signer :: nat

text \<open>A group info whose signature is yet to be verified has the same fields as a verified one.\<close>

record group_info =
  gi_payload :: group_info_tbs
  gi_signature :: bytes

record group_secrets =
  gs_joiner_secret :: bytes
  gs_path_secret :: "bytes option"
  gs_psks :: "pre_shared_key_id list"

record welcome_codec =
  tls_group_info_tbs :: "group_info_tbs \<Rightarrow> bytes option"
  tls_group_info :: "group_info \<Rightarrow> bytes option"
  read_group_info :: "bytes \<Rightarrow> (group_info \<times> bytes) option"
  tls_group_secrets :: "bytes \<Rightarrow> bytes option \<Rightarrow> pre_shared_key_id list \<Rightarrow> bytes option"
  read_group_secrets :: "bytes \<Rightarrow> (group_secrets \<times> bytes) option"
  welcome_sign_content :: sign_content_codec

definition signature_group_info_label :: string where
  "signature_group_info_label = ''GroupInfoTBS''"

definition group_info_sign ::
  "welcome_codec \<Rightarrow> signer \<Rightarrow> group_info_tbs \<Rightarrow> signature_error + group_info" where
  "group_info_sign W signer tbs =
     try_bind (signable_sign (welcome_sign_content W) signer signature_group_info_label (tls_group_info_tbs W tbs))
       (\<lambda>signature. Inr \<lparr>gi_payload = tbs, gi_signature = signature\<rparr>)"

definition group_info_verify ::
  "welcome_codec \<Rightarrow> (bytes \<Rightarrow> bytes \<Rightarrow> bytes \<Rightarrow> bool) \<Rightarrow> bytes \<Rightarrow> group_info \<Rightarrow> signature_error + group_info" where
  "group_info_verify W verify_signature pk vgi =
     try_bind (verify_no_out (welcome_sign_content W) verify_signature pk signature_group_info_label
       (tls_group_info_tbs W (gi_payload vgi)) (gi_signature vgi)) (\<lambda>_.
       Inr \<lparr>gi_payload = gi_payload vgi, gi_signature = gi_signature vgi\<rparr>)"

lemma group_info_sign_verify:
  assumes "group_info_sign W signer tbs = Inr gi"
    and "\<And>m s. signer_sign signer m = Some s \<Longrightarrow> verify_signature pk m s"
  shows "group_info_verify W verify_signature pk gi = Inr gi \<and> gi_payload gi = tbs"
  using assms signable_sign_verify [of "welcome_sign_content W" signer]
  by (auto simp: group_info_sign_def group_info_verify_def try_bind_eq_Inr)

datatype group_info_error = GiDecryptionFailed | GiMalformed

definition group_info_try_from_ciphertext ::
  "crypto_provider \<Rightarrow> welcome_codec \<Rightarrow> aead_key \<Rightarrow> bytes \<Rightarrow> bytes \<Rightarrow> bytes \<Rightarrow> group_info_error + group_info" where
  "group_info_try_from_ciphertext P W skey nonce ct context =
     try_bind (map_err (\<lambda>_. GiDecryptionFailed) (aead_open P skey ct context nonce)) (\<lambda>plaintext.
       case read_group_info W plaintext of
         None \<Rightarrow> Inl GiMalformed
       | Some (vgi, rest) \<Rightarrow> if rest \<noteq> [] then Inl GiMalformed else Inr vgi)"

section \<open>Group secrets\<close>

datatype group_secrets_error = GsDecryptionFailed | GsMalformed

definition group_secrets_try_from_ciphertext ::
  "hpke_crypto \<Rightarrow> welcome_codec \<Rightarrow> bytes \<Rightarrow> hpke_ciphertext \<Rightarrow> bytes \<Rightarrow> ciphersuite \<Rightarrow>
   group_secrets_error + group_secrets" where
  "group_secrets_try_from_ciphertext X W skey ct context cs =
     try_bind (map_err (\<lambda>_. GsDecryptionFailed) (decrypt_with_label X skey ''Welcome'' context ct cs))
       (\<lambda>plaintext.
       case read_group_secrets W plaintext of
         Some (gs, []) \<Rightarrow> Inr gs
       | _ \<Rightarrow> Inl GsMalformed)"

record encrypted_group_secrets =
  egs_new_member :: bytes
  egs_encrypted_group_secrets :: hpke_ciphertext

record welcome_message =
  w_cipher_suite :: ciphersuite
  w_secrets :: "encrypted_group_secrets list"
  w_encrypted_group_info :: bytes

definition find_encrypted_group_secret :: "bytes \<Rightarrow> welcome_message \<Rightarrow> encrypted_group_secrets option" where
  "find_encrypted_group_secret hash_ref w = List.find (\<lambda>egs. hash_ref = egs_new_member egs) (w_secrets w)"

definition encrypt_secrets_for ::
  "crypto_provider \<Rightarrow> hpke_crypto \<Rightarrow> key_package_codec \<Rightarrow> welcome_codec \<Rightarrow> bytes \<Rightarrow>
   plain_update_path_node list option \<Rightarrow> pre_shared_key_id list \<Rightarrow> bytes \<Rightarrow> nat \<Rightarrow> tree_sync_diff \<Rightarrow>
   nat \<times> key_package \<Rightarrow> library_error + encrypted_group_secrets" where
  "encrypt_secrets_for P X KC W joiner_secret plain_path_option psks encrypted_group_info
     encryptor_leaf_index d = (\<lambda>(leaf_index, key_package).
     try_bind (map_err (\<lambda>_. CustomError ''Unexpected error in subtree_root_position'')
       (subtree_root_position d encryptor_leaf_index leaf_index)) (\<lambda>direct_path_position.
     try_bind
       (case plain_path_option of
          Some plain_path \<Rightarrow>
            (case vec_get plain_path direct_path_position of
               Some pupn \<Rightarrow> Inr (Some (plain_path_secret pupn))
             | None \<Rightarrow> Inl (CustomError ''Invalid plain path''))
        | None \<Rightarrow> Inr None) (\<lambda>path_secret_option.
     try_bind (ok_or MissingBoundCheck (tls_group_secrets W joiner_secret path_secret_option psks))
       (\<lambda>group_secrets_bytes.
     try_bind (map_err (\<lambda>_. CustomError (''Error while encrypting group secrets. This could have really '' @
         ''only been a missing bounds check in the serialization''))
       (encrypt_with_label X (kpt_init_key (key_package_payload key_package)) ''Welcome''
          encrypted_group_info group_secrets_bytes (key_package_ciphersuite key_package)))
       (\<lambda>ct.
     try_bind (key_package_hash_ref P KC key_package) (\<lambda>hash_ref.
       Inr \<lparr>egs_new_member = hash_ref, egs_encrypted_group_secrets = ct\<rparr>))))))"

definition encrypt_group_secrets ::
  "crypto_provider \<Rightarrow> hpke_crypto \<Rightarrow> key_package_codec \<Rightarrow> welcome_codec \<Rightarrow> bytes \<Rightarrow>
   (nat \<times> key_package) list \<Rightarrow> plain_update_path_node list option \<Rightarrow> pre_shared_key_id list \<Rightarrow> bytes \<Rightarrow>
   nat \<Rightarrow> tree_sync_diff \<Rightarrow> library_error + encrypted_group_secrets list" where
  "encrypt_group_secrets P X KC W joiner_secret invited_members plain_path_option psks
     encrypted_group_info encryptor_leaf_index d =
     collect_results (encrypt_secrets_for P X KC W joiner_secret plain_path_option psks
       encrypted_group_info encryptor_leaf_index d) invited_members"

section \<open>Building a welcome\<close>

datatype build_welcome_error = BwLibraryError library_error | BwPanic

fun build_derive_error :: "derive_error \<Rightarrow> build_welcome_error" where
  "build_derive_error (DeriveCryptoError _) = BwLibraryError UnexpectedCryptoError"
| "build_derive_error DerivePanic = BwPanic"

text \<open>
  The block of the commit builder that runs if there are invitations: the group info is sealed
  with a key of the welcome secret, and the secrets with the init keys of the invited members.
\<close>

definition build_welcome ::
  "crypto_provider \<Rightarrow> hpke_crypto \<Rightarrow> key_package_codec \<Rightarrow> welcome_codec \<Rightarrow> ciphersuite \<Rightarrow> bytes \<Rightarrow>
   group_info option \<Rightarrow> bytes \<Rightarrow> (nat \<times> key_package) list \<Rightarrow> plain_update_path_node list option \<Rightarrow>
   pre_shared_key_id list \<Rightarrow> nat \<Rightarrow> tree_sync_diff \<Rightarrow> build_welcome_error + welcome_message" where
  "build_welcome P X KC W cs welcome_secret group_info joiner_secret invitation_list plain_path psks
     own_leaf_index d =
     try_bind (map_err build_derive_error (derive_welcome_key_nonce P cs welcome_secret))
       (\<lambda>(welcome_key, welcome_nonce).
     try_bind (ok_or (BwLibraryError (CustomError ''GroupInfo was not computed'')) group_info) (\<lambda>gi.
     try_bind (ok_or (BwLibraryError MissingBoundCheck) (tls_group_info W gi)) (\<lambda>encoded.
     try_bind (map_err (\<lambda>_. BwLibraryError UnexpectedCryptoError)
       (aead_seal P welcome_key encoded [] welcome_nonce)) (\<lambda>encrypted_group_info.
     try_bind (map_err BwLibraryError
       (encrypt_group_secrets P X KC W joiner_secret invitation_list plain_path psks encrypted_group_info
          own_leaf_index d)) (\<lambda>encrypted_secrets.
       Inr \<lparr>w_cipher_suite = cs, w_secrets = encrypted_secrets,
            w_encrypted_group_info = encrypted_group_info\<rparr>)))))"

section \<open>Processing a welcome\<close>

datatype incoming_wire_format_policy =
  IncomingAlwaysCiphertext | IncomingAlwaysPlaintext | IncomingMixed

fun incoming_is_compatible_with :: "incoming_wire_format_policy \<Rightarrow> wire_format \<Rightarrow> bool" where
  "incoming_is_compatible_with IncomingAlwaysCiphertext format = (format = WirePrivateMessage)"
| "incoming_is_compatible_with IncomingAlwaysPlaintext format = (format = WirePublicMessage)"
| "incoming_is_compatible_with IncomingMixed format =
     (format = WirePrivateMessage \<or> format = WirePublicMessage)"

datatype outgoing_wire_format_policy = OutgoingAlwaysCiphertext | OutgoingAlwaysPlaintext

fun outgoing_wire_format :: "outgoing_wire_format_policy \<Rightarrow> wire_format" where
  "outgoing_wire_format OutgoingAlwaysCiphertext = WirePrivateMessage"
| "outgoing_wire_format OutgoingAlwaysPlaintext = WirePublicMessage"

record wire_format_policy =
  policy_outgoing :: outgoing_wire_format_policy
  policy_incoming :: incoming_wire_format_policy

record mls_group_join_config =
  jc_wire_format_policy :: wire_format_policy
  jc_padding_size :: nat
  jc_max_past_epochs :: nat
  jc_number_of_resumption_psks :: nat
  jc_use_ratchet_tree_extension :: bool
  jc_sender_ratchet_configuration :: sender_ratchet_configuration

datatype 'e welcome_error =
    WeGroupSecrets group_secrets_error
  | PrivateInitKeyNotFound
  | WeLibraryError library_error
  | WeCiphersuiteMismatch
  | WeGroupInfo group_info_error
  | JoinerSecretNotFound
  | WeMissingRatchetTree
  | WeConfirmationTagMismatch
  | WePsk psk_error
  | NoMatchingKeyPackage
  | WeLeafNodeValidation leaf_node_validation_error
  | WeStorageError 'e
  | WePanic

fun welcome_derive_error :: "derive_error \<Rightarrow> 'e welcome_error" where
  "welcome_derive_error (DeriveCryptoError _) = WeLibraryError UnexpectedCryptoError"
| "welcome_derive_error DerivePanic = WePanic"

text \<open>The storage of the member: what it reads of the state, and what it changes.\<close>

record ('s, 'e) welcome_storage =
  stored_key_package :: "bytes \<Rightarrow> 's \<Rightarrow> 'e + key_package_bundle option"
  delete_key_package :: "bytes \<Rightarrow> 's \<Rightarrow> ('e + unit) \<times> 's"
  stored_psk :: "psk \<Rightarrow> 's \<Rightarrow> 'e + bytes option"

fun find_stored_key_package ::
  "('s, 'e) welcome_storage \<Rightarrow> 's \<Rightarrow> encrypted_group_secrets list \<Rightarrow> ('e + key_package_bundle) option" where
  "find_stored_key_package S st [] = None"
| "find_stored_key_package S st (egs # secrets) =
     (case stored_key_package S (egs_new_member egs) st of
        Inl e \<Rightarrow> Some (Inl e)
      | Inr (Some bundle) \<Rightarrow> Some (Inr bundle)
      | Inr None \<Rightarrow> find_stored_key_package S st secrets)"

definition keys_for_welcome ::
  "crypto_provider \<Rightarrow> key_package_codec \<Rightarrow> ('s, 'e) welcome_storage \<Rightarrow> mls_group_join_config \<Rightarrow> welcome_message \<Rightarrow> 's \<Rightarrow>
   ('e welcome_error + resumption_psk_store \<times> key_package_bundle) \<times> 's" where
  "keys_for_welcome P KC S cfg w st =
     (let resumption_psk_store = resumption_psk_store_new (jc_number_of_resumption_psks cfg) in
      case find_stored_key_package S st (w_secrets w) of
        None \<Rightarrow> (Inl NoMatchingKeyPackage, st)
      | Some (Inl e) \<Rightarrow> (Inl (WeStorageError e), st)
      | Some (Inr bundle) \<Rightarrow>
          if \<not> key_package_last_resort (bundle_key_package bundle) then
            (case key_package_hash_ref P KC (bundle_key_package bundle) of
               Inl e \<Rightarrow> (Inl (WeLibraryError e), st)
             | Inr hash_ref \<Rightarrow>
                 (case delete_key_package S hash_ref st of
                    (Inl e, st') \<Rightarrow> (Inl (WeStorageError e), st')
                  | (Inr _, st') \<Rightarrow> (Inr (resumption_psk_store, bundle), st')))
          else (Inr (resumption_psk_store, bundle), st))"

record processed_welcome =
  pw_mls_group_config :: mls_group_join_config
  pw_ciphersuite :: ciphersuite
  pw_group_secrets :: group_secrets
  pw_key_schedule :: key_schedule
  pw_verifiable_group_info :: group_info
  pw_resumption_psk_store :: resumption_psk_store
  pw_key_package_bundle :: key_package_bundle

definition new_from_welcome ::
  "crypto_provider \<Rightarrow> hpke_crypto \<Rightarrow> key_package_codec \<Rightarrow> welcome_codec \<Rightarrow> psk_label_codec \<Rightarrow>
   ('s, 'e) welcome_storage \<Rightarrow> mls_group_join_config \<Rightarrow> welcome_message \<Rightarrow> 's \<Rightarrow>
   ('e welcome_error + processed_welcome) \<times> 's" where
  "new_from_welcome P X KC W L S cfg w st =
     (case keys_for_welcome P KC S cfg w st of
        (Inl e, st) \<Rightarrow> (Inl e, st)
      | (Inr (resumption_psk_store, bundle), st) \<Rightarrow>
          (let cs = w_cipher_suite w; kp = bundle_key_package bundle in
           (try_bind (map_err WeLibraryError (key_package_hash_ref P KC kp)) (\<lambda>hash_ref.
            try_bind (ok_or JoinerSecretNotFound (find_encrypted_group_secret hash_ref w)) (\<lambda>egs.
            if cs \<noteq> key_package_ciphersuite kp then Inl WeCiphersuiteMismatch
            else
            try_bind (map_err WeGroupSecrets
              (group_secrets_try_from_ciphertext X W (bundle_private_init_key bundle)
                 (egs_encrypted_group_secrets egs) (w_encrypted_group_info w) cs)) (\<lambda>gs.
            try_bind (map_err WePsk
              (load_psks (\<lambda>psk. stored_psk S psk st) resumption_psk_store (gs_psks gs))) (\<lambda>psks.
            try_bind (map_err WePsk (psk_secret_new P L cs psks)) (\<lambda>psk_secret.
            try_bind (map_err WeLibraryError (key_schedule_init cs P (gs_joiner_secret gs) psk_secret)) (\<lambda>ks.
            try_bind (map_err (\<lambda>_. WeLibraryError (CustomError ''Using the key schedule in the wrong state''))
              (key_schedule_welcome P cs ks)) (\<lambda>welcome_secret.
            try_bind (map_err welcome_derive_error (derive_welcome_key_nonce P cs welcome_secret))
              (\<lambda>(welcome_key, welcome_nonce).
            try_bind (map_err WeGroupInfo
              (group_info_try_from_ciphertext P W welcome_key welcome_nonce (w_encrypted_group_info w) []))
              (\<lambda>vgi.
            try_bind
              (case extensions_required_capabilities (git_extensions (gi_payload vgi)) of
                 Some required \<Rightarrow>
                   map_err WeLeafNodeValidation (supports_required_capabilities
                     (leaf_capabilities (leaf_payload (key_package_leaf_node kp))) required)
               | None \<Rightarrow> Inr ()) (\<lambda>_.
            if gc_ciphersuite (git_group_context (gi_payload vgi)) \<noteq> key_package_ciphersuite kp
            then Inl WeCiphersuiteMismatch
            else Inr \<lparr>pw_mls_group_config = cfg, pw_ciphersuite = cs, pw_group_secrets = gs,
                      pw_key_schedule = ks, pw_verifiable_group_info = vgi,
                      pw_resumption_psk_store = resumption_psk_store,
                      pw_key_package_bundle = bundle\<rparr>)))))))))),
            st)))"

section \<open>The invited member gets what the committer sent\<close>

definition welcome_codec_ok :: "welcome_codec \<Rightarrow> bool" where
  "welcome_codec_ok W \<longleftrightarrow>
     (\<forall>gi enc. tls_group_info W gi = Some enc \<longrightarrow> read_group_info W enc = Some (gi, [])) \<and>
     (\<forall>joiner path psks enc. tls_group_secrets W joiner path psks = Some enc \<longrightarrow>
        read_group_secrets W enc =
          Some (\<lparr>gs_joiner_secret = joiner, gs_path_secret = path, gs_psks = psks\<rparr>, []))"

lemma collect_results_find:
  assumes "collect_results f xs = Inr ys" and "x \<in> set xs"
    and "\<And>x' y. x' \<in> set xs \<Longrightarrow> f x' = Inr y \<Longrightarrow> Q y \<longleftrightarrow> x' = x"
  shows "\<exists>y. f x = Inr y \<and> List.find Q ys = Some y"
  using assms
proof (induction xs arbitrary: ys)
  case (Cons a xs)
  then obtain y zs where y: "f a = Inr y" and zs: "collect_results f xs = Inr zs" "ys = y # zs"
    by (auto simp: try_bind_eq_Inr)
  show ?case
  proof (cases "a = x")
    case True
    then show ?thesis using y zs Cons.prems(3) [of a y] by simp
  next
    case False
    then have "\<exists>y. f x = Inr y \<and> List.find Q zs = Some y"
      using Cons.IH [OF zs(1)] Cons.prems(2,3) by auto
    then show ?thesis using y zs Cons.prems(3) [of a y] False by simp
  qed
qed simp

lemma collect_results_stored:
  assumes "collect_results f xs = Inr ys" and "x \<in> set xs"
    and "\<And>x' y. x' \<in> set xs \<Longrightarrow> f x' = Inr y \<Longrightarrow>
      stored_key_package S (egs_new_member y) st = Inr (if x' = x then Some bundle else None)"
  shows "find_stored_key_package S st ys = Some (Inr bundle)"
  using assms
proof (induction xs arbitrary: ys)
  case (Cons a xs)
  then obtain y zs where y: "f a = Inr y" and zs: "collect_results f xs = Inr zs" "ys = y # zs"
    by (auto simp: try_bind_eq_Inr)
  show ?case
  proof (cases "a = x")
    case False
    then have "find_stored_key_package S st zs = Some (Inr bundle)"
      using Cons.IH [OF zs(1)] Cons.prems(2,3) by auto
    then show ?thesis using y zs Cons.prems(3) [of a y] False by simp
  qed (use y zs Cons.prems(3) [of a y] in simp)
qed simp

text \<open>What the entry of an invited member holds.\<close>

lemma encrypt_secrets_for_Inr:
  assumes "encrypt_secrets_for P X KC W joiner plain psks info own d (i, kp) = Inr egs"
  obtains p path enc where "subtree_root_position d own i = Inr p"
    and "path = map_option (\<lambda>pl. plain_path_secret (pl ! p)) plain"
    and "\<forall>pl. plain = Some pl \<longrightarrow> p < length pl"
    and "tls_group_secrets W joiner path psks = Some enc"
    and "encrypt_with_label X (kpt_init_key (key_package_payload kp)) ''Welcome'' info enc
      (key_package_ciphersuite kp) = Inr (egs_encrypted_group_secrets egs)"
    and "key_package_hash_ref P KC kp = Inr (egs_new_member egs)"
  using assms that
  by (cases plain) (auto simp: encrypt_secrets_for_def try_bind_eq_Inr vec_get_def split: if_splits)

lemma build_welcome_Inr:
  assumes "build_welcome P X KC W cs ws gi_opt joiner invited plain psks own d = Inr w"
  obtains key nonce gi enc where "derive_welcome_key_nonce P cs ws = Inr (key, nonce)" and "gi_opt = Some gi"
    and "tls_group_info W gi = Some enc" and "aead_seal P key enc [] nonce = Inr (w_encrypted_group_info w)"
    and "collect_results (encrypt_secrets_for P X KC W joiner plain psks (w_encrypted_group_info w) own d)
      invited = Inr (w_secrets w)"
    and "w_cipher_suite w = cs"
  using assms that
  by (auto simp: build_welcome_def try_bind_eq_Inr encrypt_group_secrets_def)

lemma new_from_welcome_ok:
  fixes S :: "('s, 'e) welcome_storage"
  assumes aead: "aead_ok P" and codec: "welcome_codec_ok W"
    and pair: "hpke_pair_ok X cs (kpt_init_key (key_package_payload kp)) (bundle_private_init_key bundle)"
    and ks: "key_schedule_init cs P joiner psk_secret = Inr ks" "key_schedule_welcome P cs ks = Inr ws"
    and built: "build_welcome P X KC W cs ws (Some gi) joiner invited plain psks own d = Inr w"
    and invited: "(i, kp) \<in> set invited"
    and others: "\<And>j kp' r. (j, kp') \<in> set invited \<Longrightarrow> (j, kp') \<noteq> (i, kp) \<Longrightarrow>
      key_package_hash_ref P KC kp' = Inr r \<Longrightarrow>
      key_package_hash_ref P KC kp \<noteq> Inr r \<and> stored_key_package S r st = Inr None"
    and own_package: "\<And>r. key_package_hash_ref P KC kp = Inr r \<Longrightarrow>
      stored_key_package S r st = Inr (Some bundle) \<and>
      (if key_package_last_resort kp then st' = st else delete_key_package S r st = (Inr (), st'))"
    and same: "bundle_key_package bundle = kp"
    and suites: "key_package_ciphersuite kp = cs" "gc_ciphersuite (git_group_context (gi_payload gi)) = cs"
    and caps: "\<And>req. extensions_required_capabilities (git_extensions (gi_payload gi)) = Some req \<Longrightarrow>
      supports_required_capabilities (leaf_capabilities (leaf_payload (key_package_leaf_node kp))) req = Inr ()"
    and loaded: "load_psks (\<lambda>psk. stored_psk S psk st')
      (resumption_psk_store_new (jc_number_of_resumption_psks cfg)) psks = Inr keys"
    and psk_secret: "psk_secret_new P L cs keys = Inr psk_secret"
  shows "\<exists>p. subtree_root_position d own i = Inr p \<and> (\<forall>pl. plain = Some pl \<longrightarrow> p < length pl) \<and>
    new_from_welcome P X KC W L S cfg w st =
      (Inr \<lparr>pw_mls_group_config = cfg, pw_ciphersuite = cs,
            pw_group_secrets = \<lparr>gs_joiner_secret = joiner,
              gs_path_secret = map_option (\<lambda>pl. plain_path_secret (pl ! p)) plain, gs_psks = psks\<rparr>,
            pw_key_schedule = ks, pw_verifiable_group_info = gi,
            pw_resumption_psk_store = resumption_psk_store_new (jc_number_of_resumption_psks cfg),
            pw_key_package_bundle = bundle\<rparr>, st')"
proof -
  let ?f = "encrypt_secrets_for P X KC W joiner plain psks (w_encrypted_group_info w) own d"
  from built obtain key nonce enc where key: "derive_welcome_key_nonce P cs ws = Inr (key, nonce)"
    and enc: "tls_group_info W gi = Some enc" "aead_seal P key enc [] nonce = Inr (w_encrypted_group_info w)"
    and secrets: "collect_results ?f invited = Inr (w_secrets w)" and wcs: "w_cipher_suite w = cs"
    by (rule build_welcome_Inr) auto
  have refs: "key_package_hash_ref P KC kp' = Inr (egs_new_member y)"
    if "?f (j, kp') = Inr y" for j kp' y
    using that by (rule encrypt_secrets_for_Inr)
  obtain r where r: "key_package_hash_ref P KC kp = Inr r"
    using collect_results_find [OF secrets invited, of "\<lambda>_. True"] refs
    by (metis collect_results_nth [OF secrets] in_set_conv_nth invited)
  have entry: "stored_key_package S (egs_new_member y) st = Inr (if x' = (i, kp) then Some bundle else None)"
    "r = egs_new_member y \<longleftrightarrow> x' = (i, kp)" if "x' \<in> set invited" "?f x' = Inr y" for x' y
  proof -
    obtain j kp' where x': "x' = (j, kp')" by fastforce
    have ref: "key_package_hash_ref P KC kp' = Inr (egs_new_member y)" using refs that(2) x' by blast
    show "stored_key_package S (egs_new_member y) st = Inr (if x' = (i, kp) then Some bundle else None)"
      using others [OF _ _ ref] own_package [OF r] ref r that(1) x' by (cases "x' = (i, kp)") auto
    show "r = egs_new_member y \<longleftrightarrow> x' = (i, kp)"
      using others [OF _ _ ref] ref r that(1) x' by (cases "x' = (i, kp)") auto
  qed
  have stored: "find_stored_key_package S st (w_secrets w) = Some (Inr bundle)"
    by (rule collect_results_stored [OF secrets invited entry(1)])
  obtain egs where egs: "?f (i, kp) = Inr egs" "find_encrypted_group_secret r w = Some egs"
    using collect_results_find [OF secrets invited, of "\<lambda>y. r = egs_new_member y"] entry(2)
    unfolding find_encrypted_group_secret_def by blast
  obtain p gs_enc where p: "subtree_root_position d own i = Inr p" "\<forall>pl. plain = Some pl \<longrightarrow> p < length pl"
    and gs: "tls_group_secrets W joiner (map_option (\<lambda>pl. plain_path_secret (pl ! p)) plain) psks = Some gs_enc"
    and sealed: "encrypt_with_label X (kpt_init_key (key_package_payload kp)) ''Welcome''
      (w_encrypted_group_info w) gs_enc cs = Inr (egs_encrypted_group_secrets egs)"
    using egs(1) suites(1) by (elim encrypt_secrets_for_Inr) auto
  have keys: "keys_for_welcome P KC S cfg w st =
      (Inr (resumption_psk_store_new (jc_number_of_resumption_psks cfg), bundle), st')"
    using stored own_package [OF r] r same by (auto simp: keys_for_welcome_def Let_def)
  have gs_open: "group_secrets_try_from_ciphertext X W (bundle_private_init_key bundle)
      (egs_encrypted_group_secrets egs) (w_encrypted_group_info w) cs =
      Inr \<lparr>gs_joiner_secret = joiner, gs_path_secret = map_option (\<lambda>pl. plain_path_secret (pl ! p)) plain,
           gs_psks = psks\<rparr>"
    using decrypt_encrypt_with_label [OF pair sealed] gs codec
    by (simp add: group_secrets_try_from_ciphertext_def welcome_codec_ok_def)
  have gi_open: "group_info_try_from_ciphertext P W key nonce (w_encrypted_group_info w) [] = Inr gi"
    using aead_open_seal [OF aead enc(2)] enc(1) codec
    by (simp add: group_info_try_from_ciphertext_def welcome_codec_ok_def)
  have req: "(case extensions_required_capabilities (git_extensions (gi_payload gi)) of
      Some required \<Rightarrow> map_err WeLeafNodeValidation (supports_required_capabilities
        (leaf_capabilities (leaf_payload (key_package_leaf_node kp))) required)
    | None \<Rightarrow> Inr ()) = (Inr () :: 'e welcome_error + unit)"
    using caps by (simp split: option.splits)
  show ?thesis
    using p by (intro exI [of _ p])
      (simp add: new_from_welcome_def keys wcs same r egs(2) suites gs_open loaded psk_secret ks key
        gi_open req)
qed

end
