(* ===== verification/Ratchet_Tree.thy ===== *)
theory Ratchet_Tree
  imports Welcome_Messages Past_Secrets
begin

text \<open>
  Stored ratchet trees (\<open>treesync/mod.rs\<close>, with \<open>verify_parent_hashes\<close>, \<open>into_staged_diff\<close> and
  \<open>export_ratchet_tree\<close> of \<open>treesync/diff.rs\<close>): creating, importing and exporting a tree, merging a diff
  into it, and the keys a new member derives from the path secret of its welcome. Received
  and verified nodes have the same fields and are one type here. Debug assertions are not compiled
  in.
\<close>

section \<open>Exchanged trees\<close>

datatype node = NodeLeaf leaf_node | NodeParent parent_node

type_synonym ratchet_tree = "node option list"

datatype ratchet_tree_error = MissingNodes | TrailingBlankNodes | InvalidNodeSignature | RtWrongNodeType

definition last_full_position :: "'a option list \<Rightarrow> nat option" where
  "last_full_position nodes =
     map_option fst (List.find (\<lambda>(i, node). node \<noteq> None) (rev (enumerate 0 nodes)))"

definition rt_trimmed :: "node option list \<Rightarrow> ratchet_tree" where
  "rt_trimmed nodes =
     (case last_full_position nodes of
        Some rightmost_nonempty_position \<Rightarrow> vec_resize nodes (rightmost_nonempty_position + 1) None
      | None \<Rightarrow> [])"

definition verify_tree_leaf ::
  "leaf_codec \<Rightarrow> signature_check \<Rightarrow> ciphersuite \<Rightarrow> group_id \<Rightarrow> nat \<Rightarrow> leaf_node \<Rightarrow> ratchet_tree_error + leaf_node" where
  "verify_tree_leaf C verify_signature cs gid index leaf_node =
     (let tree_position = \<lparr>position_group_id = gid, position_leaf_index = wrap32 (index div 2)\<rparr>;
          verifiable = into_verifiable_leaf_node leaf_node;
          signature_key = leaf_signature_key (fst (verifiable_parts verifiable)) in
      map_err (\<lambda>_. InvalidNodeSignature)
        (verifiable_verify C (verify_signature (signature_algorithm cs)) signature_key
           (add_tree_position tree_position verifiable)))"

fun verify_tree_nodes ::
  "leaf_codec \<Rightarrow> signature_check \<Rightarrow> ciphersuite \<Rightarrow> group_id \<Rightarrow> nat \<Rightarrow> node option list \<Rightarrow>
   ratchet_tree_error + node option list" where
  "verify_tree_nodes C V cs gid index [] = Inr []"
| "verify_tree_nodes C V cs gid index (node # nodes) =
     try_bind
       (case node of
          Some (NodeLeaf leaf_node) \<Rightarrow>
            if index mod 2 = 0
            then try_bind (verify_tree_leaf C V cs gid index leaf_node) (\<lambda>leaf. Inr (Some (NodeLeaf leaf)))
            else Inl RtWrongNodeType
        | Some (NodeParent parent_node) \<Rightarrow>
            if index mod 2 = 1 then Inr (Some (NodeParent parent_node)) else Inl RtWrongNodeType
        | None \<Rightarrow> Inr None) (\<lambda>verified_node.
     try_bind (verify_tree_nodes C V cs gid (index + 1) nodes) (\<lambda>verified_nodes.
       Inr (verified_node # verified_nodes)))"

definition try_from_nodes ::
  "leaf_codec \<Rightarrow> signature_check \<Rightarrow> ciphersuite \<Rightarrow> group_id \<Rightarrow> node option list \<Rightarrow>
   ratchet_tree_error + ratchet_tree" where
  "try_from_nodes C V cs gid nodes =
     (if nodes = [] then Inl MissingNodes
      else case last nodes of
             None \<Rightarrow> Inl TrailingBlankNodes
           | Some _ \<Rightarrow>
               try_bind (verify_tree_nodes C V cs gid 0 nodes) (\<lambda>verified_nodes.
                 Inr (rt_trimmed verified_nodes)))"

section \<open>Stored trees\<close>

record tree_sync =
  tsy_tree :: ts_tree
  tsy_tree_hash :: bytes
  tsy_tree_hashes :: "bytes list"
  tsy_blanked_leaves :: "nat list"
  tsy_num_members :: nat

definition tsy_empty_diff :: "tree_sync \<Rightarrow> tree_sync_diff" where
  "tsy_empty_diff ts =
     \<lparr>tsd_diff = abt_empty_diff (tsy_tree ts), tsd_tree_hashes = tsy_tree_hashes ts,
      blanked_leaves = tsy_blanked_leaves ts, num_members = tsy_num_members ts\<rparr>"

record staged_tree_sync_diff =
  sts_diff :: "(leaf_node option, parent_node option) staged_ab_diff"
  sts_new_tree_hash :: bytes
  sts_new_tree_hashes :: "bytes list"
  sts_blanked_leaves :: "nat list"
  sts_num_members :: nat

definition into_staged_diff :: "tree_sync_diff \<Rightarrow> treesync_error + staged_tree_sync_diff" where
  "into_staged_diff d =
     try_bind (vec_index (tsd_tree_hashes d) (tree_node_index_u32 (root (ab_size (tsd_diff d)))))
       (\<lambda>new_tree_hash.
          Inr \<lparr>sts_diff = ab_into_staged (tsd_diff d), sts_new_tree_hash = new_tree_hash,
               sts_new_tree_hashes = tsd_tree_hashes d, sts_blanked_leaves = blanked_leaves d,
               sts_num_members = num_members d\<rparr>)"

definition tsy_merge_diff :: "staged_tree_sync_diff \<Rightarrow> tree_sync \<Rightarrow> tree_sync" where
  "tsy_merge_diff staged ts =
     ts\<lparr>tsy_tree_hash := sts_new_tree_hash staged, tsy_tree_hashes := sts_new_tree_hashes staged,
        tsy_blanked_leaves := sts_blanked_leaves staged, tsy_num_members := sts_num_members staged,
        tsy_tree := abt_merge_diff (tsy_tree ts) (sts_diff staged)\<rparr>"

definition tsy_tree_size :: "tree_sync \<Rightarrow> nat" where
  "tsy_tree_size ts = abt_tree_size (tsy_tree ts)"

definition tsy_full_leaves :: "tree_sync \<Rightarrow> leaf_node list" where
  "tsy_full_leaves ts = List.map_filter snd (abt_leaves (tsy_tree ts))"

definition tsy_full_parents :: "tree_sync \<Rightarrow> (nat \<times> parent_node) list" where
  "tsy_full_parents ts =
     List.map_filter (\<lambda>(index, tsn). map_option (\<lambda>pn. (index, pn)) tsn) (abt_parents (tsy_tree ts))"

definition rightmost_full_leaf_complete :: "tree_sync \<Rightarrow> nat" where
  "rightmost_full_leaf_complete ts =
     fold (\<lambda>(leaf_index, leaf) index. if leaf \<noteq> None then leaf_index else index) (abt_leaves (tsy_tree ts)) 0"

definition calculate_num_members :: "tree_sync \<Rightarrow> tree_sync" where
  "calculate_num_members ts = ts\<lparr>tsy_num_members := length (tsy_full_leaves ts)\<rparr>"

definition calculate_blanked_leaves :: "tree_sync \<Rightarrow> tree_sync" where
  "calculate_blanked_leaves ts =
     (let rightmost_full_leaf = rightmost_full_leaf_complete ts in
      ts\<lparr>tsy_blanked_leaves :=
        List.map_filter (\<lambda>(leaf_index, leaf). if leaf = None then Some leaf_index else None)
          (takeWhile (\<lambda>(leaf_index, _). leaf_index < rightmost_full_leaf) (abt_leaves (tsy_tree ts)))\<rparr>)"

definition tsy_populate_tree_hashes :: "hash_provider \<Rightarrow> tree_sync \<Rightarrow> treesync_error + tree_sync" where
  "tsy_populate_tree_hashes P ts =
     (let ts = ts\<lparr>tsy_tree_hashes := vec_resize (tsy_tree_hashes ts) (tsy_tree_size ts) []\<rparr> in
      try_bind (returned (populate_tree_hashes (root (tsy_tree_size ts)) P {} (tsy_empty_diff ts)))
        (\<lambda>(_, diff).
      try_bind (into_staged_diff diff) (\<lambda>staged_diff. Inr (tsy_merge_diff staged_diff ts))))"

definition tsy_populate_parent_hashes :: "tree_sync \<Rightarrow> treesync_error + tree_sync" where
  "tsy_populate_parent_hashes ts =
     try_bind (into_staged_diff (tsy_empty_diff ts)) (\<lambda>staged_diff. Inr (tsy_merge_diff staged_diff ts))"

section \<open>Parent hashes\<close>

fun carries_parent_hash :: "bytes \<Rightarrow> node_reference \<Rightarrow> bool" where
  "carries_parent_hash h (RefLeaf leaf) =
     (case leaf_parent_hash leaf of Some parent_hash \<Rightarrow> parent_hash = h | None \<Rightarrow> False)"
| "carries_parent_hash h (RefParent pn) = (pn_parent_hash pn = h)"

definition original_tree_hash ::
  "hash_provider \<Rightarrow> tree_sync_diff \<Rightarrow> nat set \<Rightarrow> tree_node_index \<Rightarrow> treesync_error + bytes" where
  "original_tree_hash P d exclusion_list child =
     (if exclusion_list = {} then tsd_tree_hash d child
      else returned (compute_tree_hash child P d exclusion_list))"

definition verify_parent_hash ::
  "hash_provider \<Rightarrow> tree_sync_diff \<Rightarrow> nat \<Rightarrow> parent_node \<Rightarrow> treesync_error + unit" where
  "verify_parent_hash P d parent_index pn =
     (let left_child = left parent_index; right_child = right parent_index;
          exclusion_list = set (unmerged_leaves pn); rfl = rightmost_full_leaf d in
      try_bind (original_tree_hash P d exclusion_list left_child) (\<lambda>oth_left.
      try_bind (original_tree_hash P d exclusion_list right_child) (\<lambda>oth_right.
      try_bind (lib (compute_parent_hash P pn oth_right)) (\<lambda>parent_hash_left.
      try_bind (lib (compute_parent_hash P pn oth_left)) (\<lambda>parent_hash_right.
      try_bind (looped (resolution left_child d exclusion_list rfl)) (\<lambda>left_resolution.
      try_bind (looped (resolution right_child d exclusion_list rfl)) (\<lambda>right_resolution.
      let left_descendant = List.find (\<lambda>(_, node). carries_parent_hash parent_hash_left node) left_resolution;
          right_descendant = List.find (\<lambda>(_, node). carries_parent_hash parent_hash_right node) right_resolution
      in if (left_descendant = None) \<noteq> (right_descendant \<noteq> None) then Inl InvalidParentHash
         else Inr ())))))))"

fun verify_parents_loop ::
  "hash_provider \<Rightarrow> tree_sync_diff \<Rightarrow> (nat \<times> parent_node option) list \<Rightarrow> treesync_error + unit" where
  "verify_parents_loop P d [] = Inr ()"
| "verify_parents_loop P d ((parent_index, None) # parents) = verify_parents_loop P d parents"
| "verify_parents_loop P d ((parent_index, Some pn) # parents) =
     try_bind (verify_parent_hash P d parent_index pn) (\<lambda>_. verify_parents_loop P d parents)"

definition verify_parent_hashes :: "hash_provider \<Rightarrow> tree_sync_diff \<Rightarrow> treesync_error + unit" where
  "verify_parent_hashes P d = verify_parents_loop P d (ab_parents (tsd_diff d))"

section \<open>Creating, importing and exporting\<close>

definition tree_sync_new ::
  "hash_provider \<Rightarrow> leaf_codec \<Rightarrow> path_deriver \<Rightarrow> (bytes \<Rightarrow> bytes option) \<Rightarrow> library_error + encryption_key_pair \<Rightarrow>
   crypto_error + bytes \<Rightarrow> credential_with_key \<Rightarrow> lifetime \<Rightarrow> capabilities \<Rightarrow> extensions \<Rightarrow>
   treesync_error + tree_sync \<times> bytes \<times> encryption_key_pair" where
  "tree_sync_new P C K signer random_pair random_secret cwk life_time caps exts =
     try_bind (lib (leaf_new C signer random_pair cwk (SourceKeyPackage life_time) caps exts TbsKeyPackage))
       (\<lambda>(leaf, encryption_key_pair).
     try_bind (lib (map_err (\<lambda>_. UnexpectedCryptoError) random_secret)) (\<lambda>path_secret.
     try_bind (lib (derive_path_secret K path_secret)) (\<lambda>commit_secret.
     try_bind (map_err (\<lambda>_. TsLibraryError (CustomError ''Unexpected error creating the binary tree.''))
       (abt_new [TreeNodeLeaf (Some leaf)])) (\<lambda>tree.
     try_bind (tsy_populate_tree_hashes P
       \<lparr>tsy_tree = tree, tsy_tree_hash = [], tsy_tree_hashes = [], tsy_blanked_leaves = [], tsy_num_members = 0\<rparr>)
       (\<lambda>ts.
     try_bind (tsy_populate_parent_hashes ts) (\<lambda>ts.
       Inr (calculate_num_members ts, commit_secret, encryption_key_pair)))))))"

fun to_tree_node :: "nat \<Rightarrow> node option \<Rightarrow> (leaf_node option, parent_node option) tree_node" where
  "to_tree_node node_index (Some (NodeLeaf leaf)) = TreeNodeLeaf (Some leaf)"
| "to_tree_node node_index (Some (NodeParent pn)) = TreeNodeParent (Some pn)"
| "to_tree_node node_index None =
     (if node_index mod 2 = 0 then TreeNodeLeaf None else TreeNodeParent None)"

definition from_ratchet_tree :: "hash_provider \<Rightarrow> ratchet_tree \<Rightarrow> treesync_error + tree_sync" where
  "from_ratchet_tree P rt =
     try_bind (map_err (\<lambda>_. MalformedTree) (abt_new (map (\<lambda>(i, node). to_tree_node i node) (enumerate 0 rt))))
       (\<lambda>tree.
     try_bind (tsy_populate_tree_hashes P
       \<lparr>tsy_tree = tree, tsy_tree_hash = [], tsy_tree_hashes = [], tsy_blanked_leaves = [], tsy_num_members = 0\<rparr>)
       (\<lambda>ts.
     let ts = calculate_blanked_leaves (calculate_num_members ts) in
     try_bind (verify_parent_hashes P (tsy_empty_diff ts)) (\<lambda>_. tsy_populate_parent_hashes ts)))"

text \<open>The leaves and parents of a tree, interleaved up to the leaf \<open>max_length\<close>.\<close>

definition export_nodes ::
  "nat \<Rightarrow> leaf_node option list \<Rightarrow> parent_node option list \<Rightarrow> ratchet_tree" where
  "export_nodes max_length leaves parents =
     (case take (max_length + 1) leaves of
        [] \<Rightarrow> rt_trimmed []
      | leaf # rest \<Rightarrow>
          rt_trimmed (map_option NodeLeaf leaf #
            concat (map (\<lambda>(leaf, parent). [map_option NodeParent parent, map_option NodeLeaf leaf])
              (zip rest (take max_length parents @
                 replicate (length leaves - 1 - length parents) default)))))"

definition tsy_export_ratchet_tree :: "tree_sync \<Rightarrow> ratchet_tree" where
  "tsy_export_ratchet_tree ts =
     export_nodes (rightmost_full_leaf_complete ts) (map snd (abt_leaves (tsy_tree ts)))
       (map snd (abt_parents (tsy_tree ts)))"

definition tsd_export_ratchet_tree :: "tree_sync_diff \<Rightarrow> ratchet_tree" where
  "tsd_export_ratchet_tree d =
     export_nodes (rightmost_full_leaf d) (map snd (ab_leaves (tsd_diff d))) (map snd (ab_parents (tsd_diff d)))"

section \<open>Members and keys\<close>

definition full_leave_members :: "tree_sync \<Rightarrow> member list" where
  "full_leave_members ts =
     List.map_filter (\<lambda>(index, tsn). map_option (\<lambda>leaf_node.
       \<lparr>member_index = index, member_credential = leaf_credential (leaf_payload leaf_node),
        member_encryption_key = leaf_encryption_key (leaf_payload leaf_node),
        member_signature_key = leaf_signature_key (leaf_payload leaf_node)\<rparr>) tsn) (abt_leaves (tsy_tree ts))"

definition full_leave_members_opt :: "tree_sync \<Rightarrow> (nat \<times> bytes \<times> bytes) list" where
  "full_leave_members_opt ts =
     List.map_filter (\<lambda>(index, tsn). map_option (\<lambda>leaf_node.
       (index, leaf_encryption_key (leaf_payload leaf_node), leaf_signature_key (leaf_payload leaf_node))) tsn)
       (abt_leaves (tsy_tree ts))"

definition is_leaf_in_tree :: "tree_sync \<Rightarrow> nat \<Rightarrow> bool" where
  "is_leaf_in_tree ts i = is_node_in_tree (Leaf i) (tsy_tree_size ts)"

definition tsy_leaf :: "tree_sync \<Rightarrow> nat \<Rightarrow> leaf_node option" where
  "tsy_leaf ts i = abt_leaf (tsy_tree ts) i"

definition tsy_parent :: "tree_sync \<Rightarrow> nat \<Rightarrow> parent_node option" where
  "tsy_parent ts i = abt_parent (tsy_tree ts) i"

definition tsy_free_leaf_index :: "tree_sync \<Rightarrow> nat" where
  "tsy_free_leaf_index ts = free_leaf_index (tsy_empty_diff ts)"

definition owned_encryption_keys :: "tree_sync \<Rightarrow> nat \<Rightarrow> treesync_error + bytes list" where
  "owned_encryption_keys ts i = encryption_keys (tsy_empty_diff ts) i"

fun derive_path_secrets_loop ::
  "path_deriver \<Rightarrow> tree_sync \<Rightarrow> nat \<Rightarrow> bytes \<Rightarrow> nat list \<Rightarrow> treesync_error + encryption_key_pair list \<times> bytes" where
  "derive_path_secrets_loop K ts leaf_index path_secret [] = Inr ([], path_secret)"
| "derive_path_secrets_loop K ts leaf_index path_secret (parent_index # path) =
     (case abt_parent_by_index (tsy_tree ts) parent_index of
        Some pn \<Rightarrow>
          if leaf_index \<notin> set (unmerged_leaves pn) then
            try_bind (lib (derive_key_pair K path_secret)) (\<lambda>keypair.
              if pn_encryption_key pn \<noteq> kp_public_key keypair then Inl PublicKeyMismatch
              else
                try_bind (lib (derive_path_secret K path_secret)) (\<lambda>path_secret.
                try_bind (derive_path_secrets_loop K ts leaf_index path_secret path) (\<lambda>(keypairs, last).
                  Inr (keypair # keypairs, last))))
          else derive_path_secrets_loop K ts leaf_index path_secret path
      | None \<Rightarrow> derive_path_secrets_loop K ts leaf_index path_secret path)"

definition derive_path_secrets ::
  "path_deriver \<Rightarrow> tree_sync \<Rightarrow> bytes \<Rightarrow> nat \<Rightarrow> nat \<Rightarrow> treesync_error + encryption_key_pair list \<times> bytes" where
  "derive_path_secrets K ts path_secret sender_index leaf_index =
     try_bind (looped (abt_subtree_path (tsy_tree ts) leaf_index sender_index)) (\<lambda>subtree_path.
       derive_path_secrets_loop K ts leaf_index path_secret subtree_path)"

section \<open>Hashing and merging do not change the nodes\<close>

lemma ret_bind_eq_Some:
  "ret_bind m f = Some r \<longleftrightarrow>
     (\<exists>e. m = Some (Inl e) \<and> r = Inl e) \<or> (\<exists>x. m = Some (Inr x) \<and> f x = Some r)"
  by (cases m) (auto simp: ret_bind_def split: sum.splits)

definition same_tree :: "tree_sync_diff \<Rightarrow> tree_sync_diff \<Rightarrow> bool" where
  "same_tree d d' \<longleftrightarrow>
     tsd_diff d' = tsd_diff d \<and> blanked_leaves d' = blanked_leaves d \<and> num_members d' = num_members d"

lemma store_tree_hash_same: "store_tree_hash n h d = Inr (r, d') \<Longrightarrow> same_tree d d'"
  by (auto simp: store_tree_hash_def try_bind_eq_Inr same_tree_def)

lemma populate_tree_hashes_same:
  assumes "populate_tree_hashes n P E d = Some (Inr (h, d'))"
  shows "same_tree d d'"
proof -
  let ?Q = "\<lambda>x r. \<forall>h d'. r = Inr (h, d') \<longrightarrow> same_tree (snd x) d'"
  have "?Q (((n, P), E), d) (Inr (h, d') :: treesync_error + bytes \<times> tree_sync_diff)"
  proof (rule populate_tree_hashes.raw_induct [of ?Q, OF _ assms], goal_cases)
    case (1 f n P E d r)
    show ?case
    proof (cases n)
      case (Leaf i)
      with 1(2) show ?thesis by (auto simp: try_bind_eq_Inr intro: store_tree_hash_same)
    next
      case (Parent p)
      with 1(2) show ?thesis
        by (auto simp: ret_bind_eq_Some try_bind_eq_Inr dest!: 1(1) store_tree_hash_same)
          (auto simp: same_tree_def)
    qed
  qed
  then show ?thesis by simp
qed

text \<open>Two stored trees with the same size and the same nodes.\<close>

definition same_nodes :: "ts_tree \<Rightarrow> ts_tree \<Rightarrow> bool" where
  "same_nodes t t' \<longleftrightarrow>
     abt_inv t \<and> abt_inv t' \<and> abt_tree_size t' = abt_tree_size t \<and>
     (\<forall>i. abt_leaf t' i = abt_leaf t i) \<and> (\<forall>i. abt_parent t' i = abt_parent t i) \<and>
     length (leaf_nodes t') = leaf_count (abt_tree_size t)"

lemma same_nodes_trans: "same_nodes t t' \<Longrightarrow> same_nodes t' t'' \<Longrightarrow> same_nodes t t''"
  by (simp add: same_nodes_def)

lemma merge_empty_diff:
  assumes "abt_inv t"
  shows "same_nodes t (abt_merge_diff t (ab_into_staged (abt_empty_diff t)))"
proof -
  let ?d = "ab_from_tree t" and ?t = "abt_merge_diff t (ab_into_staged (ab_from_tree t))"
  have d: "ab_inv ?d" "original_tree ?d = t" "ab_size ?d = abt_tree_size t"
    using ab_from_tree_inv [OF assms] by (simp_all add: ab_from_tree_def)
  note inv = abt_merge_diff_inv [OF d(1,2)]
  have lens: "length (leaf_nodes ?t) = leaf_count (abt_tree_size t)"
    "length (parent_nodes ?t) = parent_count (abt_tree_size t)"
    using d by (simp_all add: abt_merge_diff_def ab_into_staged_def Let_def merge_entries_btree ab_inv_simps)
  have "abt_leaf ?t i = abt_leaf t i" for i
    using abt_merge_diff_leaf [OF d(1,2)] ab_leaf_from_tree [OF assms] by simp
  moreover have "abt_parent ?t i = abt_parent t i" for i
  proof (cases "i < ab_parent_count ?d")
    case True
    then show ?thesis using abt_merge_diff_parent [OF d(1,2)] ab_parent_from_tree [of t] by simp
  next
    case False
    then show ?thesis
      using abt_covers_size(2) [OF assms] lens(2) assms inv(1) d(3)
      by (simp add: abt_parent_by_index_eq ab_parent_count_def)
  qed
  ultimately show ?thesis
    using assms inv d(3) lens(1) by (simp add: same_nodes_def abt_empty_diff_def)
qed

lemma tsy_populate_tree_hashes_same:
  assumes "tsy_populate_tree_hashes P ts = Inr ts'" and "abt_inv (tsy_tree ts)"
  shows "same_nodes (tsy_tree ts) (tsy_tree ts')"
proof -
  from assms(1) obtain h d staged where
    d: "populate_tree_hashes (root (tsy_tree_size ts)) P {}
      (tsy_empty_diff (ts\<lparr>tsy_tree_hashes := vec_resize (tsy_tree_hashes ts) (tsy_tree_size ts) []\<rparr>)) = Some (Inr (h, d))"
    and staged: "into_staged_diff d = Inr staged" and ts': "tsy_tree ts' = abt_merge_diff (tsy_tree ts) (sts_diff staged)"
    by (auto simp: tsy_populate_tree_hashes_def Let_def try_bind_eq_Inr returned_def tsy_merge_diff_def
        tsy_tree_size_def split: option.splits)
  have "sts_diff staged = ab_into_staged (abt_empty_diff (tsy_tree ts))"
    using staged populate_tree_hashes_same [OF d]
    by (auto simp: into_staged_diff_def try_bind_eq_Inr same_tree_def tsy_empty_diff_def)
  then show ?thesis using merge_empty_diff [OF assms(2)] ts' by simp
qed

lemma tsy_populate_parent_hashes_same:
  assumes "tsy_populate_parent_hashes ts = Inr ts'" and "abt_inv (tsy_tree ts)"
  shows "same_nodes (tsy_tree ts) (tsy_tree ts')" and "tsy_blanked_leaves ts' = tsy_blanked_leaves ts"
    and "tsy_num_members ts' = tsy_num_members ts"
  using assms merge_empty_diff [OF assms(2)]
  by (auto simp: tsy_populate_parent_hashes_def into_staged_diff_def try_bind_eq_Inr tsy_merge_diff_def
      tsy_empty_diff_def)

section \<open>The counters of an imported tree\<close>

lemma abt_leaves_eq:
  assumes "abt_inv t"
  shows "abt_leaves t = map (\<lambda>i. (i, abt_leaf t i)) [0..<length (leaf_nodes t)]"
    and "abt_parents t = map (\<lambda>i. (i, abt_parent t i)) [0..<length (parent_nodes t)]"
proof -
  have "length (leaf_nodes t) \<le> 2 ^ 32" "length (parent_nodes t) \<le> 2 ^ 32"
    using assms by (simp_all add: abt_inv_def max_tree_size_def)
  then show "abt_leaves t = map (\<lambda>i. (i, abt_leaf t i)) [0..<length (leaf_nodes t)]"
    and "abt_parents t = map (\<lambda>i. (i, abt_parent t i)) [0..<length (parent_nodes t)]"
    using assms
    by (simp_all add: abt_leaves_def abt_parents_def enumerate_eq abt_leaf_by_index_eq abt_parent_by_index_eq)
qed

lemma abt_leaf_blank: "abt_inv t \<Longrightarrow> length (leaf_nodes t) \<le> i \<Longrightarrow> abt_leaf t i = None" for t :: ts_tree
  by (simp add: abt_leaf_by_index_eq default_option_def)

lemma abt_parent_blank: "abt_inv t \<Longrightarrow> length (parent_nodes t) \<le> i \<Longrightarrow> abt_parent t i = None" for t :: ts_tree
  by (simp add: abt_parent_by_index_eq default_option_def)

text \<open>\<open>m\<close> is the right-most leaf that is not blank.\<close>

definition rightmost_member :: "ts_tree \<Rightarrow> nat \<Rightarrow> bool" where
  "rightmost_member t m \<longleftrightarrow> abt_leaf t m \<noteq> None \<and> (\<forall>i > m. abt_leaf t i = None)"

lemma rightmost_member_less: "abt_inv t \<Longrightarrow> rightmost_member t m \<Longrightarrow> m < length (leaf_nodes t)"
  using abt_leaf_blank [of t m] by (cases "m < length (leaf_nodes t)") (auto simp: rightmost_member_def)

lemma fold_rightmost:
  assumes "m < n" and "g m \<noteq> None" and "\<And>i. m < i \<Longrightarrow> i < n \<Longrightarrow> g i = None"
  shows "fold (\<lambda>(i, leaf) index. if leaf \<noteq> None then i else index) (map (\<lambda>i. (i, g i)) [0..<n]) k = m"
proof -
  have "[0..<n] = [0..<m] @ m # [Suc m..<n]"
    using assms(1) upt_add_eq_append [of 0 m "n - m"] upt_conv_Cons [of m n] by simp
  moreover have "fold (\<lambda>(i, leaf) index. if leaf \<noteq> None then i else index) (map (\<lambda>i. (i, g i)) xs) k = k"
    if "\<forall>i \<in> set xs. g i = None" for xs k
    using that by (induction xs) auto
  ultimately show ?thesis using assms(2,3) by simp
qed

lemma rightmost_full_leaf_complete_eq:
  assumes "abt_inv (tsy_tree ts)" and "rightmost_member (tsy_tree ts) m"
  shows "rightmost_full_leaf_complete ts = m"
  unfolding rightmost_full_leaf_complete_def abt_leaves_eq(1) [OF assms(1)]
  using assms rightmost_member_less [OF assms] by (intro fold_rightmost) (auto simp: rightmost_member_def)

lemma map_filter_options: "List.map_filter f (map g xs) = map (the \<circ> f \<circ> g) (filter (\<lambda>x. f (g x) \<noteq> None) xs)"
  by (induction xs) (auto simp: List.map_filter_simps split: option.splits)

lemma map_filter_blank:
  "List.map_filter (\<lambda>(i, leaf). if leaf = None then Some i else None) (map (\<lambda>i. (i, g i)) xs) =
     filter (\<lambda>i. g i = None) xs"
  by (induction xs) (auto simp: List.map_filter_simps)

lemma takeWhile_upt: "m \<le> n \<Longrightarrow> takeWhile (\<lambda>i. i < m) [0..<n] = [0..<m]"
  using upt_add_eq_append [of 0 m "n - m"] by (simp add: takeWhile_append)
    (cases "n - m"; simp add: upt_conv_Cons)

lemma calculate_counters:
  assumes "abt_inv (tsy_tree ts)" and "rightmost_member (tsy_tree ts) m"
  shows "tsy_num_members (calculate_num_members ts) = card {i. abt_leaf (tsy_tree ts) i \<noteq> None}"
    and "tsy_blanked_leaves (calculate_blanked_leaves ts) =
      filter (\<lambda>i. abt_leaf (tsy_tree ts) i = None) [0..<m]"
proof -
  let ?t = "tsy_tree ts" and ?n = "length (leaf_nodes (tsy_tree ts))"
  have "{i. abt_leaf ?t i \<noteq> None} = set (filter (\<lambda>i. abt_leaf ?t i \<noteq> None) [0..<?n])"
    using abt_leaf_blank [OF assms(1)] by (auto simp: not_le [symmetric])
  then have "card {i. abt_leaf ?t i \<noteq> None} = length (filter (\<lambda>i. abt_leaf ?t i \<noteq> None) [0..<?n])"
    by (metis distinct_card distinct_filter distinct_upt)
  then show "tsy_num_members (calculate_num_members ts) = card {i. abt_leaf ?t i \<noteq> None}"
    unfolding calculate_num_members_def tsy_full_leaves_def abt_leaves_eq(1) [OF assms(1)]
    by (simp add: map_filter_options)
  have "takeWhile (\<lambda>(leaf_index, _). leaf_index < m) (map (\<lambda>i. (i, abt_leaf ?t i)) [0..<?n])
      = map (\<lambda>i. (i, abt_leaf ?t i)) [0..<m]"
    using takeWhile_upt [of m ?n] rightmost_member_less [OF assms] by (simp add: takeWhile_map comp_def)
  then show "tsy_blanked_leaves (calculate_blanked_leaves ts) = filter (\<lambda>i. abt_leaf ?t i = None) [0..<m]"
    unfolding calculate_blanked_leaves_def Let_def rightmost_full_leaf_complete_eq [OF assms] abt_leaves_eq(1) [OF assms(1)]
    by (simp add: map_filter_blank)
qed

text \<open>A tree whose counters were computed from its leaves, and which is not larger than they need.\<close>

lemma counted_members_inv:
  assumes inv: "abt_inv (tsy_tree ts)" and m: "rightmost_member (tsy_tree ts) m"
    and num: "tsy_num_members ts = card {i. abt_leaf (tsy_tree ts) i \<noteq> None}"
    and blanked: "tsy_blanked_leaves ts = filter (\<lambda>i. abt_leaf (tsy_tree ts) i = None) [0..<m]"
    and tight: "leaf_count (tsy_tree_size ts) < 2 * (m + 1)"
  shows "members_inv (tsy_empty_diff ts)" and "high_water (tsy_empty_diff ts) = m + 1"
proof -
  let ?t = "tsy_tree ts"
  have members: "members (tsy_empty_diff ts) = abt_leaf ?t"
    using ab_leaf_from_tree [OF inv] by (auto simp: members_def tsy_empty_diff_def abt_empty_diff_def)
  have dom: "{i. abt_leaf ?t i \<noteq> None} = set (filter (\<lambda>i. abt_leaf ?t i \<noteq> None) [0..<Suc m])"
    using m by (auto simp: rightmost_member_def not_le [symmetric] simp del: upt_Suc)
  then have card: "card {i. abt_leaf ?t i \<noteq> None} = length (filter (\<lambda>i. abt_leaf ?t i \<noteq> None) [0..<Suc m])"
    by (metis distinct_card distinct_filter distinct_upt)
  have m': "abt_leaf ?t m \<noteq> None" using m by (simp add: rightmost_member_def)
  have "length (filter (\<lambda>i. abt_leaf ?t i \<noteq> None) [0..<Suc m]) + length (filter (\<lambda>i. abt_leaf ?t i = None) [0..<m]) = m + 1"
    using sum_length_filter_compl [of "\<lambda>i. abt_leaf ?t i = None" "[0..<m]"] m' by simp
  then show hw: "high_water (tsy_empty_diff ts) = m + 1"
    using num blanked card by (simp add: high_water_def tsy_empty_diff_def)
  have "m < leaf_count (tsy_tree_size ts)"
    using rightmost_member_less [OF inv m] abt_covers_size(1) [OF inv] by (simp add: tsy_tree_size_def)
  moreover have "tsd_leaf_count (tsy_empty_diff ts) = leaf_count (tsy_tree_size ts)"
    by (simp add: tsd_leaf_count_def tsy_empty_diff_def abt_empty_diff_def ab_leaf_count_def ab_from_tree_def
        tsy_tree_size_def)
  moreover have "set (filter (\<lambda>i. abt_leaf ?t i = None) [0..<m]) = {i. i < m + 1 \<and> i \<notin> dom (abt_leaf ?t)}"
    using m' by (auto simp: less_Suc_eq dom_def)
  ultimately show "members_inv (tsy_empty_diff ts)"
    unfolding members_inv_def members hw
    using ab_from_tree_inv [OF inv] num blanked tight
    by (simp add: tsy_empty_diff_def abt_empty_diff_def dom_def)
qed

section \<open>Importing a tree\<close>

lemma split_nodes_nth:
  assumes "split_nodes i nodes ls ps = Inr (ls', ps')"
  shows "\<exists>l p. ls' = ls @ l \<and> ps' = ps @ p \<and>
    (\<forall>k < length nodes. if (i + k) mod 2 = 0
       then k div 2 < length l \<and> nodes ! k = TreeNodeLeaf (l ! (k div 2))
       else k div 2 < length p \<and> nodes ! k = TreeNodeParent (p ! (k div 2)))"
  using assms
proof (induction i nodes ls ps rule: split_nodes.induct)
  case (2 i leaf nodes ls ps)
  then have i: "i mod 2 = 0" by (auto split: if_splits)
  with 2 obtain l p where lp: "ls' = ls @ leaf # l" "ps' = ps @ p"
    "\<forall>k < length nodes. if (i + 1 + k) mod 2 = 0
       then k div 2 < length l \<and> nodes ! k = TreeNodeLeaf (l ! (k div 2))
       else k div 2 < length p \<and> nodes ! k = TreeNodeParent (p ! (k div 2))"
    by auto
  have all: "if (i + k) mod 2 = 0
      then k div 2 < length (leaf # l) \<and> (TreeNodeLeaf leaf # nodes) ! k = TreeNodeLeaf ((leaf # l) ! (k div 2))
      else k div 2 < length p \<and> (TreeNodeLeaf leaf # nodes) ! k = TreeNodeParent (p ! (k div 2))"
    if "k < Suc (length nodes)" for k
  proof (cases k)
    case (Suc j)
    then have j: "if (i + k) mod 2 = 0
        then j div 2 < length l \<and> nodes ! j = TreeNodeLeaf (l ! (j div 2))
        else j div 2 < length p \<and> nodes ! j = TreeNodeParent (p ! (j div 2))"
      using lp(3) that by auto
    have "k div 2 = (if (i + k) mod 2 = 0 then Suc (j div 2) else j div 2)" using Suc i by presburger
    with j Suc show ?thesis by (auto split: if_splits)
  qed (use i in simp)
  show ?case using lp(1,2) all
    by (intro exI [of _ "leaf # l"] exI [of _ p] conjI allI impI) (simp_all only: length_Cons append_Cons append_Nil)
next
  case (3 i parent nodes ls ps)
  then have i: "i mod 2 = 1" by (auto split: if_splits)
  with 3 obtain l p where lp: "ls' = ls @ l" "ps' = ps @ parent # p"
    "\<forall>k < length nodes. if (i + 1 + k) mod 2 = 0
       then k div 2 < length l \<and> nodes ! k = TreeNodeLeaf (l ! (k div 2))
       else k div 2 < length p \<and> nodes ! k = TreeNodeParent (p ! (k div 2))"
    by auto
  have all: "if (i + k) mod 2 = 0
      then k div 2 < length l \<and> (TreeNodeParent parent # nodes) ! k = TreeNodeLeaf (l ! (k div 2))
      else k div 2 < length (parent # p) \<and> (TreeNodeParent parent # nodes) ! k = TreeNodeParent ((parent # p) ! (k div 2))"
    if "k < Suc (length nodes)" for k
  proof (cases k)
    case (Suc j)
    then have j: "if (i + k) mod 2 = 0
        then j div 2 < length l \<and> nodes ! j = TreeNodeLeaf (l ! (j div 2))
        else j div 2 < length p \<and> nodes ! j = TreeNodeParent (p ! (j div 2))"
      using lp(3) that by auto
    have "k div 2 = (if (i + k) mod 2 = 0 then j div 2 else Suc (j div 2))" using Suc i by presburger
    with j Suc show ?thesis by (auto split: if_splits)
  qed (use i in simp)
  show ?case using lp(1,2) all
    by (intro exI [of _ l] exI [of _ "parent # p"] conjI allI impI) (simp_all only: length_Cons append_Cons append_Nil)
qed auto

lemma abt_new_nth:
  assumes "abt_new nodes = Inr t"
  shows "length nodes = 2 * length (parent_nodes t) + 1"
    and "i < length (leaf_nodes t) \<Longrightarrow> nodes ! (2 * i) = TreeNodeLeaf (leaf_nodes t ! i)"
    and "i < length (parent_nodes t) \<Longrightarrow> nodes ! (2 * i + 1) = TreeNodeParent (parent_nodes t ! i)"
proof -
  note inv = abt_new_inv [OF assms]
  then have len: "length (leaf_nodes t) = length (parent_nodes t) + 1"
    "length nodes = length (leaf_nodes t) + length (parent_nodes t)"
    by (simp_all add: abt_inv_def)
  then show l: "length nodes = 2 * length (parent_nodes t) + 1" by simp
  have "split_nodes 0 nodes [] [] = Inr (leaf_nodes t, parent_nodes t)"
    using assms by (auto simp: abt_new_def try_bind_eq_Inr split: if_splits)
  then have nth: "\<forall>k < length nodes. if k mod 2 = 0
      then k div 2 < length (leaf_nodes t) \<and> nodes ! k = TreeNodeLeaf (leaf_nodes t ! (k div 2))
      else k div 2 < length (parent_nodes t) \<and> nodes ! k = TreeNodeParent (parent_nodes t ! (k div 2))"
    using split_nodes_nth [of 0 nodes "[]" "[]"] by auto
  show "nodes ! (2 * i) = TreeNodeLeaf (leaf_nodes t ! i)" if "i < length (leaf_nodes t)"
    using nth [rule_format, of "2 * i"] that len l by simp
  show "nodes ! (2 * i + 1) = TreeNodeParent (parent_nodes t ! i)" if "i < length (parent_nodes t)"
    using nth [rule_format, of "2 * i + 1"] that len l by simp
qed

text \<open>The leaf and the parent at an index of an exchanged tree.\<close>

definition rt_leaf :: "ratchet_tree \<Rightarrow> nat \<Rightarrow> leaf_node option" where
  "rt_leaf rt i = (case vec_get rt (2 * i) of Some (Some (NodeLeaf leaf)) \<Rightarrow> Some leaf | _ \<Rightarrow> None)"

definition rt_parent :: "ratchet_tree \<Rightarrow> nat \<Rightarrow> parent_node option" where
  "rt_parent rt i = (case vec_get rt (2 * i + 1) of Some (Some (NodeParent pn)) \<Rightarrow> Some pn | _ \<Rightarrow> None)"

lemma imported_nodes:
  assumes "abt_new (map (\<lambda>(i, node). to_tree_node i node) (enumerate 0 rt)) = Inr t"
  shows "length rt = 2 * length (parent_nodes t) + 1" and "abt_leaf t i = rt_leaf rt i"
    and "abt_parent t i = rt_parent rt i"
proof -
  note nth = abt_new_nth [OF assms]
  have inv: "abt_inv t" "length (leaf_nodes t) = length (parent_nodes t) + 1"
    using abt_new_inv [OF assms] by (simp_all add: abt_inv_def)
  show len: "length rt = 2 * length (parent_nodes t) + 1" using nth(1) by simp
  have at: "map (\<lambda>(i, node). to_tree_node i node) (enumerate 0 rt) ! k = to_tree_node k (rt ! k)"
    if "k < length rt" for k
    using that by (simp add: nth_enumerate_eq)
  show "abt_leaf t i = rt_leaf rt i"
  proof (cases "i < length (leaf_nodes t)")
    case True
    then have "to_tree_node (2 * i) (rt ! (2 * i)) = TreeNodeLeaf (leaf_nodes t ! i)" "2 * i < length rt"
      using nth(2) [of i] at [of "2 * i"] len inv(2) by simp_all
    then show ?thesis
      using True inv(1) by (cases "(2 * i, rt ! (2 * i))" rule: to_tree_node.cases)
        (auto simp: abt_leaf_by_index_eq rt_leaf_def vec_get_def split: option.splits node.splits)
  next
    case False
    then show ?thesis using inv len by (simp add: abt_leaf_by_index_eq default_option_def rt_leaf_def vec_get_def)
  qed
  show "abt_parent t i = rt_parent rt i"
  proof (cases "i < length (parent_nodes t)")
    case True
    then have "to_tree_node (2 * i + 1) (rt ! (2 * i + 1)) = TreeNodeParent (parent_nodes t ! i)" "2 * i + 1 < length rt"
      using nth(3) [of i] at [of "2 * i + 1"] len inv(2) by simp_all
    then show ?thesis
      using True inv(1) by (cases "(2 * i + 1, rt ! (2 * i + 1))" rule: to_tree_node.cases)
        (auto simp: abt_parent_by_index_eq rt_parent_def vec_get_def split: option.splits node.splits)
  next
    case False
    then show ?thesis using inv len by (simp add: abt_parent_by_index_eq default_option_def rt_parent_def vec_get_def)
  qed
qed

lemma from_ratchet_tree_ok:
  assumes "from_ratchet_tree P rt = Inr ts" and "rt \<noteq> []" and "last rt \<noteq> None"
  obtains m where "length rt = 2 * m + 1" and "rightmost_member (tsy_tree ts) m"
    and "abt_inv (tsy_tree ts)" and "members_inv (tsy_empty_diff ts)" and "high_water (tsy_empty_diff ts) = m + 1"
    and "\<And>i. tsy_leaf ts i = rt_leaf rt i" and "\<And>i. tsy_parent ts i = rt_parent rt i"
    and "length (leaf_nodes (tsy_tree ts)) = leaf_count (tsy_tree_size ts)"
proof -
  obtain t ts1 where t: "abt_new (map (\<lambda>(i, node). to_tree_node i node) (enumerate 0 rt)) = Inr t"
    and ts1: "tsy_populate_tree_hashes P \<lparr>tsy_tree = t, tsy_tree_hash = [], tsy_tree_hashes = [],
      tsy_blanked_leaves = [], tsy_num_members = 0\<rparr> = Inr ts1"
    and ts: "tsy_populate_parent_hashes (calculate_blanked_leaves (calculate_num_members ts1)) = Inr ts"
    using assms(1) by (auto simp: from_ratchet_tree_def try_bind_eq_Inr Let_def)
  let ?ts2 = "calculate_blanked_leaves (calculate_num_members ts1)"
  have inv: "abt_inv t" using abt_new_inv [OF t] by simp
  note nodes = imported_nodes [OF t]
  have same1: "same_nodes t (tsy_tree ts1)" using tsy_populate_tree_hashes_same [OF ts1] inv by simp
  have tree2: "tsy_tree ?ts2 = tsy_tree ts1"
    by (simp add: calculate_blanked_leaves_def calculate_num_members_def Let_def)
  have inv1: "abt_inv (tsy_tree ts1)" using same1 by (simp add: same_nodes_def)
  note same2 = tsy_populate_parent_hashes_same [OF ts, unfolded tree2, OF inv1]
  define m where "m = length (parent_nodes t)"
  have m: "length rt = 2 * m + 1" "length (leaf_nodes t) = m + 1"
    using nodes(1) inv by (simp_all add: m_def abt_inv_def)
  have leaf: "abt_leaf (tsy_tree ts) i = rt_leaf rt i" "abt_leaf (tsy_tree ts1) i = rt_leaf rt i"
    and parent: "abt_parent (tsy_tree ts) i = rt_parent rt i" for i
    using same1 same2(1) nodes(2,3) by (simp_all add: same_nodes_def)
  have "rt_leaf rt m \<noteq> None"
  proof -
    have "rt ! (2 * m) \<noteq> None" using assms(2,3) m(1) by (simp add: last_conv_nth)
    moreover have "to_tree_node (2 * m) (rt ! (2 * m)) = TreeNodeLeaf (leaf_nodes t ! m)"
      using abt_new_nth(2) [OF t, of m] m by (simp add: nth_enumerate_eq)
    ultimately obtain l where "rt ! (2 * m) = Some (NodeLeaf l)"
      by (cases "(2 * m, rt ! (2 * m))" rule: to_tree_node.cases) auto
    then show ?thesis using m(1) by (simp add: rt_leaf_def vec_get_def)
  qed
  moreover have "rt_leaf rt i = None" if "m < i" for i
    using that m(1) by (simp add: rt_leaf_def vec_get_def)
  ultimately have rm: "rightmost_member (tsy_tree ts) m" "rightmost_member (tsy_tree ts1) m"
    by (simp_all only: rightmost_member_def leaf) simp_all
  have tree1: "tsy_tree (calculate_num_members ts1) = tsy_tree ts1"
    and num2: "tsy_num_members ?ts2 = tsy_num_members (calculate_num_members ts1)"
    by (simp_all add: calculate_num_members_def calculate_blanked_leaves_def Let_def)
  have num: "tsy_num_members ts = card {i. abt_leaf (tsy_tree ts) i \<noteq> None}"
    and blanked: "tsy_blanked_leaves ts = filter (\<lambda>i. abt_leaf (tsy_tree ts) i = None) [0..<m]"
    using same2(2,3) calculate_counters(1) [OF inv1 rm(2)] num2
      calculate_counters(2) [of "calculate_num_members ts1" m, unfolded tree1, OF inv1 rm(2)]
    by (simp_all only: leaf)
  have inv3: "abt_inv (tsy_tree ts)" using same2(1) by (simp add: same_nodes_def)
  have size: "tsy_tree_size ts = abt_tree_size t" "length (leaf_nodes (tsy_tree ts)) = leaf_count (tsy_tree_size ts)"
    using same1 same2(1) by (simp_all add: same_nodes_def tsy_tree_size_def)
  obtain h where h: "abt_tree_size t = full_size h" "h = 0 \<or> 2 ^ (h - 1) < m + 1"
    using inv m(2) by (metis abt_tree_sizeE)
  have "leaf_count (tsy_tree_size ts) = 2 ^ h" unfolding size(1) h(1) by simp
  then have tight: "leaf_count (tsy_tree_size ts) < 2 * (m + 1)"
    using h(2) by (cases h) simp_all
  note mi = counted_members_inv [OF inv3 rm(1) num blanked tight]
  show ?thesis
    using that [OF m(1) rm(1) inv3 mi] leaf(1) parent size(2) by (simp add: tsy_leaf_def tsy_parent_def)
qed

section \<open>Verified trees\<close>

lemma verifiable_verify_same:
  "verifiable_verify C V pk (add_tree_position pos (into_verifiable_leaf_node leaf)) = Inr leaf' \<Longrightarrow> leaf' = leaf"
  by (auto simp: verifiable_verify_def into_verifiable_leaf_node_def split: option.splits if_splits leaf_node_source.splits)

lemma verify_tree_nodes_same:
  assumes "verify_tree_nodes C V cs gid index nodes = Inr nodes'"
  shows "nodes' = nodes \<and> (\<forall>k leaf. k < length nodes \<longrightarrow> nodes ! k = Some (NodeLeaf leaf) \<longrightarrow>
    verify_tree_leaf C V cs gid (index + k) leaf = Inr leaf)"
  using assms
proof (induction nodes arbitrary: index nodes')
  case (Cons node nodes)
  have same: "verify_tree_leaf C V cs gid index leaf = Inr leaf' \<Longrightarrow> leaf' = leaf" for leaf leaf'
    using verifiable_verify_same by (auto simp: verify_tree_leaf_def Let_def)
  from Cons.prems obtain n' ns' where n': "nodes' = n' # ns'" "verify_tree_nodes C V cs gid (index + 1) nodes = Inr ns'"
    "n' = node" "\<And>leaf. node = Some (NodeLeaf leaf) \<Longrightarrow> verify_tree_leaf C V cs gid index leaf = Inr leaf"
    by (auto simp: try_bind_eq_Inr split: option.splits node.splits if_splits) (use same in blast)+
  with Cons.IH [OF n'(2)] show ?case by (auto simp: nth_Cons split: nat.splits)
qed simp

lemma find_rev_last: "xs \<noteq> [] \<Longrightarrow> Q (last xs) \<Longrightarrow> List.find Q (rev xs) = Some (last xs)"
  by (cases xs rule: rev_cases) simp_all

lemma rt_trimmed_full:
  assumes "nodes \<noteq> []" and "last nodes \<noteq> None"
  shows "rt_trimmed nodes = nodes"
proof -
  have "last (enumerate 0 nodes) = (length nodes - 1, last nodes)"
    using assms(1) by (simp add: last_conv_nth nth_enumerate_eq enumerate_eq_zip)
  moreover have "enumerate 0 nodes \<noteq> []" using assms(1) by (simp add: enumerate_eq_zip)
  ultimately have "last_full_position nodes = Some (length nodes - 1)"
    using assms(2) find_rev_last [of "enumerate 0 nodes" "\<lambda>(i, node). node \<noteq> None"]
    by (simp add: last_full_position_def)
  then show ?thesis using assms(1) by (simp add: rt_trimmed_def vec_resize_def)
qed

lemma try_from_nodes_ok:
  assumes "try_from_nodes C V cs gid nodes = Inr rt"
  shows "rt = nodes" and "nodes \<noteq> []" and "last nodes \<noteq> None"
    and "rt_leaf nodes i = Some leaf \<Longrightarrow> verify_tree_leaf C V cs gid (2 * i) leaf = Inr leaf"
proof -
  from assms obtain nodes' where v: "verify_tree_nodes C V cs gid 0 nodes = Inr nodes'" "rt = rt_trimmed nodes'"
    and n: "nodes \<noteq> []" "last nodes \<noteq> None"
    by (auto simp: try_from_nodes_def try_bind_eq_Inr split: if_splits option.splits)
  note same = verify_tree_nodes_same [OF v(1)]
  show "nodes \<noteq> []" "last nodes \<noteq> None" by (fact n)+
  show "rt = nodes" using same v(2) rt_trimmed_full [OF n] by simp
  show "verify_tree_leaf C V cs gid (2 * i) leaf = Inr leaf" if "rt_leaf nodes i = Some leaf"
    using same that by (auto simp: rt_leaf_def vec_get_def split: option.splits node.splits if_splits)
qed

section \<open>Exporting a tree\<close>

lemma interleave_nth:
  assumes "length rest \<le> length ps"
  shows "length (concat (map (\<lambda>(l, p). [f p, g l]) (zip rest ps))) = 2 * length rest"
    and "k < length rest \<Longrightarrow> concat (map (\<lambda>(l, p). [f p, g l]) (zip rest ps)) ! (2 * k) = f (ps ! k)"
    and "k < length rest \<Longrightarrow> concat (map (\<lambda>(l, p). [f p, g l]) (zip rest ps)) ! (2 * k + 1) = g (rest ! k)"
  using assms
proof (induction rest arbitrary: ps k)
  case (Cons l rest)
  {
    case 1
    with Cons.IH(1) show ?case by (cases ps) auto
  next
    case 2
    with Cons.IH(2) show ?case by (cases ps; cases k) auto
  next
    case 3
    with Cons.IH(3) show ?case by (cases ps; cases k) auto
  }
qed simp_all

lemma export_nodes_nth:
  assumes "m < length leaves" and "m \<le> length parents" and "leaves ! m \<noteq> None"
  shows "length (export_nodes m leaves parents) = 2 * m + 1"
    and "export_nodes m leaves parents \<noteq> []" and "last (export_nodes m leaves parents) \<noteq> None"
    and "rt_leaf (export_nodes m leaves parents) i = (if i \<le> m then leaves ! i else None)"
    and "rt_parent (export_nodes m leaves parents) i = (if i < m then parents ! i else None)"
proof -
  obtain l0 rest where lr: "take (m + 1) leaves = l0 # rest" "length rest = m"
    using assms(1) by (cases "take (m + 1) leaves") (auto simp: min_def split: if_splits dest: arg_cong [of _ _ length])
  let ?ps = "take m parents @ replicate (length leaves - 1 - length parents) default"
  let ?L = "concat (map (\<lambda>(leaf, parent). [map_option NodeParent parent, map_option NodeLeaf leaf]) (zip rest ?ps))"
  have at: "leaves ! i = (l0 # rest) ! i" if "i \<le> m" for i
    using that lr(1) by (metis le_imp_less_Suc nth_take Suc_eq_plus1)
  have "length rest \<le> length ?ps" using lr(2) assms(2) by simp
  note inter = interleave_nth [OF this, where f = "map_option NodeParent" and g = "map_option NodeLeaf"]
  let ?E = "map_option NodeLeaf l0 # ?L"
  have len: "length ?E = 2 * m + 1" using inter(1) lr(2) by simp
  have even: "?E ! (2 * i) = map_option NodeLeaf (leaves ! i)" if "i \<le> m" for i
    using that at [OF that] inter(3) [of "i - 1"] lr(2) by (cases i) auto
  have odd: "?E ! (2 * i + 1) = map_option NodeParent (parents ! i)" if "i < m" for i
    using that inter(2) [of i] lr(2) assms(2) by (simp add: nth_append)
  have last: "last ?E = map_option NodeLeaf (leaves ! m)"
    using even [of m] len by (metis last_conv_nth list.simps(3) le_refl add_diff_cancel_right')
  have "export_nodes m leaves parents = rt_trimmed ?E" by (simp only: export_nodes_def lr(1) list.case)
  also have "\<dots> = ?E" using last assms(3) by (intro rt_trimmed_full) auto
  finally have E: "export_nodes m leaves parents = ?E" .
  show "length (export_nodes m leaves parents) = 2 * m + 1" unfolding E by (rule len)
  show "export_nodes m leaves parents \<noteq> []" unfolding E by simp
  show "last (export_nodes m leaves parents) \<noteq> None" unfolding E using last assms(3) by simp
  show "rt_leaf (export_nodes m leaves parents) i = (if i \<le> m then leaves ! i else None)"
    unfolding E rt_leaf_def vec_get_def len using even [of i] by (cases "leaves ! i") auto
  show "rt_parent (export_nodes m leaves parents) i = (if i < m then parents ! i else None)"
    unfolding E rt_parent_def vec_get_def len using odd [of i] by (cases "parents ! i") auto
qed

text \<open>A parent that is not blank sits to the left of a member.\<close>

lemma parent_left_of_member:
  assumes "parents_inv d" and "ab_parent (tsd_diff d) p \<noteq> None"
  shows "\<exists>i \<in> dom (members d). p < i"
proof -
  obtain k m where p: "p = node_at k m" using node_at_surj by blast
  with assms obtain i where i: "i \<in> dom (members d)" "anc i k = 2 * m + 1"
    unfolding parents_inv_def by fastforce
  then have "2 ^ k * (2 * m + 1) \<le> i" by (metis anc_def times_div_less_eq_dividend)
  then have "p < i" using Suc_node_at [of k m] p by linarith
  with i(1) show ?thesis by blast
qed

lemma tsy_export_ok:
  assumes inv: "abt_inv (tsy_tree ts)" and parents: "parents_inv (tsy_empty_diff ts)"
    and member: "tsy_leaf ts k \<noteq> None"
  obtains m where "rightmost_member (tsy_tree ts) m" and "length (tsy_export_ratchet_tree ts) = 2 * m + 1"
    and "tsy_export_ratchet_tree ts \<noteq> []" and "last (tsy_export_ratchet_tree ts) \<noteq> None"
    and "\<And>i. rt_leaf (tsy_export_ratchet_tree ts) i = tsy_leaf ts i"
    and "\<And>i. rt_parent (tsy_export_ratchet_tree ts) i = tsy_parent ts i"
proof -
  let ?t = "tsy_tree ts" and ?M = "{i. abt_leaf (tsy_tree ts) i \<noteq> None}"
  have fin: "finite ?M"
    using abt_leaf_blank [OF inv] by (intro finite_subset [of ?M "{..<length (leaf_nodes ?t)}"])
      (auto simp: not_le [symmetric])
  have ne: "?M \<noteq> {}" using member by (auto simp: tsy_leaf_def)
  define m where "m = Max ?M"
  have in_M: "abt_leaf ?t m \<noteq> None" unfolding m_def using Max_in [OF fin ne] by (rule CollectD)
  have le: "i \<le> m" if "abt_leaf ?t i \<noteq> None" for i
    unfolding m_def using fin that by (intro Max_ge) auto
  have "abt_leaf ?t i = None" if "m < i" for i
    using le [of i] that by (cases "abt_leaf ?t i = None") auto
  with in_M have m: "rightmost_member ?t m" unfolding rightmost_member_def by blast
  have len: "m < length (leaf_nodes ?t)" "m \<le> length (parent_nodes ?t)"
    using rightmost_member_less [OF inv m] inv by (simp_all add: abt_inv_def)
  let ?ls = "map snd (abt_leaves ?t)" and ?ps = "map snd (abt_parents ?t)"
  have lists: "?ls = map (abt_leaf ?t) [0..<length (leaf_nodes ?t)]"
    "?ps = map (abt_parent ?t) [0..<length (parent_nodes ?t)]"
    by (simp_all add: abt_leaves_eq [OF inv] comp_def)
  have E: "tsy_export_ratchet_tree ts = export_nodes m ?ls ?ps"
    by (simp only: tsy_export_ratchet_tree_def rightmost_full_leaf_complete_eq [OF inv m])
  have "m < length ?ls" "m \<le> length ?ps" "?ls ! m \<noteq> None"
    using len m by (simp_all add: lists rightmost_member_def)
  note ex = export_nodes_nth [OF this, folded E]
  have beyond: "tsy_parent ts i = None" if "m \<le> i" for i
  proof (rule ccontr)
    assume "tsy_parent ts i \<noteq> None"
    then have "ab_parent (tsd_diff (tsy_empty_diff ts)) i \<noteq> None"
      using ab_parent_from_tree [of ?t] by (simp add: tsy_parent_def tsy_empty_diff_def abt_empty_diff_def)
    then obtain j where "members (tsy_empty_diff ts) j \<noteq> None" "i < j"
      using parent_left_of_member [OF parents] by blast
    then have "abt_leaf ?t j \<noteq> None" "m < j"
      using that ab_leaf_from_tree [OF inv] by (simp_all add: members_def tsy_empty_diff_def abt_empty_diff_def)
    with m show False by (simp add: rightmost_member_def)
  qed
  show ?thesis
  proof (rule that [OF m ex(1) ex(2) ex(3)])
    show "rt_leaf (tsy_export_ratchet_tree ts) i = tsy_leaf ts i" for i
      using m len by (simp add: ex(4) lists tsy_leaf_def rightmost_member_def)
    show "rt_parent (tsy_export_ratchet_tree ts) i = tsy_parent ts i" for i
      using beyond [of i] len by (simp add: ex(5) lists tsy_parent_def)
  qed
qed

lemma tsd_leaf_count_empty: "tsd_leaf_count (tsy_empty_diff ts) = leaf_count (tsy_tree_size ts)"
  by (simp add: tsd_leaf_count_def tsy_empty_diff_def abt_empty_diff_def ab_leaf_count_def ab_from_tree_def
      tsy_tree_size_def)

text \<open>
  Exporting a tree and importing it again gives the same members and parents, in the smallest tree
  that holds them.
\<close>

lemma export_import:
  assumes inv: "abt_inv (tsy_tree ts)" and parents: "parents_inv (tsy_empty_diff ts)"
    and member: "tsy_leaf ts k \<noteq> None"
    and imported: "from_ratchet_tree P (tsy_export_ratchet_tree ts) = Inr ts'"
  obtains m where "tsy_leaf ts m \<noteq> None" and "\<And>i. m < i \<Longrightarrow> tsy_leaf ts i = None"
    and "members_inv (tsy_empty_diff ts')"
    and "\<And>i. tsy_leaf ts' i = tsy_leaf ts i" and "\<And>i. tsy_parent ts' i = tsy_parent ts i"
    and "m < leaf_count (tsy_tree_size ts')" and "leaf_count (tsy_tree_size ts') < 2 * (m + 1)"
proof -
  obtain m where m: "rightmost_member (tsy_tree ts) m" "length (tsy_export_ratchet_tree ts) = 2 * m + 1"
    and ne: "tsy_export_ratchet_tree ts \<noteq> []" "last (tsy_export_ratchet_tree ts) \<noteq> None"
    and nodes: "\<And>i. rt_leaf (tsy_export_ratchet_tree ts) i = tsy_leaf ts i"
      "\<And>i. rt_parent (tsy_export_ratchet_tree ts) i = tsy_parent ts i"
    using tsy_export_ok [OF inv parents member] by metis
  obtain m' where m': "length (tsy_export_ratchet_tree ts) = 2 * m' + 1" "members_inv (tsy_empty_diff ts')"
    "high_water (tsy_empty_diff ts') = m' + 1"
    and nodes': "\<And>i. tsy_leaf ts' i = rt_leaf (tsy_export_ratchet_tree ts) i"
      "\<And>i. tsy_parent ts' i = rt_parent (tsy_export_ratchet_tree ts) i"
    using from_ratchet_tree_ok [OF imported ne] by metis
  show ?thesis
  proof (rule that)
    show "tsy_leaf ts m \<noteq> None" "m < i \<Longrightarrow> tsy_leaf ts i = None" for i
      using m(1) by (simp_all add: rightmost_member_def tsy_leaf_def)
    show "members_inv (tsy_empty_diff ts')" by (fact m')
    show "tsy_leaf ts' i = tsy_leaf ts i" "tsy_parent ts' i = tsy_parent ts i" for i
      by (simp_all add: nodes nodes')
    show "m < leaf_count (tsy_tree_size ts')" "leaf_count (tsy_tree_size ts') < 2 * (m + 1)"
      using m' m(2) by (simp_all add: members_inv_def tsd_leaf_count_empty)
  qed
qed

section \<open>The keys of a new member\<close>

lemma derive_path_Cons:
  assumes "derive_path K s (p # ps) = Inr (nodes, plain, keypairs, commit_secret)"
  obtains next_secret kp nodes' plain' keypairs' where "derive_path_secret K s = Inr next_secret"
    and "derive_key_pair K s = Inr kp"
    and "derive_path K next_secret ps = Inr (nodes', plain', keypairs', commit_secret)"
    and "nodes = (p, parent_node_from_key (kp_public_key kp)) # nodes'" and "keypairs = kp # keypairs'"
  using assms that by (auto simp: derive_path_def try_bind_eq_Inr)

text \<open>
  The committer derives the keys of the nodes of a path from a path secret. A new member that
  gets the secret derives the same keys from the tree, whose blank nodes it skips.
\<close>

lemma derive_path_secrets_loop_ok:
  assumes "derive_path K s (filter (\<lambda>p. abt_parent_by_index (tsy_tree ts) p \<noteq> None) path) =
      Inr (nodes, plain, keypairs, commit_secret)"
    and "\<And>p pn'. (p, pn') \<in> set nodes \<Longrightarrow> \<exists>pn. abt_parent_by_index (tsy_tree ts) p = Some pn \<and>
      pn_encryption_key pn = pn_encryption_key pn' \<and> j \<notin> set (unmerged_leaves pn)"
  shows "derive_path_secrets_loop K ts j s path = Inr (keypairs, commit_secret)"
  using assms
proof (induction path arbitrary: s nodes plain keypairs)
  case Nil
  then show ?case by (simp add: derive_path_def)
next
  case (Cons p path)
  show ?case
  proof (cases "abt_parent_by_index (tsy_tree ts) p")
    case None
    with Cons show ?thesis by simp
  next
    case (Some pn)
    with Cons.prems(1) obtain next_secret kp nodes' plain' keypairs' where
      d: "derive_path_secret K s = Inr next_secret" "derive_key_pair K s = Inr kp"
        "derive_path K next_secret (filter (\<lambda>p. abt_parent_by_index (tsy_tree ts) p \<noteq> None) path) =
          Inr (nodes', plain', keypairs', commit_secret)"
      and n: "nodes = (p, parent_node_from_key (kp_public_key kp)) # nodes'" "keypairs = kp # keypairs'"
      by (auto elim: derive_path_Cons)
    have "pn_encryption_key pn = kp_public_key kp" "j \<notin> set (unmerged_leaves pn)"
      using Cons.prems(2) [of p "parent_node_from_key (kp_public_key kp)"] Some n(1)
      by (auto simp: parent_node_from_key_def)
    moreover have "derive_path_secrets_loop K ts j next_secret path = Inr (keypairs', commit_secret)"
      using Cons.IH [OF d(3)] Cons.prems(2) n(1) by auto
    ultimately show ?thesis using Some d n(2) by (simp add: lib_def)
  qed
qed

end
