(* ===== verification/Public_Group.thy ===== *)
theory Public_Group
  imports Ratchet_Tree Proposal_Queue
begin

text \<open>
  The public state of a group (\<open>group/public_group/mod.rs\<close>), its diff (\<open>group/public_group/diff.rs\<close>), the
  validation of proposals (\<open>group/public_group/validation.rs\<close>) and their application
  (\<open>group/public_group/diff/apply_proposals.rs\<close>). Hash sets are sets.
\<close>

section \<open>The provider\<close>

text \<open>
  What the code gets from outside: the primitives of the crypto provider, HPKE, the check of
  signatures, the clock and the derived TLS codecs. A ratchet tree in an extension is kept in its
  encoded form.
\<close>

record mls_provider =
  mp_crypto :: crypto_provider
  mp_hpke :: hpke_crypto
  mp_export :: hpke_export_provider
  mp_verify_signature :: signature_check
  mp_now :: "64 word option"
  mp_tree_hash_input :: "tree_hash_input \<Rightarrow> bytes option"
  mp_parent_hash_input :: "parent_hash_input \<Rightarrow> bytes option"
  mp_leaf :: leaf_codec
  mp_key_package :: key_package_codec
  mp_framing :: framing_codec
  mp_private :: private_codec
  mp_welcome :: welcome_codec
  mp_psk_label :: psk_label_codec
  mp_encode_tree :: "ratchet_tree \<Rightarrow> bytes"
  mp_decode_tree :: "bytes \<Rightarrow> ratchet_tree"

definition mp_hash :: "mls_provider \<Rightarrow> ciphersuite \<Rightarrow> hash_provider" where
  "mp_hash Z cs =
     \<lparr>tls_tree_hash_input = mp_tree_hash_input Z, tls_parent_hash_input = mp_parent_hash_input Z,
      crypto_hash = (\<lambda>m. case hash_prim (mp_crypto Z) (hash_algorithm cs) m of Inr h \<Rightarrow> Some h | Inl _ \<Rightarrow> None)\<rparr>"

definition mp_validation :: "mls_provider \<Rightarrow> validation_env" where
  "mp_validation Z =
     \<lparr>env_leaf_codec = mp_leaf Z, env_key_package_codec = mp_key_package Z,
      env_verify_signature = mp_verify_signature Z, env_now = mp_now Z\<rparr>"

definition mp_deriver :: "mls_provider \<Rightarrow> ciphersuite \<Rightarrow> path_deriver" where
  "mp_deriver Z cs = path_secret_deriver (mp_crypto Z) (mp_export Z) cs"

section \<open>State\<close>

record public_group =
  pg_treesync :: tree_sync
  pg_proposal_store :: proposal_store
  pg_group_context :: group_context
  pg_interim_transcript_hash :: bytes
  pg_confirmation_tag :: bytes

definition public_group_new ::
  "mls_provider \<Rightarrow> tree_sync \<Rightarrow> group_context \<Rightarrow> bytes \<Rightarrow> library_error + public_group" where
  "public_group_new Z treesync group_context initial_confirmation_tag =
     try_bind (calculate_interim_transcript_hash (mp_crypto Z) (mp_framing Z) (gc_ciphersuite group_context)
       (gc_confirmed_transcript_hash group_context) initial_confirmation_tag) (\<lambda>interim_transcript_hash.
       Inr \<lparr>pg_treesync = treesync, pg_proposal_store = [], pg_group_context = group_context,
            pg_interim_transcript_hash = interim_transcript_hash,
            pg_confirmation_tag = initial_confirmation_tag\<rparr>)"

abbreviation pg_ciphersuite :: "public_group \<Rightarrow> ciphersuite" where
  "pg_ciphersuite pg \<equiv> gc_ciphersuite (pg_group_context pg)"

abbreviation pg_version :: "public_group \<Rightarrow> protocol_version" where
  "pg_version pg \<equiv> gc_protocol_version (pg_group_context pg)"

abbreviation pg_group_id :: "public_group \<Rightarrow> group_id" where
  "pg_group_id pg \<equiv> gc_group_id (pg_group_context pg)"

text \<open>A proposal is given if it is inlined; the iterator of the code also yields missing ones.\<close>

definition leftmost_free_index :: "public_group \<Rightarrow> proposal list \<Rightarrow> nat" where
  "leftmost_free_index pg inline_proposals =
     (let free_leaf_index = tsy_free_leaf_index (pg_treesync pg) in
      case find (\<lambda>p. proposal_is_type p RemoveType) inline_proposals of
        Some (Remove removed_index) \<Rightarrow>
          if removed_index < free_leaf_index then removed_index else free_leaf_index
      | _ \<Rightarrow> free_leaf_index)"

section \<open>The diff\<close>

record public_group_diff =
  pgd_diff :: tree_sync_diff
  pgd_group_context :: group_context
  pgd_interim_transcript_hash :: bytes
  pgd_confirmation_tag :: bytes

definition pg_empty_diff :: "public_group \<Rightarrow> public_group_diff" where
  "pg_empty_diff pg =
     \<lparr>pgd_diff = tsy_empty_diff (pg_treesync pg), pgd_group_context = pg_group_context pg,
      pgd_interim_transcript_hash = pg_interim_transcript_hash pg, pgd_confirmation_tag = pg_confirmation_tag pg\<rparr>"

record staged_public_group_diff =
  spd_staged_diff :: staged_tree_sync_diff
  spd_group_context :: group_context
  spd_interim_transcript_hash :: bytes
  spd_confirmation_tag :: bytes

definition pgd_into_staged_diff :: "public_group_diff \<Rightarrow> treesync_error + staged_public_group_diff" where
  "pgd_into_staged_diff d =
     try_bind (into_staged_diff (pgd_diff d)) (\<lambda>staged_diff.
       Inr \<lparr>spd_staged_diff = staged_diff, spd_group_context = pgd_group_context d,
            spd_interim_transcript_hash = pgd_interim_transcript_hash d,
            spd_confirmation_tag = pgd_confirmation_tag d\<rparr>)"

definition pg_merge_diff :: "staged_public_group_diff \<Rightarrow> public_group \<Rightarrow> public_group" where
  "pg_merge_diff staged pg =
     pg\<lparr>pg_treesync := tsy_merge_diff (spd_staged_diff staged) (pg_treesync pg),
        pg_group_context := spd_group_context staged,
        pg_interim_transcript_hash := spd_interim_transcript_hash staged,
        pg_confirmation_tag := spd_confirmation_tag staged\<rparr>"

definition pgd_decrypt_path ::
  "mls_provider \<Rightarrow> encryption_key_pair list \<Rightarrow> nat \<Rightarrow> nat \<Rightarrow> update_path_node list \<Rightarrow> nat set \<Rightarrow>
   public_group_diff \<Rightarrow> treesync_error + encryption_key_pair list \<times> bytes" where
  "pgd_decrypt_path Z owned_keys own_leaf_index sender_leaf_index update_path exclusion_list d =
     (let cs = gc_ciphersuite (pgd_group_context d) in
      group_decrypt_path (labelled_hpke (mp_hpke Z) cs) (mp_deriver Z cs)
        (tls_group_context (mp_framing Z) (pgd_group_context d)) owned_keys own_leaf_index sender_leaf_index
        update_path exclusion_list (pgd_diff d))"

definition pgd_apply_received_update_path ::
  "mls_provider \<Rightarrow> ciphersuite \<Rightarrow> nat \<Rightarrow> update_path \<Rightarrow> public_group_diff \<Rightarrow> treesync_error + public_group_diff" where
  "pgd_apply_received_update_path Z cs sender_leaf_index path d =
     try_bind (apply_received_update_path (mp_hash Z cs) sender_leaf_index path (pgd_diff d))
       (\<lambda>diff. Inr (d\<lparr>pgd_diff := diff\<rparr>))"

definition pgd_update_interim_transcript_hash ::
  "mls_provider \<Rightarrow> ciphersuite \<Rightarrow> bytes \<Rightarrow> public_group_diff \<Rightarrow> library_error + public_group_diff" where
  "pgd_update_interim_transcript_hash Z cs confirmation_tag d =
     try_bind (calculate_interim_transcript_hash (mp_crypto Z) (mp_framing Z) cs
       (gc_confirmed_transcript_hash (pgd_group_context d)) confirmation_tag) (\<lambda>interim_transcript_hash.
       Inr (d\<lparr>pgd_confirmation_tag := confirmation_tag, pgd_interim_transcript_hash := interim_transcript_hash\<rparr>))"

definition pgd_update_group_context ::
  "extensions option \<Rightarrow> public_group_diff \<Rightarrow> treesync_error + public_group_diff" where
  "pgd_update_group_context exts d =
     try_bind (tsd_root_hash (pgd_diff d)) (\<lambda>new_tree_hash.
     let gc = increment_epoch (update_tree_hash new_tree_hash (pgd_group_context d)) in
       Inr (d\<lparr>pgd_group_context := (case exts of Some e \<Rightarrow> set_extensions e gc | None \<Rightarrow> gc)\<rparr>))"

definition pgd_update_confirmed_transcript_hash ::
  "mls_provider \<Rightarrow> authenticated_content \<Rightarrow> public_group_diff \<Rightarrow> library_error + public_group_diff" where
  "pgd_update_confirmed_transcript_hash Z commit_content d =
     try_bind (update_confirmed_transcript_hash (mp_crypto Z) (mp_framing Z) (pgd_interim_transcript_hash d)
       commit_content (pgd_group_context d)) (\<lambda>gc. Inr (d\<lparr>pgd_group_context := gc\<rparr>))"

section \<open>Applying proposals\<close>

record apply_proposals_values =
  apv_path_required :: bool
  apv_self_removed :: bool
  apv_invitation_list :: "(nat \<times> key_package) list"
  apv_presharedkeys :: "pre_shared_key_id list"
  apv_external_init :: "bytes option"
  apv_extensions :: "extensions option"

definition apv_exclusion_list :: "apply_proposals_values \<Rightarrow> nat set" where
  "apv_exclusion_list v = fst ` set (apv_invitation_list v)"

fun apply_updates :: "queued_proposal list \<Rightarrow> tree_sync_diff \<Rightarrow> treesync_error + tree_sync_diff" where
  "apply_updates [] d = Inr d"
| "apply_updates (x # xs) d =
     (case qp_proposal x of
        Update leaf_node \<Rightarrow>
          (case qp_sender x of
             SenderMember sender_index \<Rightarrow> try_bind (update_leaf leaf_node sender_index d) (apply_updates xs)
           | _ \<Rightarrow> Inl (TsLibraryError (CustomError ''Update proposal from non-member'')))
      | _ \<Rightarrow> apply_updates xs d)"

fun apply_removes ::
  "nat option \<Rightarrow> queued_proposal list \<Rightarrow> bool \<Rightarrow> tree_sync_diff \<Rightarrow> treesync_error + bool \<times> tree_sync_diff" where
  "apply_removes own_leaf_index [] self_removed d = Inr (self_removed, d)"
| "apply_removes own_leaf_index (x # xs) self_removed d =
     (case qp_proposal x of
        Remove removed \<Rightarrow>
          try_bind (blank_leaf removed d)
            (apply_removes own_leaf_index xs (self_removed \<or> own_leaf_index = Some removed))
      | _ \<Rightarrow> apply_removes own_leaf_index xs self_removed d)"

text \<open>The error of a full tree becomes an error of the library; a panic stays one.\<close>

fun tree_full_error :: "treesync_error \<Rightarrow> treesync_error" where
  "tree_full_error Panic = Panic"
| "tree_full_error NoReturn = NoReturn"
| "tree_full_error _ = TsLibraryError (CustomError ''Tree full: cannot add more members'')"

fun apply_adds ::
  "key_package list \<Rightarrow> tree_sync_diff \<Rightarrow> treesync_error + (nat \<times> key_package) list \<times> tree_sync_diff" where
  "apply_adds [] d = Inr ([], d)"
| "apply_adds (kp # kps) d =
     try_bind (map_err tree_full_error (add_leaf (key_package_leaf_node kp) d)) (\<lambda>(leaf_index, d).
     try_bind (apply_adds kps d) (\<lambda>(invitation_list, d).
       Inr ((leaf_index, kp) # invitation_list, d)))"

definition external_init_of :: "proposal \<Rightarrow> bytes option" where
  "external_init_of p = (case p of ExternalInit ko \<Rightarrow> Some ko | _ \<Rightarrow> None)"

definition add_of :: "proposal \<Rightarrow> key_package option" where
  "add_of p = (case p of Add kp \<Rightarrow> Some kp | _ \<Rightarrow> None)"

definition psk_of :: "proposal \<Rightarrow> pre_shared_key_id option" where
  "psk_of p = (case p of PreSharedKey psk_id \<Rightarrow> Some psk_id | _ \<Rightarrow> None)"

definition context_extensions_of :: "proposal \<Rightarrow> extensions option" where
  "context_extensions_of p = (case p of GroupContextExtensions exts \<Rightarrow> Some exts | _ \<Rightarrow> None)"

fun first_some :: "'a option list \<Rightarrow> 'a option" where
  "first_some [] = None"
| "first_some (None # xs) = first_some xs"
| "first_some (Some x # xs) = Some x"

definition apply_proposals ::
  "proposal_queue \<Rightarrow> nat option \<Rightarrow> public_group_diff \<Rightarrow>
   treesync_error + apply_proposals_values \<times> public_group_diff" where
  "apply_proposals q own_leaf_index d =
     (let external_init = (case pq_filtered_by_type ExternalInitType q of
                             [] \<Rightarrow> None | x # _ \<Rightarrow> external_init_of (qp_proposal x)) in
      try_bind (apply_updates (pq_filtered_by_type UpdateType q) (pgd_diff d)) (\<lambda>diff.
      try_bind (apply_removes own_leaf_index (pq_filtered_by_type RemoveType q) False diff) (\<lambda>(self_removed, diff).
      try_bind (apply_adds (List.map_filter (add_of \<circ> qp_proposal) (pq_filtered_by_type AddType q)) diff)
        (\<lambda>(invitation_list, diff).
      let presharedkeys = List.map_filter (psk_of \<circ> qp_proposal) (pq_filtered_by_type PreSharedKeyType q);
          exts = first_some (map (context_extensions_of \<circ> qp_proposal)
                   (pq_filtered_by_type GroupContextExtensionsType q));
          proposals_require_path = list_ex (proposal_is_path_required \<circ> qp_proposal) (pq_queued_proposals q);
          path_required = (proposals_require_path \<or> external_init \<noteq> None \<or> pq_is_empty q) in
        Inr (\<lparr>apv_path_required = path_required, apv_self_removed = self_removed,
              apv_invitation_list = invitation_list, apv_presharedkeys = presharedkeys,
              apv_external_init = external_init, apv_extensions = exts\<rparr>,
             d\<lparr>pgd_diff := diff\<rparr>)))))"

section \<open>Validation of leaf nodes\<close>

definition validate_leaf_node_capabilities ::
  "public_group \<Rightarrow> leaf_node \<Rightarrow> leaf_node_validation_error + unit" where
  "validate_leaf_node_capabilities pg leaf_node =
     try_bind (validate_locally leaf_node) (\<lambda>_.
     let caps = leaf_capabilities (leaf_payload leaf_node);
         ty = cred_type (leaf_credential (leaf_payload leaf_node)) in
     if \<not> contains_ciphersuite caps (ciphersuite_into (pg_ciphersuite pg)) \<or>
        \<not> contains_version caps (pg_version pg)
     then Inl CiphersuiteNotInCapabilities
     else
       try_bind (case extensions_required_capabilities (gc_extensions (pg_group_context pg)) of
                   Some required \<Rightarrow> supports_required_capabilities caps required
                 | None \<Rightarrow> Inr ()) (\<lambda>_.
       if \<not> list_all (\<lambda>node. contains_credential (leaf_capabilities (leaf_payload node)) ty)
            (tsy_full_leaves (pg_treesync pg))
       then Inl UnsupportedCredentials
       else if \<not> list_all (\<lambda>node. contains_credential caps (cred_type (leaf_credential (leaf_payload node))))
                 (tsy_full_leaves (pg_treesync pg))
       then Inl UnsupportedCredentials
       else Inr ()))"

definition validate_leaf_node ::
  "64 word option \<Rightarrow> public_group \<Rightarrow> leaf_node \<Rightarrow> leaf_node_validation_error + unit" where
  "validate_leaf_node now pg leaf_node =
     try_bind (validate_leaf_node_capabilities pg leaf_node) (\<lambda>_.
       case leaf_life_time leaf_node of
         Some life_time \<Rightarrow>
           if \<not> lifetime_is_valid now life_time then Inl (LifetimeNotAcceptable NotCurrent) else Inr ()
       | None \<Rightarrow> Inr ())"

fun all_check_extension_support ::
  "leaf_node list \<Rightarrow> extension_type list \<Rightarrow> leaf_node_validation_error + unit" where
  "all_check_extension_support [] exts = Inr ()"
| "all_check_extension_support (leaf # leaves) exts =
     try_bind (check_extension_support leaf exts) (\<lambda>_. all_check_extension_support leaves exts)"

definition pg_check_extension_support ::
  "public_group \<Rightarrow> extension_type list \<Rightarrow> leaf_node_validation_error + unit" where
  "pg_check_extension_support pg exts = all_check_extension_support (tsy_full_leaves (pg_treesync pg)) exts"

section \<open>Validation of proposals\<close>

datatype proposal_validation_error =
    PvLibraryError library_error
  | PvUnknownMember
  | DuplicateSignatureKey
  | DuplicateEncryptionKey
  | DuplicateInitKey
  | InitEncryptionKeyCollision
  | DuplicateMemberRemoval
  | UnknownMemberRemoval
  | UpdateFromNonMember
  | CommitterIncludedOwnUpdate
  | InsufficientCapabilities
  | InvalidAddProposalCiphersuiteOrVersion
  | PvPsk psk_error
  | UnsupportedProposalType
  | PvLeafNodeValidation leaf_node_validation_error
  | ExternalInitProposalInRegularCommit

datatype gce_validation_error =
    TooManyGCEProposals
  | GceLibraryError library_error
  | ExtensionNotSupportedByAllMembers
  | ChangedImmutableMetadata
  | RequiredExtensionNotSupportedByAllMembers
  | ExtensionNotInRequiredCapabilities

fun is_custom_type :: "proposal_type \<Rightarrow> bool" where
  "is_custom_type (CustomType _) = True"
| "is_custom_type _ = False"

definition validate_proposal_type_support ::
  "public_group \<Rightarrow> proposal_queue \<Rightarrow> proposal_validation_error + unit" where
  "validate_proposal_type_support pg q =
     (case tsy_full_leaves (pg_treesync pg) of
        [] \<Rightarrow> Inr ()
      | first_leaf # leaves \<Rightarrow>
          let supported = (\<lambda>leaf. set (cap_proposals (leaf_capabilities (leaf_payload leaf))));
              capabilities_intersection = foldl (\<lambda>s leaf. s \<inter> supported leaf) (supported first_leaf) leaves in
          if list_ex (\<lambda>x. let ty = proposal_type_of (qp_proposal x) in
               is_custom_type ty \<and> ty \<notin> capabilities_intersection) (pq_queued_proposals q)
          then Inl UnsupportedProposalType else Inr ())"

fun insert_signature_keys :: "bytes list \<Rightarrow> bytes set \<Rightarrow> proposal_validation_error + bytes set" where
  "insert_signature_keys [] s = Inr s"
| "insert_signature_keys (k # ks) s =
     (if k \<in> s then Inl DuplicateSignatureKey else insert_signature_keys ks (insert k s))"

fun insert_encryption_keys ::
  "bytes set \<Rightarrow> bytes list \<Rightarrow> bytes set \<Rightarrow> proposal_validation_error + bytes set" where
  "insert_encryption_keys init_keys [] s = Inr s"
| "insert_encryption_keys init_keys (k # ks) s =
     (if k \<in> init_keys then Inl InitEncryptionKeyCollision
      else if k \<in> s then Inl DuplicateEncryptionKey
      else insert_encryption_keys init_keys ks (insert k s))"

fun insert_init_keys ::
  "bytes set \<Rightarrow> bytes list \<Rightarrow> bytes set \<Rightarrow> proposal_validation_error + bytes set" where
  "insert_init_keys enc_keys [] s = Inr s"
| "insert_init_keys enc_keys (k # ks) s =
     (if k \<in> enc_keys then Inl InitEncryptionKeyCollision
      else if k \<in> s then Inl DuplicateInitKey
      else insert_init_keys enc_keys ks (insert k s))"

definition leaf_enc_key :: "leaf_node \<Rightarrow> bytes" where
  "leaf_enc_key leaf = leaf_encryption_key (leaf_payload leaf)"

text \<open>The encryption keys that a commit brings: of added and updating leaves, and of the path.\<close>

definition new_encryption_keys :: "proposal_queue \<Rightarrow> commit option \<Rightarrow> bytes list" where
  "new_encryption_keys q c =
     map (\<lambda>(kp, _). leaf_enc_key (key_package_leaf_node kp)) (pq_add_proposals q) @
     map (\<lambda>(leaf, _). leaf_enc_key leaf) (pq_update_proposals q) @
     (case Option.bind c commit_path of
        Some path \<Rightarrow> leaf_enc_key (up_leaf_node path) # map upn_public_key (up_nodes path)
      | None \<Rightarrow> [])"

definition validate_key_uniqueness ::
  "public_group \<Rightarrow> proposal_queue \<Rightarrow> commit option \<Rightarrow> proposal_validation_error + unit" where
  "validate_key_uniqueness pg q c =
     (let remove_proposals = fst ` set (pq_remove_proposals q);
          staying = filter (\<lambda>(index, _). index \<notin> remove_proposals) (full_leave_members_opt (pg_treesync pg));
          signature_key_set = (\<lambda>(_, _, k). k) ` set staying;
          encryption_key_set = (\<lambda>(_, k, _). k) ` set staying;
          signature_keys = map (\<lambda>(kp, _). leaf_signature_key (leaf_payload (key_package_leaf_node kp))) (pq_add_proposals q);
          init_keys = map (\<lambda>(kp, _). kpt_init_key (key_package_payload kp)) (pq_add_proposals q) in
      try_bind (insert_signature_keys signature_keys signature_key_set) (\<lambda>_.
      try_bind (insert_encryption_keys {} (new_encryption_keys q c) encryption_key_set) (\<lambda>encryption_key_set.
      try_bind (insert_init_keys encryption_key_set init_keys {}) (\<lambda>_. Inr ()))))"

fun each_result :: "('a \<Rightarrow> 'e + unit) \<Rightarrow> 'a list \<Rightarrow> 'e + unit" where
  "each_result f [] = Inr ()"
| "each_result f (x # xs) = try_bind (f x) (\<lambda>_. each_result f xs)"

definition leaf_of :: "proposal \<Rightarrow> leaf_node option" where
  "leaf_of p = (case p of Add kp \<Rightarrow> Some (key_package_leaf_node kp) | Update leaf \<Rightarrow> Some leaf | _ \<Rightarrow> None)"

definition validate_capabilities :: "public_group \<Rightarrow> proposal_queue \<Rightarrow> proposal_validation_error + unit" where
  "validate_capabilities pg q =
     each_result (\<lambda>leaf. map_err (\<lambda>_. InsufficientCapabilities) (validate_leaf_node_capabilities pg leaf))
       (List.map_filter (leaf_of \<circ> qp_proposal) (pq_queued_proposals q))"

definition validate_add_proposals ::
  "64 word option \<Rightarrow> public_group \<Rightarrow> proposal_queue \<Rightarrow> proposal_validation_error + unit" where
  "validate_add_proposals now pg q =
     each_result (\<lambda>(kp, _).
       if key_package_ciphersuite kp \<noteq> pg_ciphersuite pg \<or>
          kpt_protocol_version (key_package_payload kp) \<noteq> pg_version pg
       then Inl InvalidAddProposalCiphersuiteOrVersion
       else map_err PvLeafNodeValidation (validate_leaf_node now pg (key_package_leaf_node kp)))
       (pq_add_proposals q)"

fun remove_checks ::
  "public_group \<Rightarrow> nat set \<Rightarrow> nat list \<Rightarrow> nat set \<Rightarrow> proposal_validation_error + unit" where
  "remove_checks pg updates_set [] removes_set = Inr ()"
| "remove_checks pg updates_set (removed # rest) removes_set =
     (if \<not> is_leaf_in_tree (pg_treesync pg) removed then Inl UnknownMemberRemoval
      else if removed \<in> removes_set then Inl DuplicateMemberRemoval
      else if removed \<in> updates_set then Inl DuplicateMemberRemoval
      else if tsy_leaf (pg_treesync pg) removed = None then Inl UnknownMemberRemoval
      else remove_checks pg updates_set rest (insert removed removes_set))"

definition validate_remove_proposals :: "public_group \<Rightarrow> proposal_queue \<Rightarrow> proposal_validation_error + unit" where
  "validate_remove_proposals pg q =
     try_bind (collect_results (\<lambda>(_, s). case s of SenderMember index \<Rightarrow> Inr index | _ \<Rightarrow> Inl UpdateFromNonMember)
       (pq_update_proposals q)) (\<lambda>updates.
       remove_checks pg (set updates) (map fst (pq_remove_proposals q)) {})"

definition validate_update_proposals ::
  "64 word option \<Rightarrow> public_group \<Rightarrow> proposal_queue \<Rightarrow> nat \<Rightarrow> proposal_validation_error + unit" where
  "validate_update_proposals now pg q committer =
     each_result (\<lambda>(leaf, s).
       try_bind (case s of
                   SenderMember sender_index \<Rightarrow>
                     if committer = sender_index then Inl CommitterIncludedOwnUpdate else Inr ()
                 | _ \<Rightarrow> Inl UpdateFromNonMember) (\<lambda>_.
         map_err PvLeafNodeValidation (validate_leaf_node now pg leaf)))
       (pq_update_proposals q)"

fun psk_checks ::
  "ciphersuite \<Rightarrow> pre_shared_key_id list \<Rightarrow> pre_shared_key_id set \<Rightarrow> proposal_validation_error + unit" where
  "psk_checks cs [] visited_psk_ids = Inr ()"
| "psk_checks cs (psk_id # psk_ids) visited_psk_ids =
     try_bind (map_err PvPsk (validate_in_proposal cs psk_id)) (\<lambda>psk_id.
       if psk_id \<notin> visited_psk_ids then psk_checks cs psk_ids (insert psk_id visited_psk_ids)
       else Inl (PvPsk (DuplicatePsk psk_id)))"

definition validate_pre_shared_key_proposals ::
  "public_group \<Rightarrow> proposal_queue \<Rightarrow> proposal_validation_error + unit" where
  "validate_pre_shared_key_proposals pg q =
     psk_checks (pg_ciphersuite pg) (map fst (pq_psk_proposals q)) {}"

definition allowed_in_external_commit :: "proposal \<Rightarrow> bool" where
  "allowed_in_external_commit p =
     (case p of ExternalInit _ \<Rightarrow> True | Remove _ \<Rightarrow> True | PreSharedKey _ \<Rightarrow> True | Custom _ _ \<Rightarrow> True | _ \<Rightarrow> False)"

definition validate_external_commit ::
  "public_group \<Rightarrow> proposal_queue \<Rightarrow> external_commit_validation_error + unit" where
  "validate_external_commit pg q =
     (let count_external_init_proposals = length (pq_filtered_by_type ExternalInitType q) in
      if count_external_init_proposals = 0 then Inl NoExternalInitProposals
      else if count_external_init_proposals > 1 then Inl MultipleExternalInitProposals
      else if list_ex (\<lambda>x. qp_type x = TypeProposal \<and> \<not> allowed_in_external_commit (qp_proposal x))
                (pq_queued_proposals q)
      then Inl InvalidInlineProposals
      else Inr ())"

definition validate_context_extensions :: "public_group \<Rightarrow> proposal \<Rightarrow> gce_validation_error + unit" where
  "validate_context_extensions pg p =
     (case p of
        GroupContextExtensions exts \<Rightarrow>
          try_bind
            (case extensions_required_capabilities exts of
               Some required_capabilities_new \<Rightarrow>
                 try_bind (map_err (\<lambda>_. RequiredExtensionNotSupportedByAllMembers)
                   (pg_check_extension_support pg (extension_types required_capabilities_new)))
                   (\<lambda>_. Inr required_capabilities_new)
             | None \<Rightarrow> Inr \<lparr>extension_types = [], proposal_types = [], credential_types = []\<rparr>)
            (\<lambda>required_capabilities.
               if \<not> list_all (\<lambda>ext_type. extension_type_is_default ext_type \<or>
                        ext_type \<in> set (extension_types required_capabilities)) (map extension_type_of exts)
               then Inl ExtensionNotInRequiredCapabilities else Inr ())
      | _ \<Rightarrow> Inl (GceLibraryError (CustomError ''found non-gce proposal when filtered for gce proposals'')))"

fun context_extensions_checks ::
  "public_group \<Rightarrow> nat \<Rightarrow> queued_proposal list \<Rightarrow> gce_validation_error + unit" where
  "context_extensions_checks pg i [] = Inr ()"
| "context_extensions_checks pg i (x # xs) =
     (if i > 0 then Inl TooManyGCEProposals
      else try_bind (validate_context_extensions pg (qp_proposal x)) (\<lambda>_. context_extensions_checks pg (i + 1) xs))"

definition validate_group_context_extensions_proposal ::
  "public_group \<Rightarrow> proposal_queue \<Rightarrow> gce_validation_error + unit" where
  "validate_group_context_extensions_proposal pg q =
     context_extensions_checks pg 0 (pq_filtered_by_type GroupContextExtensionsType q)"

definition validate_no_external_init_proposals ::
  "public_group \<Rightarrow> proposal_queue \<Rightarrow> proposal_validation_error + unit" where
  "validate_no_external_init_proposals pg q =
     each_result (\<lambda>x. if proposal_type_of (qp_proposal x) = ExternalInitType
                     then Inl ExternalInitProposalInRegularCommit else Inr ()) (pq_queued_proposals q)"

end
