(* ===== verification/Tree_Commit.thy ===== *)
theory Tree_Commit
  imports Tree_Agreement
begin

text \<open>
  A commit on the ratchet tree (\<open>process_update_path\<close>, \<open>apply_own_update_path\<close> and
  \<open>apply_received_update_path\<close> of \<open>treesync/diff.rs\<close>): the committer writes its new path into its tree, and
  a receiver that is given the leaf and the encrypted path ends with the same tree, the secret of
  the commit and the keys of the new tree.
\<close>

section \<open>Hashes do not change the nodes\<close>

definition same_keys :: "(nat \<times> parent_node) list \<Rightarrow> (nat \<times> parent_node) list \<Rightarrow> bool" where
  "same_keys path path' \<longleftrightarrow>
     map (\<lambda>(p, pn). (p, pn_encryption_key pn, unmerged_leaves pn)) path' =
     map (\<lambda>(p, pn). (p, pn_encryption_key pn, unmerged_leaves pn)) path"

lemma set_hashes_from_root_same:
  "set_hashes_from_root P d xs previous = Inr (nodes, ph') \<Longrightarrow> same_keys (map fst xs) nodes"
proof (induction xs arbitrary: previous nodes)
  case (Cons x xs)
  obtain index node c where x: "x = ((index, node), c)" by (metis surj_pair)
  obtain nodes' ph where "set_hashes_from_root P d xs ph = Inr (nodes', ph')"
    and "nodes = (index, set_parent_hash previous node) # nodes'"
    using Cons.prems by (auto simp: x Let_def try_bind_eq_Inr)
  then show ?case using Cons.IH by (simp add: x same_keys_def set_parent_hash_def)
qed (simp add: same_keys_def)

lemma update_tree_hashes_same:
  "update_tree_hashes P modified d = Inr (h, d') \<Longrightarrow> \<exists>hs. d' = d\<lparr>tsd_tree_hashes := hs\<rparr>"
  by (auto simp: update_tree_hashes_def Let_def try_bind_eq_Inr)

lemma same_keys_append:
  assumes "same_keys (drop n path) b"
  shows "same_keys path (take n path @ b)"
  unfolding same_keys_def map_append assms [unfolded same_keys_def]
  by (simp only: append_take_drop_id flip: map_append)

lemma set_parent_hashes_same:
  assumes "set_parent_hashes P path i d = Inr (h, path', d')"
  shows "\<exists>hs. d' = d\<lparr>tsd_tree_hashes := hs\<rparr>" and "same_keys path path'"
proof -
  have "(\<exists>hs. d' = d\<lparr>tsd_tree_hashes := hs\<rparr>) \<and> same_keys path path'"
  proof (cases "path = []")
    case True
    then have "d' = d \<and> path' = path" using assms by (simp add: set_parent_hashes_def)
    then have "d' = d\<lparr>tsd_tree_hashes := tsd_tree_hashes d\<rparr> \<and> same_keys path path'" by (simp add: same_keys_def)
    then show ?thesis by blast
  next
    case False
    obtain copath r nodes where up: "update_tree_hashes P (ab_diff_leaves (tsd_diff d)) d = Inr (r, d')"
      and root: "set_hashes_from_root P d' (zip (rev path) (rev copath)) [] = Inr (nodes, h)"
      and path': "path' = take (length path - length nodes) path @ rev nodes"
      using assms False by (auto simp: set_parent_hashes_def try_bind_eq_Inr)
    have zipped: "map fst (zip (rev path) (rev copath)) = take (length copath) (rev path)"
      using map_fst_zip_take [of "rev path" "rev copath"] by (cases "length copath < length path") simp_all
    have same: "same_keys (take (length copath) (rev path)) nodes"
      using set_hashes_from_root_same [OF root] zipped by simp
    then have len: "length nodes = min (length copath) (length path)"
      using map_eq_imp_length_eq [OF same [unfolded same_keys_def]] by simp
    have "same_keys (drop (length path - length nodes) path) (rev nodes)"
      using same len by (simp add: same_keys_def rev_map [symmetric] take_rev) (simp add: min_def split: if_splits)
    then have "same_keys path path'"
      unfolding path' by (rule same_keys_append)
    then show ?thesis using update_tree_hashes_same [OF up] by blast
  qed
  then show "\<exists>hs. d' = d\<lparr>tsd_tree_hashes := hs\<rparr>" and "same_keys path path'" by blast+
qed

lemma lib_eq_Inr: "lib r = Inr x \<longleftrightarrow> r = Inr x"
  by (simp add: lib_def split: sum.splits)

section \<open>Writing a path\<close>

text \<open>\<open>path\<close> replaces all parents above the leaf \<open>i\<close>; where it has no node, the parent is blank.\<close>

definition path_written ::
  "nat \<Rightarrow> leaf_node \<Rightarrow> (nat \<times> parent_node) list \<Rightarrow> tree_sync_diff \<Rightarrow> tree_sync_diff \<Rightarrow> bool" where
  "path_written i leaf path d d' \<longleftrightarrow>
     members d' = (members d)(i \<mapsto> leaf) \<and>
     (\<forall>k m. ab_parent (tsd_diff d') (node_at k m)
        = (if anc i (Suc k) = m then map_of path (node_at k m) else ab_parent (tsd_diff d) (node_at k m)))"

lemma fold_parents_blank:
  "fold (\<lambda>p. ab_parent_mut p (\<lambda>_. None)) ps d = fold (\<lambda>p. ab_replace_parent p None) ps d"
  by (induction ps arbitrary: d) (simp_all add: ab_parent_mut_eq)

lemma fold_parents_fill:
  "fold (\<lambda>(p, node). ab_parent_mut p (\<lambda>_. Some node)) ps d
     = fold (\<lambda>(p, x). ab_replace_parent p x) (map (\<lambda>(p, node). (p, Some node)) ps) d"
  by (induction ps arbitrary: d) (auto simp: ab_parent_mut_eq)

lemma map_of_Some_snd: "map_of (map (\<lambda>(p, node). (p, Some node)) ps) p = map_option Some (map_of ps p)"
  by (induction ps) auto

lemma fold_blank_base:
  "ab_covers (fold (\<lambda>p. ab_replace_parent p x) ps d) = ab_covers d"
  "original_tree (fold (\<lambda>p. ab_replace_parent p x) ps d) = original_tree d"
  by (induction ps arbitrary: d) simp_all

lemma fold_fill_base:
  "ab_covers (fold (\<lambda>(p, y). ab_replace_parent p y) ps d) = ab_covers d"
  "original_tree (fold (\<lambda>(p, y). ab_replace_parent p y) ps d) = original_tree d"
  by (induction ps arbitrary: d) (simp_all add: case_prod_beta)

lemma fill_path_spec:
  fixes d :: ts_ab_diff
  assumes inv: "ab_inv d" "ab_covers d" "ab_size d = full_size h" and i: "i < 2 ^ h"
    and sub: "set (map fst path) \<subseteq> set (map (\<lambda>j. node_at j (anc i (Suc j))) [0..<h])"
    and dist: "distinct (map fst path)"
  defines "d' \<equiv> fold (\<lambda>(p, node). ab_parent_mut p (\<lambda>_. Some node)) path
    (fold (\<lambda>p. ab_parent_mut p (\<lambda>_. None)) (map (\<lambda>j. node_at j (anc i (Suc j))) [0..<h]) d)"
  shows "ab_inv d'" and "ab_covers d'" and "ab_size d' = ab_size d" and "ab_leaf d' = ab_leaf d"
    and "original_tree d' = original_tree d"
    and "ab_parent d' (node_at k m)
      = (if anc i (Suc k) = m then map_of path (node_at k m) else ab_parent d (node_at k m))"
proof -
  let ?direct = "map (\<lambda>j. node_at j (anc i (Suc j))) [0..<h]"
  let ?b = "fold (\<lambda>p. ab_replace_parent p None) ?direct d"
  have blank: "ab_inv ?b" "ab_size ?b = ab_size d" "ab_leaf ?b = ab_leaf d"
    "ab_parent ?b = (\<lambda>p. if p \<in> set ?direct then None else ab_parent d p)"
    using ab.replace_parents_all [OF inv(1), of ?direct None] path_in_tree [OF i] inv(3) by auto
  let ?ps = "map (\<lambda>(p, node). (p, Some node)) path"
  have fst_ps: "map fst ?ps = map fst path" by auto
  have "\<forall>(p, x) \<in> set ?ps. p < parent_count (ab_size ?b)"
    using sub path_in_tree [OF i] inv(3) blank(2) by fastforce
  moreover have "distinct (map fst ?ps)" using dist by (simp only: fst_ps)
  ultimately have fill: "ab_inv d'" "ab_size d' = ab_size d" "ab_leaf d' = ab_leaf d"
    "ab_parent d' = (\<lambda>p. case map_of ?ps p of Some x \<Rightarrow> x | None \<Rightarrow> ab_parent ?b p)"
    using ab.write_parents_all [OF blank(1), of ?ps] blank(2,3)
    by (simp_all add: d'_def fold_parents_blank fold_parents_fill)
  then show "ab_inv d'" "ab_size d' = ab_size d" "ab_leaf d' = ab_leaf d" by blast+
  show "ab_covers d'" "original_tree d' = original_tree d"
    using inv(2) by (simp_all only: d'_def fold_parents_blank fold_parents_fill fold_blank_base fold_fill_base)
  have "map_of path (node_at k m) = None" if "anc i (Suc k) \<noteq> m \<or> h \<le> k"
    using that sub in_path_iff [of k m i h] by (auto simp: map_of_eq_None_iff)
  then show "ab_parent d' (node_at k m)
      = (if anc i (Suc k) = m then map_of path (node_at k m) else ab_parent d (node_at k m))"
    using in_path_iff [of k m i h] ab_parent_above [OF inv, of k m]
    by (cases "k < h"; cases "anc i (Suc k) = m")
      (auto simp: fill(4) blank(4) map_of_Some_snd split: option.splits)
qed

text \<open>The nodes of a committer's path: one for each live height, with nothing unmerged.\<close>

definition fresh_path :: "tree_sync_diff \<Rightarrow> nat \<Rightarrow> nat \<Rightarrow> (nat \<times> parent_node) list \<Rightarrow> bool" where
  "fresh_path d h i path \<longleftrightarrow>
     map fst path = map (\<lambda>k. node_at k (anc i (Suc k))) (live_heights d i 0 h) \<and>
     (\<forall>x \<in> set path. unmerged_leaves (snd x) = [])"

lemma fresh_path_same:
  assumes "fresh_path d h i path" and "same_keys path path'"
  shows "fresh_path d h i path'"
proof -
  let ?f = "\<lambda>(p, pn). (p, pn_encryption_key pn, unmerged_leaves pn)"
  have eq: "map ?f path' = map ?f path" using assms(2) by (simp add: same_keys_def)
  have "map fst path' = map fst path"
    using arg_cong [OF eq, of "map fst"] by (simp add: comp_def case_prod_beta)
  moreover have "map (unmerged_leaves \<circ> snd) path' = map (unmerged_leaves \<circ> snd) path"
    using arg_cong [OF eq, of "map (snd \<circ> snd)"] by (simp add: comp_def case_prod_beta)
  then have "set (map (unmerged_leaves \<circ> snd) path') = set (map (unmerged_leaves \<circ> snd) path)" by simp
  then have "\<forall>x \<in> set path'. unmerged_leaves (snd x) = []"
    using assms(1) unfolding fresh_path_def by auto
  ultimately show ?thesis using assms(1) by (simp add: fresh_path_def)
qed

lemma fresh_path_lookup:
  assumes "fresh_path d h i path" and "map_of path (node_at k (anc i (Suc k))) = Some pn"
  shows "k < h" and "has_member d k (sib (anc i k))" and "unmerged_leaves pn = []"
proof -
  have mem: "(node_at k (anc i (Suc k)), pn) \<in> set path" using assms(2) by (rule map_of_SomeD)
  have unmerged: "unmerged_leaves pn = []" using mem assms(1) by (fastforce simp: fresh_path_def)
  have "node_at k (anc i (Suc k)) \<in> set (map fst path)" using mem by (force simp del: map_of_eq_Some_iff)
  then have "node_at k (anc i (Suc k)) \<in> set (map (\<lambda>k. node_at k (anc i (Suc k))) (live_heights d i 0 h))"
    using assms(1) unfolding fresh_path_def by (simp only:)
  then have "k \<in> set (live_heights d i 0 h)" by auto
  then show "k < h" "has_member d k (sib (anc i k))" by (simp_all add: live_heights_def)
  show "unmerged_leaves pn = []" by (rule unmerged)
qed

lemma fresh_path_sub:
  assumes "fresh_path d h i path"
  shows "set (map fst path) \<subseteq> set (map (\<lambda>j. node_at j (anc i (Suc j))) [0..<h])"
    and "distinct (map fst path)"
  using assms by (auto simp: fresh_path_def live_heights_def distinct_map inj_on_def)

lemma children_of_anc: "{anc i k, sib (anc i k)} = {2 * anc i (Suc k), 2 * anc i (Suc k) + 1}"
proof -
  have "anc i (Suc k) = anc i k div 2" by (simp only: anc_div_2)
  then show ?thesis by (cases "even (anc i k)") (auto simp: sib_def simp del: anc_div_2 elim!: evenE oddE)
qed

lemma path_written_parents_inv:
  assumes inv: "parents_inv d" and i: "i \<in> dom (members d)" and fresh: "fresh_path d h i path"
    and written: "path_written i leaf path d d'"
  shows "parents_inv d'"
  unfolding parents_inv_def
proof (intro allI impI)
  fix k m pn
  assume pn: "ab_parent (tsd_diff d') (node_at k m) = Some pn"
  have dom: "dom (members d') = dom (members d)" using written i by (auto simp: path_written_def)
  show "(\<exists>i\<in>dom (members d'). anc i k = 2 * m) \<and> (\<exists>i\<in>dom (members d'). anc i k = 2 * m + 1) \<and>
    sorted_wrt (<) (unmerged_leaves pn) \<and>
    (\<forall>i\<in>set (unmerged_leaves pn). anc i (Suc k) = m \<and> i \<in> dom (members d'))"
  proof (cases "anc i (Suc k) = m")
    case True
    then have "map_of path (node_at k (anc i (Suc k))) = Some pn"
      using pn written by (simp add: path_written_def)
    note at = fresh_path_lookup [OF fresh this]
    obtain j where "j \<in> dom (members d)" "anc j k = sib (anc i k)" using at(2) by (auto simp: has_member_def)
    then have "\<forall>c \<in> {anc i k, sib (anc i k)}. \<exists>i\<in>dom (members d). anc i k = c" using i by auto
    then show ?thesis unfolding children_of_anc dom using at(3) True by simp
  next
    case False
    then have "ab_parent (tsd_diff d) (node_at k m) = Some pn" using pn written by (simp add: path_written_def)
    then show ?thesis using inv unfolding parents_inv_def dom by blast
  qed
qed

lemma path_written_tree_ok:
  assumes ok: "tree_ok d h" and i: "i \<in> dom (members d)" and fresh: "fresh_path d h i path"
    and written: "path_written i leaf path d d'"
    and diff: "ab_inv (tsd_diff d')" "ab_covers (tsd_diff d')" "ab_size (tsd_diff d') = ab_size (tsd_diff d)"
    and counters: "num_members d' = num_members d" "blanked_leaves d' = blanked_leaves d"
  shows "tree_ok d' h"
proof -
  note okD = tree_okD [OF ok]
  have dom: "dom (members d') = dom (members d)" using written i by (auto simp: path_written_def)
  have "high_water d' = high_water d" "tsd_leaf_count d' = tsd_leaf_count d"
    using counters diff(3) by (simp_all add: high_water_def tsd_leaf_count_def ab_leaf_count_def)
  then have "members_inv d'" using okD(1) diff counters unfolding members_inv_def dom by simp
  moreover have "parents_inv d'" by (rule path_written_parents_inv [OF okD(2) i fresh written])
  ultimately show ?thesis using okD(3,4) diff(3) by (simp add: tree_ok_def)
qed

section \<open>The committer and the receiver\<close>

lemma derived_path_fresh:
  assumes ok: "tree_ok d h" and i: "i < 2 ^ h" and indices: "filtered_direct_path d i = Inr indices"
    and derived: "derive_path K s indices = Inr (path, plain, keypairs, commit_secret)"
  shows "fresh_path d h i path"
  using derive_path_indices(1,6) [OF derived] indices filtered_direct_path_eq [OF ok i]
  by (auto simp: fresh_path_def)

lemma process_update_path_spec:
  assumes ok: "tree_ok d h" and i: "i < 2 ^ h" and fresh: "fresh_path d h i path"
    and process: "process_update_path P i path d = Inr (parent_hash, d')"
  obtains path' where "same_keys path path'"
    and "ab_inv (tsd_diff d')" and "ab_covers (tsd_diff d')" and "ab_size (tsd_diff d') = ab_size (tsd_diff d)"
    and "ab_leaf (tsd_diff d') = ab_leaf (tsd_diff d)"
    and "original_tree (tsd_diff d') = original_tree (tsd_diff d)"
    and "\<And>k m. ab_parent (tsd_diff d') (node_at k m)
      = (if anc i (Suc k) = m then map_of path' (node_at k m) else ab_parent (tsd_diff d) (node_at k m))"
    and "num_members d' = num_members d" and "blanked_leaves d' = blanked_leaves d"
proof -
  note okD = tree_okD [OF ok]
  note inv = members_inv_simps(1,2) [OF okD(1)] okD(4)
  obtain path' da direct where hashes: "set_parent_hashes P path i d = Inr (parent_hash, path', da)"
    and direct: "ab_direct_path (tsd_diff da) i = Some direct"
    and d': "d' = da\<lparr>tsd_diff := fold (\<lambda>(p, node). ab_parent_mut p (\<lambda>_. Some node)) path'
      (fold (\<lambda>p. ab_parent_mut p (\<lambda>_. None)) direct (tsd_diff da))\<rparr>"
    using process by (auto simp: process_update_path_def try_bind_eq_Inr looped_def Let_def split: option.splits)
  obtain hs where da: "da = d\<lparr>tsd_tree_hashes := hs\<rparr>" using set_parent_hashes_same(1) [OF hashes] by blast
  have same: "same_keys path path'" by (rule set_parent_hashes_same(2) [OF hashes])
  have "direct = map (\<lambda>j. node_at j (anc i (Suc j))) [0..<h]"
    using direct okD i by (simp add: da ab_direct_path_def direct_path_full)
  note fill = fill_path_spec [OF inv i fresh_path_sub [OF fresh_path_same [OF fresh same]], folded this]
  show ?thesis
    by (rule that [OF same]) (use fill in \<open>simp_all add: d' da\<close>)
qed

lemma update_path_leaf:
  assumes "leaf_new_with_parent_hash C signer random_pair parent_hash params group_id i = Inr (leaf, keypair)"
  shows "leaf_parent_hash leaf = Some parent_hash" and "leaf_encryption_key (leaf_payload leaf) = kp_public_key keypair"
  using assms
  by (auto simp: leaf_new_with_parent_hash_def try_bind_eq_Inr leaf_tbs_sign_def leaf_tbs_new_def
      leaf_parent_hash_def split: sum.splits option.splits)

lemma apply_own_update_path_spec:
  assumes ok: "tree_ok d h" and i: "i \<in> dom (members d)" and fresh: "fresh_path d h i path"
    and own: "apply_own_update_path P C signer random_pair group_id i params path d = Inr (keypairs, d')"
  obtains leaf keypair path' where "keypairs = [keypair]" and "leaf_encryption_key (leaf_payload leaf) = kp_public_key keypair"
    and "same_keys path path'" and "path_written i leaf path' d d'" and "tree_ok d' h"
    and "original_tree (tsd_diff d') = original_tree (tsd_diff d)"
proof -
  have i': "i < 2 ^ h" using ok i by (rule tree_ok_member)
  obtain parent_hash da leaf keypair r db where process: "process_update_path P i path d = Inr (parent_hash, da)"
    and leaf: "leaf_new_with_parent_hash C signer random_pair parent_hash params group_id i = Inr (leaf, keypair)"
    and up: "update_tree_hashes P [(i, Some leaf)] da = Inr (r, db)" and kps: "keypairs = [keypair]"
    and d': "d' = db\<lparr>tsd_diff := ab_replace_leaf i (Some leaf) (tsd_diff db)\<rparr>"
    using own by (auto simp: apply_own_update_path_def try_bind_eq_Inr lib_eq_Inr)
  obtain hs where db: "db = da\<lparr>tsd_tree_hashes := hs\<rparr>" using update_tree_hashes_same [OF up] by blast
  obtain path' where same: "same_keys path path'"
    and da: "ab_inv (tsd_diff da)" "ab_covers (tsd_diff da)" "ab_size (tsd_diff da) = ab_size (tsd_diff d)"
      "ab_leaf (tsd_diff da) = ab_leaf (tsd_diff d)"
      "original_tree (tsd_diff da) = original_tree (tsd_diff d)"
      "\<And>k m. ab_parent (tsd_diff da) (node_at k m)
        = (if anc i (Suc k) = m then map_of path' (node_at k m) else ab_parent (tsd_diff d) (node_at k m))"
      "num_members da = num_members d" "blanked_leaves da = blanked_leaves d"
    by (rule process_update_path_spec [OF ok i' fresh process]) blast
  have lt: "i < leaf_count (ab_size (tsd_diff da))" using i' tree_okD(4) [OF ok] da(3) by simp
  have written: "path_written i leaf path' d d'"
    using ab.leaf_leaf [OF da(1), of i "Some leaf"] ab.parent_leaf [of i "Some leaf" "tsd_diff da"] da(4,6)
    by (simp add: path_written_def d' db members_def)
  have "tree_ok d' h"
    by (rule path_written_tree_ok [OF ok i fresh_path_same [OF fresh same] written])
      (use da ab.invar_leaf [OF da(1) lt] in \<open>simp_all add: d' db ab.size_leaf\<close>)
  then show ?thesis
    using that [OF kps update_path_leaf(2) [OF leaf] same written] da(5) by (simp add: d' db)
qed

text \<open>A receiver that has the same tree applies the path to the same effect.\<close>

lemma derived_path_nodes:
  assumes "derive_path K s indices = Inr (path, plain, keypairs, commit_secret)"
  shows "path = zip indices (map (parent_node_from_key \<circ> kp_public_key) keypairs)"
proof -
  obtain ps ns where d: "derive_secrets K (length indices) s = Inr (ps, commit_secret)"
    "derive_nodes K (zip ps indices) = Inr ns" "path = map (fst \<circ> fst) ns" "keypairs = map (snd \<circ> fst) ns"
    using assms by (auto simp: derive_path_def try_bind_eq_Inr)
  have "map (snd \<circ> fst \<circ> fst) ns = map (parent_node_from_key \<circ> kp_public_key \<circ> snd \<circ> fst) ns"
    if "derive_nodes K xs = Inr ns" for xs ns
    using that by (induction xs arbitrary: ns) (fastforce simp: try_bind_eq_Inr)+
  then have snd: "map snd path = map (parent_node_from_key \<circ> kp_public_key) keypairs"
    using d(2) by (simp only: d(3,4) map_map comp_assoc)
  show ?thesis
    using derive_path_indices(1) [OF assms] zip_map_fst_snd [of path] by (simp only: flip: snd)
qed

lemma receiver_applies_path:
  assumes ok: "tree_ok d h" and i: "i \<in> dom (members d)"
    and indices: "filtered_direct_path d i = Inr indices"
    and derived: "derive_path K s indices = Inr (path, plain, keypairs, commit_secret)"
    and own: "apply_own_update_path P C signer random_pair group_id i params path d = Inr (leaf_keypairs, d')"
    and leaf: "members d' i = Some leaf" and keys: "map upn_public_key nodes = map plain_public_key plain"
  shows "apply_received_update_path P i \<lparr>up_leaf_node = leaf, up_nodes = nodes\<rparr> d = Inr d'"
proof -
  have i': "i < 2 ^ h" using ok i by (rule tree_ok_member)
  note okD = tree_okD [OF ok]
  have fresh: "fresh_path d h i path" by (rule derived_path_fresh [OF ok i' indices derived])
  obtain parent_hash da leaf' keypair r db where process: "process_update_path P i path d = Inr (parent_hash, da)"
    and new: "leaf_new_with_parent_hash C signer random_pair parent_hash params group_id i = Inr (leaf', keypair)"
    and up: "update_tree_hashes P [(i, Some leaf')] da = Inr (r, db)"
    and d': "d' = db\<lparr>tsd_diff := ab_replace_leaf i (Some leaf') (tsd_diff db)\<rparr>"
    using own by (auto simp: apply_own_update_path_def try_bind_eq_Inr lib_eq_Inr)
  obtain hs where db: "db = da\<lparr>tsd_tree_hashes := hs\<rparr>" using update_tree_hashes_same [OF up] by blast
  obtain path' where "ab_inv (tsd_diff da)"
    by (rule process_update_path_spec [OF ok i' fresh process])
  then have "leaf' = leaf"
    using leaf ab.leaf_leaf [of "tsd_diff da" i "Some leaf'"] by (simp add: d' db members_def)
  have plain: "map upn_public_key nodes = map kp_public_key keypairs"
    using keys derive_path_indices(5) [OF derived] by simp
  have "length nodes = length indices"
    using map_eq_imp_length_eq [OF plain] derive_path_indices(3) [OF derived] by simp
  moreover have "zip indices (map (parent_node_from_key \<circ> upn_public_key) nodes) = path"
    using derived_path_nodes [OF derived] plain by (metis map_map)
  moreover have "ensure_sender_leaf i leaf d = Inr d"
    using i i' okD(5) by (auto simp: ensure_sender_leaf_def members_def)
  ultimately show ?thesis
    using process up update_path_leaf(1) [OF new] indices \<open>leaf' = leaf\<close>
    by (simp add: apply_received_update_path_def d')
qed

section \<open>The copath keeps its resolutions\<close>

lemma unmerged_resolution_cong:
  "(\<And>i. i \<in> set is \<Longrightarrow> members d' i = members d i) \<Longrightarrow>
    unmerged_resolution d' E is = unmerged_resolution d E is"
  by (induction "is") (simp_all add: members_def split: option.splits)

lemma ref_resolution_cong:
  assumes inv: "parents_inv d"
    and leaves: "\<And>i. anc i k = m \<Longrightarrow> members d' i = members d i"
    and parents: "\<And>l i. l < k \<Longrightarrow> anc i k = m \<Longrightarrow>
      ab_parent (tsd_diff d') (node_at l (anc i (Suc l))) = ab_parent (tsd_diff d) (node_at l (anc i (Suc l)))"
  shows "ref_resolution d' E k m = ref_resolution d E k m"
  using leaves parents
proof (induction k arbitrary: m)
  case 0
  then show ?case by (simp add: leaf_resolution_def members_def)
next
  case (Suc k)
  have m: "anc (m * 2 ^ Suc k) (Suc k) = m" by (simp add: anc_def)
  have at: "ab_parent (tsd_diff d') (node_at k m) = ab_parent (tsd_diff d) (node_at k m)"
    using Suc.prems(2) [of k "m * 2 ^ Suc k"] m by simp
  have up: "anc i (Suc k) = m" if "anc i k = 2 * m \<or> anc i k = 2 * m + 1" for i
    using that by (auto simp del: anc_div_2 simp flip: anc_div_2)
  have sub: "ref_resolution d' E k c = ref_resolution d E k c" if "c = 2 * m \<or> c = 2 * m + 1" for c
  proof (rule Suc.IH)
    fix i assume "anc i k = c"
    then have i: "anc i (Suc k) = m" using up that by simp
    show "members d' i = members d i" by (rule Suc.prems(1) [OF i])
    show "ab_parent (tsd_diff d') (node_at l (anc i (Suc l))) = ab_parent (tsd_diff d) (node_at l (anc i (Suc l)))"
      if "l < k" for l using that by (intro Suc.prems(2) [OF _ i]) simp
  qed
  show ?case
  proof (cases "ab_parent (tsd_diff d) (node_at k m)")
    case None
    then show ?thesis using sub at by simp
  next
    case (Some pn)
    have "members d' i = members d i" if "i \<in> set (unmerged_leaves pn)" for i
      using that inv Some Suc.prems(1) unfolding parents_inv_def by blast
    then show ?thesis using Some at unmerged_resolution_cong [of "unmerged_leaves pn" d' d E] by simp
  qed
qed

lemma path_written_copath:
  assumes inv: "parents_inv d" and written: "path_written i leaf path d d'"
  shows "ref_resolution d' E k (sib (anc i k)) = ref_resolution d E k (sib (anc i k))"
proof (rule ref_resolution_cong [OF inv])
  fix j
  assume j: "anc j k = sib (anc i k)"
  have "anc j k \<noteq> anc i k" using j by (auto simp: sib_def elim!: oddE split: if_splits)
  then have apart: "anc j l \<noteq> anc i l" if "l \<le> k" for l using anc_eq_mono that by blast
  show "members d' j = members d j"
    using apart [of 0] written by (auto simp: path_written_def)
  show "ab_parent (tsd_diff d') (node_at l (anc j (Suc l))) = ab_parent (tsd_diff d) (node_at l (anc j (Suc l)))"
    if "l < k" for l
    using apart [of "Suc l"] that written by (auto simp: path_written_def)
qed

lemma path_written_live:
  "i \<in> dom (members d) \<Longrightarrow> path_written i leaf path d d' \<Longrightarrow> live_heights d' j lo hi = live_heights d j lo hi"
  unfolding live_heights_def has_member_def path_written_def by (intro filter_cong) auto

section \<open>Members after the path\<close>

lemma encrypted_path_keys:
  assumes "encrypt_path X plain ctx keys = Inr nodes" and "length keys = length plain"
  shows "map upn_public_key nodes = map plain_public_key plain"
proof (cases "plain = []")
  case True
  then show ?thesis using assms by (simp add: encrypt_path_def)
next
  case False
  then have len: "length nodes = length plain" using encrypt_path_nth(1) [OF assms, of 0] by simp
  show ?thesis
  proof (rule nth_equalityI)
    fix q assume "q < length (map upn_public_key nodes)"
    then show "map upn_public_key nodes ! q = map plain_public_key plain ! q"
      using len encrypt_path_nth(2) [OF assms, of q] by simp
  qed (simp add: len)
qed

lemma path_written_decryption_key:
  assumes ok: "tree_ok d h" "tree_ok d' h" and i: "i < 2 ^ h" and j: "j < 2 ^ h" and "i \<noteq> j"
    and written: "path_written i leaf path d d'"
  shows "decryption_key d' i E keys j = decryption_key d i E keys j"
proof -
  have k: "lca_height i j - 1 < h" using lca_height_le [OF i j] lca_height_pos [OF \<open>i \<noteq> j\<close>] by simp
  show ?thesis
    using subtree_root_copath_node_eq [OF ok(1) i j \<open>i \<noteq> j\<close>] subtree_root_copath_node_eq [OF ok(2) i j \<open>i \<noteq> j\<close>]
      copath_node_resolution [OF ok(1) i k] copath_node_resolution [OF ok(2) i k]
      path_written_copath [OF tree_okD(2) [OF ok(1)] written]
    by (simp add: decryption_key_def)
qed

text \<open>The key pairs of the path, found by the node they belong to.\<close>

lemma same_keys_lookup:
  assumes same: "same_keys path path'" and keys: "map (pn_encryption_key \<circ> snd) path = map kp_public_key keypairs"
    and n: "map_of path' n = Some pn"
  obtains q where "q < length keypairs" and "map fst path ! q = n" and "pn_encryption_key pn = kp_public_key (keypairs ! q)"
proof -
  let ?f = "\<lambda>(p, pn). (p, pn_encryption_key pn, unmerged_leaves pn)"
  obtain q where q: "q < length path'" "path' ! q = (n, pn)"
    using map_of_SomeD [OF n] by (auto simp: in_set_conv_nth)
  have len: "length path' = length path" "length keypairs = length path"
    using map_eq_imp_length_eq [OF same [unfolded same_keys_def]] map_eq_imp_length_eq [OF keys] by simp_all
  have "?f (path' ! q) = ?f (path ! q)"
    using arg_cong [OF same [unfolded same_keys_def], of "\<lambda>xs. xs ! q"] q(1) len(1) by simp
  moreover have "pn_encryption_key (snd (path ! q)) = kp_public_key (keypairs ! q)"
    using arg_cong [OF keys, of "\<lambda>xs. xs ! q"] q(1) len by simp
  ultimately show ?thesis using that [of q] q len by (simp add: case_prod_beta)
qed

lemma live_position:
  assumes "q < length (live_heights d i 0 h)" and "k \<le> live_heights d i 0 h ! q" and "k \<le> h"
  shows "length (live_heights d i 0 k) \<le> q"
proof (rule ccontr)
  assume "\<not> ?thesis"
  then have "live_heights d i 0 h ! q = live_heights d i 0 k ! q" "q < length (live_heights d i 0 k)"
    using live_heights_split [of 0 k h d i] assms(3) by (simp_all add: nth_append)
  then have "live_heights d i 0 h ! q < k" by (metis live_heights_set nth_mem)
  then show False using assms(2) by simp
qed

lemma path_written_holds:
  assumes ok: "tree_ok d h" and i: "i \<in> dom (members d)" and j: "j \<in> dom (members d)" and "i \<noteq> j"
    and holds: "holds_keys d j keys"
    and fresh: "fresh_path d h i path" and same: "same_keys path path'"
    and kps: "map (pn_encryption_key \<circ> snd) path = map kp_public_key keypairs"
    and written: "path_written i leaf path' d d'"
  shows "holds_keys d' j (keys @ drop (length (live_heights d i 0 (lca_height i j - 1))) keypairs)"
  unfolding holds_keys_def
proof (intro conjI allI impI)
  let ?p = "length (live_heights d i 0 (lca_height i j - 1))"
  show "leaf_encryption_key (leaf_payload l) \<in> kp_public_key ` set (keys @ drop ?p keypairs)"
    if "members d' j = Some l" for l
    using that written holds \<open>i \<noteq> j\<close> by (auto simp: path_written_def holds_keys_def)
  fix k pn
  assume pn: "ab_parent (tsd_diff d') (node_at k (anc j (Suc k))) = Some pn" and um: "j \<notin> set (unmerged_leaves pn)"
  show "pn_encryption_key pn \<in> kp_public_key ` set (keys @ drop ?p keypairs)"
  proof (cases "anc i (Suc k) = anc j (Suc k)")
    case False
    then have "ab_parent (tsd_diff d) (node_at k (anc j (Suc k))) = Some pn"
      using pn written by (simp add: path_written_def)
    then have "pn_encryption_key pn \<in> kp_public_key ` set keys" using um holds unfolding holds_keys_def by blast
    then show ?thesis by auto
  next
    case True
    then have "map_of path' (node_at k (anc i (Suc k))) = Some pn" using pn written by (simp add: path_written_def)
    then obtain q where q: "q < length keypairs" "map fst path ! q = node_at k (anc i (Suc k))"
      "pn_encryption_key pn = kp_public_key (keypairs ! q)"
      by (rule same_keys_lookup [OF same kps])
    have idx: "map fst path = map (\<lambda>k. node_at k (anc i (Suc k))) (live_heights d i 0 h)"
      using fresh by (simp add: fresh_path_def)
    have len: "length keypairs = length (live_heights d i 0 h)"
      using map_eq_imp_length_eq [OF kps] map_eq_imp_length_eq [OF idx] by simp
    then have k: "live_heights d i 0 h ! q = k" using q(1,2) idx by simp
    have "lca_height i j - 1 \<le> k" using True by (simp only: anc_eq_iff)
    moreover have "k < h" using live_heights_set k q(1) len by (metis nth_mem)
    ultimately have "?p \<le> q" using live_position [of q d i h "lca_height i j - 1"] q(1) len k by simp
    then have "keypairs ! q \<in> set (drop ?p keypairs)"
      using q(1) by (auto simp: in_set_conv_nth intro!: exI [of _ "q - ?p"])
    then show ?thesis using q(3) by auto
  qed
qed

lemma path_written_committer_holds:
  assumes same: "same_keys path path'" and kps: "map (pn_encryption_key \<circ> snd) path = map kp_public_key keypairs"
    and leaf: "leaf_encryption_key (leaf_payload leaf) = kp_public_key keypair"
    and written: "path_written i leaf path' d d'"
  shows "holds_keys d' i (keypair # keypairs)"
  unfolding holds_keys_def
proof (intro conjI allI impI)
  show "leaf_encryption_key (leaf_payload l) \<in> kp_public_key ` set (keypair # keypairs)"
    if "members d' i = Some l" for l using that written leaf by (auto simp: path_written_def)
  fix k pn
  assume "ab_parent (tsd_diff d') (node_at k (anc i (Suc k))) = Some pn"
  then have "map_of path' (node_at k (anc i (Suc k))) = Some pn" using written by (simp add: path_written_def)
  then obtain q where "q < length keypairs" "pn_encryption_key pn = kp_public_key (keypairs ! q)"
    by (rule same_keys_lookup [OF same kps])
  then show "pn_encryption_key pn \<in> kp_public_key ` set (keypair # keypairs)" by auto
qed

end
