(* ===== verification/Spec2Isabelle.thy ===== *)
theory Spec2Isabelle
  imports Sample_Messages Public_Group Tree_Commit
begin

text \<open>
  A model of the group key agreement of the MLS client of this repository and its correctness.

  The client (\<open>src/emulated_client\<close>) is a fork of OpenMLS with a testbed around it. A group is a
  ratchet tree: the members are its leaves, and the parents hold keys that the members below them
  share. A member that commits derives new secrets for the path from its leaf to the root and
  encrypts each of them to the resolution of the sibling on the copath; the other members decrypt
  one of them and derive the rest. The secret at the end of the path enters the key schedule of
  the next epoch, whose encryption secret is the root of a secret tree with one pair of ratchets
  per leaf, from which the keys of the messages are drawn.

  The theories, bottom up:

  \<^item> \<open>Mls_Prelude\<close>: 32-bit and machine-size arithmetic, results as sums, vectors.
  \<^item> \<open>Ciphersuites\<close>: the ciphersuite tables (\<open>traits/src/types.rs\<close>) and secrets, MACs, AEAD keys
    and nonces (\<open>ciphersuite\<close>).
  \<^item> \<open>Tree_Math\<close>: the arithmetic of tree indices (\<open>treemath.rs\<close>). Nodes are described by their
    height and position (\<open>node_at\<close>), in which parents, children, paths and common ancestors have
    closed forms.
  \<^item> \<open>Ordered_Map\<close>, \<open>Sorted_Iter\<close>, \<open>Binary_Tree\<close>: the array-based tree, its diff and the
    iterators that merge the two. The locales \<open>ordered_map\<close>, \<open>merge_iter\<close> and \<open>tree_diff\<close> state
    what the layers above rely on.
  \<^item> \<open>Leaf_Node\<close>, \<open>Ratchet_Nodes\<close>: the content of the nodes, signatures and validation of leaf
    nodes, and the derivation of paths.
  \<^item> \<open>Tree_Sync_Diff\<close>: the operations on the ratchet tree (\<open>treesync/diff.rs\<close>);
    \<open>Tree_Members\<close> has the invariant of members and blank leaves and the effect of adding,
    updating and removing; \<open>Tree_Resolution\<close> has resolutions and filtered paths.
  \<^item> \<open>Tree_Kem\<close>: encryption and decryption of update paths; \<open>Tree_Agreement\<close> has runs of membership
    changes as a step relation and the agreement on the commit secret.
  \<^item> \<open>Sender_Ratchet\<close>, \<open>Secret_Tree\<close>: the ratchets and the tree they start from. The locale
    \<open>one_time_keys\<close> states that a source of keys hands out each key at most once; the receiving
    ratchet and the secret tree are its instances.
  \<^item> \<open>Group_Context\<close>, \<open>Key_Schedule\<close>, \<open>Pre_Shared_Keys\<close>, \<open>Past_Secrets\<close>: the context of a group, the
    secrets of its epochs and the state machine that derives them (\<open>schedule\<close>), pre-shared keys, and
    the store of the secrets of past epochs (\<open>group/mls_group/past_secrets.rs\<close>).
  \<^item> \<open>Key_Packages\<close>, \<open>Proposals\<close>, \<open>Proposal_Queue\<close>: key packages, proposals and commits with their
    validation (\<open>key_packages\<close>, \<open>messages\<close>), the filter a committer applies to the proposals it holds
    and the queue a receiver builds (\<open>group/mls_group/proposal_store.rs\<close>).
  \<^item> \<open>Framing\<close>, \<open>Private_Messages\<close>: signed content, membership tags, transcript hashes, verification
    of messages, and their encryption and decryption (\<open>framing\<close>).
  \<^item> \<open>Sample_Group\<close>, \<open>Sample_Messages\<close>: concrete providers, codecs, groups and messages, used by the
    witnesses.

  State is passed explicitly. Fallible code returns a sum whose left side is the error; code that
  changes state before it fails returns the state beside the result. Loops and recursions that
  are not structural are partial functions whose value \<open>None\<close> means that they do not return; the
  theorems show that they do. No fuel is used. Unsigned 32-bit integers are natural numbers with
  the wrap-around written out, or words where the code depends on it (generations, times, code
  points). Assertions of debug builds are not compiled in.

  Code outside the repository is an argument: the primitives of the crypto provider, HPKE, the
  derived TLS codecs, the signer, the clock and the source of randomness. What the theorems rely
  on of them is a hypothesis: HKDF gives as many bytes as it is asked for, decryption inverts
  encryption under the matching key, and verification accepts what the signer signed.

  Not modelled: the network and user interface of the testbed, the delivery service, storage
  providers, and the cryptographic strength of the primitives.
\<close>

section \<open>Agreement on the secret of a commit\<close>



section \<open>Message keys\<close>

text \<open>
  C2: a receiving ratchet behaves as a window of keys. On every generation asked for, the code's
  result and the window after it are those of the specification \<^const>\<open>window_decrypt\<close>: too far
  ahead, too far behind, already used, the last generation, and the key of the chain otherwise,
  with the keys that were skipped kept within the tolerance; and the ratchet stays well formed.
\<close>

theorem ratchet_refines_window:
  assumes "kdf_ok P cs" and "ratchet_inv P cs cfg s r"
    and "ratchet_secret_for_decryption P cs cfg gen r = (res, r')"
  shows "window_decrypt (chain_key P cs s) (unat (out_of_order_tolerance cfg))
      (unat (maximum_forward_distance cfg)) (unat gen) (window_of r) = (res, window_of r') \<and>
    ratchet_inv P cs cfg s r'"
  using decrypt_refines [OF assms(1,2), of gen] assms(3) by simp

theorem ratchet_refines_window_witness:
  "window_decrypt (chain_key sample_provider sample_suite [1]) 5 1000 3
      (window_of (decryption_ratchet_new [1]))
    = map_prod id window_of (ratchet_secret_for_decryption sample_provider
        sample_suite sender_ratchet_configuration_default 3
        (decryption_ratchet_new [1]))"
proof -
  obtain res r' where call: "ratchet_secret_for_decryption sample_provider sample_suite
      sender_ratchet_configuration_default 3 (decryption_ratchet_new [1]) = (res, r')"
    by (cases "ratchet_secret_for_decryption sample_provider sample_suite sender_ratchet_configuration_default 3
      (decryption_ratchet_new [1])")
  show ?thesis
    using ratchet_refines_window [OF sample_kdf_ok ratchet_inv_new call] call
    by (simp add: sender_ratchet_configuration_default_def)
qed

text \<open>
  C3: over any sequence of requests to the secret tree of an epoch, no message key is handed out
  twice, and every key handed out is the key of the leaf, type and generation asked for.
\<close>

theorem message_keys_used_once:
  assumes "kdf_ok P cs" and "h < 30"
  shows "let served = serve (\<lambda>(i, ty, gen). secret_for_decryption P cs cfg i ty gen) requests
        (secret_tree_new s (full_size h) own)
    in distinct (map fst served) \<and> (\<forall>(request, key) \<in> set served. key = leaf_key P cs s h request)"
proof -
  have inv: "kdf_ok P cs \<and> secret_tree_inv P cs cfg s h (secret_tree_new s (full_size h) own)"
    using assms(1) secret_tree_new_inv(1) [OF assms(2)] by simp
  show ?thesis
    unfolding Let_def using st.serve_distinct [OF inv] st.serve_available [OF inv] by blast
qed

theorem message_keys_used_once_witness:
  "distinct (map fst (serve (\<lambda>(i, ty, gen). secret_for_decryption sample_provider
      sample_suite sender_ratchet_configuration_default i ty gen)
      [(1, ApplicationSecret, 2), (1, ApplicationSecret, 0), (1, ApplicationSecret, 2)]
      (secret_tree_new [1] (full_size 1) 0)))"
proof -
  have "1 < (30 :: nat)" by simp
  from message_keys_used_once [OF sample_kdf_ok this] show ?thesis
    unfolding Let_def by (rule conjunct1)
qed

text \<open>
  C4: the sender and a receiver agree on message keys. If the owner of a leaf draws a key for a
  generation from its tree, another member whose tree comes from the same encryption secret, in
  whatever state, is given the same key for that generation whenever it is given one, and it is
  given one if it has not used it and the generation is inside its window.
\<close>

theorem message_key_agreement:
  assumes "kdf_ok P cs" and "secret_tree_inv P cs cfg s h t" and "secret_tree_inv P cs cfg s h u"
    and "st_own_index t < 2 ^ h"
    and "secret_for_encryption P cs (st_own_index t) ty t = (Inr (gen, key), t')"
  shows "(\<forall>key' u'. secret_for_decryption P cs cfg (st_own_index t) ty gen u = (Inr key', u') \<longrightarrow> key' = key) \<and>
    ((st_own_index t, ty, gen) \<in> st_available h u \<and>
       in_window cfg (receiving_ratchet P cs s h ty (st_own_index t) u) gen \<longrightarrow>
     fst (secret_for_decryption P cs cfg (st_own_index t) ty gen u) = Inr key)"
proof -
  let ?i = "st_own_index t"
  have key: "key = leaf_key P cs s h (?i, ty, gen)"
    by (rule secret_for_encryption_at(1) [OF assms(1,2,4,5)])
  have inv: "kdf_ok P cs \<and> secret_tree_inv P cs cfg s h u" using assms(1,3) by simp
  have "key' = key" if "secret_for_decryption P cs cfg ?i ty gen u = (Inr key', u')" for key' u'
    using st.granted [OF inv, of "(?i, ty, gen)" key' u'] that key by simp
  then show ?thesis using secret_for_decryption_returns [OF assms(1,3)] key by blast
qed

theorem message_key_agreement_witness:
  "\<exists>gen key t'.
    secret_for_encryption sample_provider sample_suite 0 ApplicationSecret (secret_tree_new [1] (full_size 1) 0)
      = (Inr (gen, key), t') \<and>
    (\<forall>key' u'. secret_for_decryption sample_provider sample_suite sender_ratchet_configuration_default 0
        ApplicationSecret gen (secret_tree_new [1] (full_size 1) 1) = (Inr key', u') \<longrightarrow> key' = key)"
proof -
  let ?t = "secret_tree_new [1] (full_size 1) 0" and ?u = "secret_tree_new [1] (full_size 1) 1"
  have inv: "secret_tree_inv sample_provider sample_suite sender_ratchet_configuration_default [1] 1 ?t"
    "secret_tree_inv sample_provider sample_suite sender_ratchet_configuration_default [1] 1 ?u"
    "st_own_index ?t = 0"
    by (rule secret_tree_new_inv; simp)+
  have len: "length (sender_ratchets ApplicationSecret ?t) = 2"
    using secret_tree_invD(1) [OF inv(1)] by (simp add: st_shape_def)
  have own: "st_own_index ?t < 2 ^ 1" using inv(3) by simp
  have fresh: "sender_ratchets ApplicationSecret ?t ! 0 = None"
    by (simp add: secret_tree_new_def root_full split: prod.splits)
  obtain gen key t' where
    "secret_for_encryption sample_provider sample_suite (st_own_index ?t) ApplicationSecret ?t = (Inr (gen, key), t')"
    using secret_for_encryption_returns [OF sample_kdf_ok inv(1) own, of ApplicationSecret] fresh inv(3)
    by auto
  then show ?thesis
    using message_key_agreement [OF sample_kdf_ok inv(1,2) own] inv(3) by metis
qed

text \<open>
  C5: forward secrecy of the secret tree. After a key has been drawn for a leaf, no node from that
  leaf up to the root holds a secret, and the key cannot be drawn again.
\<close>

theorem drawn_keys_deleted:
  assumes "kdf_ok P cs" and "secret_tree_inv P cs cfg s h t"
    and "secret_for_decryption P cs cfg i ty gen t = (Inr key, t')"
  shows "(\<forall>k \<le> h. st_node t' k (anc i k) = None) \<and> (i, ty, gen) \<notin> st_available h t'"
  using drawn_key_deleted [OF assms] by blast

theorem drawn_keys_deleted_witness:
  "\<exists>key t'. secret_for_decryption sample_provider sample_suite sender_ratchet_configuration_default 0
      ApplicationSecret 3 (secret_tree_new [1] (full_size 1) 1) = (Inr key, t') \<and>
    st_node t' 1 (anc 0 1) = None"
proof -
  let ?u = "secret_tree_new [1] (full_size 1) 1"
  have inv: "secret_tree_inv sample_provider sample_suite sender_ratchet_configuration_default [1] 1 ?u"
    "st_own_index ?u = 1"
    by (rule secret_tree_new_inv; simp)+
  have fresh: "sender_ratchets ApplicationSecret ?u ! 0 = None"
    by (simp add: secret_tree_new_def root_full split: prod.splits)
  have avail: "(0, ApplicationSecret, 3) \<in> st_available 1 ?u"
    using fresh inv(2) by (simp add: st_available_def)
  have "in_window sender_ratchet_configuration_default
      (receiving_ratchet sample_provider sample_suite [1] 1 ApplicationSecret 0 ?u) 3"
    using fresh by (simp add: in_window_def receiving_ratchet_def decryption_ratchet_new_def
        initial_ratchet_secret_def sender_ratchet_configuration_default_def)
  then have "fst (secret_for_decryption sample_provider sample_suite sender_ratchet_configuration_default 0
      ApplicationSecret 3 ?u) = Inr (leaf_key sample_provider sample_suite [1] 1 (0, ApplicationSecret, 3))"
    by (rule secret_for_decryption_returns [OF sample_kdf_ok inv(1) avail])
  then obtain key t' where call: "secret_for_decryption sample_provider sample_suite
      sender_ratchet_configuration_default 0 ApplicationSecret 3 ?u = (Inr key, t')"
    by (metis prod.collapse)
  then show ?thesis using drawn_keys_deleted [OF sample_kdf_ok inv(1) call] by blast
qed

text \<open>
  C6: a sender can draw \<open>2 ^ 32 - 1\<close> keys, one per generation in order, and the next request is
  refused instead of wrapping around to a generation that has been used.
\<close>

theorem sender_ratchet_bound:
  assumes "kdf_ok P cs"
  shows "ratchet_forwards P cs n (initial_ratchet_secret s)
    = (if n \<le> 2 ^ 32 - 1 then Inr (map (\<lambda>x. (of_nat x, chain_key P cs s x)) [0..<n])
       else Inl RatchetTooLong)"
  using ratchet_forwards_at [OF assms, of 0 n s] ratchet_forwards_too_long [OF assms, of 0 n s]
  by (simp add: ratchet_at_0)

theorem sender_ratchet_bound_witness:
  "ratchet_forwards sample_provider sample_suite (2 ^ 32)
     (initial_ratchet_secret [1]) = Inl RatchetTooLong"
  using sender_ratchet_bound [OF sample_kdf_ok, of _ "2 ^ 32" "[1]"] by simp

section \<open>Membership of the ratchet tree\<close>



text \<open>
  C8: adding a member puts it at the first blank leaf and changes no other leaf, growing the tree
  when there is none; it fails only when all \<open>2 ^ 29\<close> leaves of the largest tree are taken.
\<close>

theorem add_leaf_first_blank:
  assumes "members_inv d" and "parents_inv d"
  shows "case add_leaf leaf d of
      Inl e \<Rightarrow> e = TreeFull \<and> (\<forall>i < 2 ^ 29. members d i \<noteq> None)
    | Inr (i, d') \<Rightarrow> i = (LEAST i. members d i = None) \<and> members d' = (members d)(i \<mapsto> leaf)"
proof (rule add_leaf_cases [OF assms, of leaf])
  assume full: "free_leaf_index d = 2 ^ 29" "add_leaf leaf d = Inl TreeFull"
  have "members d i \<noteq> None" if "i < 2 ^ 29" for i
    using that full(1) not_less_Least [of i "\<lambda>i. members d i = None"]
    unfolding free_leaf_index_least(1) [OF assms(1)] by simp
  then show ?thesis using full(2) by simp
qed (simp add: free_leaf_index_least(1) [OF assms(1)])

theorem add_leaf_first_blank_witness:
  "case add_leaf (sample_leaf 3) (sample_diff 2) of
      Inl e \<Rightarrow> e = TreeFull \<and> (\<forall>i < 2 ^ 29. members (sample_diff 2) i \<noteq> None)
    | Inr (i, d') \<Rightarrow> i = (LEAST i. members (sample_diff 2) i = None) \<and>
        members d' = (members (sample_diff 2))(i \<mapsto> sample_leaf 3)"
  by (rule add_leaf_first_blank) (simp_all add: sample_diff_facts)

text \<open>
  C9: removing a member blanks its leaf and its whole direct path and nothing else, and it always
  succeeds. The tree keeps its size: the trimming that follows compares against the highest leaf
  ever used, so it never shrinks the tree.
\<close>

theorem blank_leaf_effect:
  assumes "members_inv d" and "parents_inv d" and "i \<in> dom (members d)"
  shows "\<exists>d'. blank_leaf i d = Inr d' \<and> members d' = (members d)(i := None) \<and>
    (\<forall>k m. ab_parent (tsd_diff d') (node_at k m)
       = (if anc i (Suc k) = m then None else ab_parent (tsd_diff d) (node_at k m))) \<and>
    tsd_tree_size d' = tsd_tree_size d"
  by (rule blank_leaf_spec [OF assms]) blast

theorem blank_leaf_effect_witness:
  "\<exists>d'. blank_leaf 2 (sample_diff 2) = Inr d' \<and> members d' = (members (sample_diff 2))(2 := None) \<and>
     tsd_tree_size d' = tsd_tree_size (sample_diff 2)"
proof -
  have inv: "members_inv (sample_diff 2)" "parents_inv (sample_diff 2)" "2 \<in> dom (members (sample_diff 2))"
    by (simp_all add: sample_diff_facts domIff)
  show ?thesis using blank_leaf_effect [OF inv] by blast
qed

text \<open>
  C10: an update replaces the leaf of a member and blanks its direct path, and changes nothing
  else.
\<close>

theorem update_leaf_effect:
  assumes "members_inv d" and "parents_inv d" and "i \<in> dom (members d)"
  shows "\<exists>d'. update_leaf leaf i d = Inr d' \<and> members d' = (members d)(i \<mapsto> leaf) \<and>
    (\<forall>k m. ab_parent (tsd_diff d') (node_at k m)
       = (if anc i (Suc k) = m then None else ab_parent (tsd_diff d) (node_at k m)))"
  by (rule update_leaf_spec [OF assms]) blast

theorem update_leaf_effect_witness:
  "\<exists>d'. update_leaf (sample_leaf 9) 1 (sample_diff 2) = Inr d' \<and>
     members d' = (members (sample_diff 2))(1 \<mapsto> sample_leaf 9)"
proof -
  have inv: "members_inv (sample_diff 2)" "parents_inv (sample_diff 2)" "1 \<in> dom (members (sample_diff 2))"
    by (simp_all add: sample_diff_facts domIff)
  show ?thesis using update_leaf_effect [OF inv] by blast
qed

section \<open>Resolutions and filtered paths\<close>

text \<open>
  C11: the resolution of a node, computed with the cut at the rightmost leaf in use, is the one
  the protocol defines by recursion over the subtree, and it returns for every node of the tree.
\<close>

theorem resolution_equals_reference:
  assumes "tree_ok d h" and "k \<le> h" and "m < 2 ^ (h - k)"
  shows "resolution (node_ix k m) d E (rightmost_full_leaf d) = Some (ref_resolution d E k m)"
  using assms by (intro resolution_ref) (simp_all add: tree_okD)

theorem resolution_equals_reference_witness:
  "\<exists>h. resolution (node_ix h 0) (sample_diff 2) {} (rightmost_full_leaf (sample_diff 2))
     = Some (ref_resolution (sample_diff 2) {} h 0)"
proof -
  obtain h where ok: "tree_ok (sample_diff 2) h"
    using tree_ok_exists [of "sample_diff 2"] by (auto simp: sample_diff_facts)
  show ?thesis using resolution_equals_reference [OF ok, of h 0] by auto
qed

text \<open>
  C12: every member below a node is reached by the resolution of that node: it contains the leaf
  of the member, or a parent above it in which the member is not unmerged.
\<close>

theorem resolution_reaches_members:
  assumes "tree_ok d h" and "k \<le> h" and "m < 2 ^ (h - k)" and "j \<in> dom (members d)" and "anc j k = m"
  shows "\<exists>res. resolution (node_ix k m) d {} (rightmost_full_leaf d) = Some res \<and> covers_leaf res j"
proof -
  obtain l where "members d j = Some l" using assms(4) by blast
  then have "covers_leaf (ref_resolution d {} k m) j" using assms(5) by (rule ref_resolution_covers)
  moreover have "resolution (node_ix k m) d {} (rightmost_full_leaf d) = Some (ref_resolution d {} k m)"
    using assms(1-3) by (intro resolution_ref) (simp_all add: tree_okD)
  ultimately show ?thesis by blast
qed

theorem resolution_reaches_members_witness:
  "\<exists>h res. resolution (node_ix h 0) (sample_diff 2) {} (rightmost_full_leaf (sample_diff 2)) = Some res \<and>
     covers_leaf res 1"
proof -
  obtain h where ok: "tree_ok (sample_diff 2) h"
    using tree_ok_exists [of "sample_diff 2"] by (auto simp: sample_diff_facts)
  have j: "1 \<in> dom (members (sample_diff 2))" by (simp add: sample_diff_facts domIff)
  have "anc 1 h = 0" using tree_ok_member [OF ok j] by (rule anc_root)
  then show ?thesis using resolution_reaches_members [OF ok, of h 0 1] j by auto
qed



section \<open>The array-based tree\<close>

text \<open>
  C14: merging a staged diff gives the tree the diff described: the size, every leaf and every
  parent read from the tree afterwards are those read through the diff before.
\<close>

theorem merge_diff_refines:
  fixes d :: "('l::default, 'p::default) ab_diff"
  assumes "ab_inv d" and "original_tree d = t"
  shows "let t' = abt_merge_diff t (ab_into_staged d) in
    abt_inv t' \<and> abt_tree_size t' = ab_size d \<and> (\<forall>i. abt_leaf t' i = ab_leaf d i) \<and>
    (\<forall>i < ab_parent_count d. abt_parent t' i = ab_parent d i)"
  using abt_merge_diff_inv [OF assms] abt_merge_diff_leaf [OF assms] abt_merge_diff_parent [OF assms]
  by simp

theorem merge_diff_refines_witness:
  "abt_leaf (abt_merge_diff (original_tree (tsd_diff (sample_diff 2)))
     (ab_into_staged (tsd_diff (sample_diff 2)))) 2 = Some (sample_leaf 2)"
proof -
  have inv: "members_inv (sample_diff 2)" by (simp add: sample_diff_facts)
  have "ab_leaf (tsd_diff (sample_diff 2)) 2 = Some (sample_leaf 2)"
    using sample_diff_facts(3) [of 2] by (simp add: members_def fun_eq_iff)
  then show ?thesis
    using merge_diff_refines [OF members_inv_simps(1) [OF inv] refl] unfolding Let_def by metis
qed

text \<open>
  C15: the iterator over the leaves of a diff, which merges the entries of the diff with those of
  the tree, visits the occupied leaves in order, each once and with its current content.
\<close>

theorem leaves_in_order:
  assumes "members_inv d"
  shows "filter (\<lambda>(i, leaf). leaf \<noteq> None) (ab_leaves (tsd_diff d))
    = map (\<lambda>i. (i, members d i)) (filter (\<lambda>i. i \<in> dom (members d)) [0..<tsd_leaf_count d])"
  using filter_ab_leaves [OF members_inv_simps(1) [OF assms], of "\<lambda>l. l \<noteq> None"]
  by (simp add: members_def tsd_leaf_count_def dom_def default_option_def)

theorem leaves_in_order_witness:
  "filter (\<lambda>(i, leaf). leaf \<noteq> None) (ab_leaves (tsd_diff (sample_diff 2)))
    = map (\<lambda>i. (i, members (sample_diff 2) i))
        (filter (\<lambda>i. i \<in> dom (members (sample_diff 2))) [0..<tsd_leaf_count (sample_diff 2)])"
  by (rule leaves_in_order) (simp add: sample_diff_facts)

text \<open>
  C16: in every tree the protocol allows, a parent is the parent of both its children and the
  children are each other's siblings.
\<close>

theorem children_and_parent:
  assumes "p < 2 ^ 29 - 1"
  shows "parent (left p) = p \<and> parent (right p) = p \<and> sibling (left p) = right p \<and> sibling (right p) = left p"
proof -
  obtain k m where p: "p = node_at k m" using node_at_surj by blast
  have b: "node_at k m < 2 ^ 30" "node_at k (2 * m) < 2 ^ 30" "node_at k (2 * m + 1) < 2 ^ 30"
    using assms children_bound [of k m] unfolding p by simp_all
  show ?thesis
    using b by (simp add: p left_node_at right_node_at parent_node_ix sibling_node_ix sib_def)
qed

theorem children_and_parent_witness:
  "parent (left 5) = 5 \<and> parent (right 5) = 5 \<and> sibling (left 5) = right 5 \<and> sibling (right 5) = left 5"
  by (rule children_and_parent) simp

text \<open>
  C17: the loop for the direct path ends at the root for every leaf of a tree, and the path it
  returns consists of the ancestors of the leaf from its parent to the root.
\<close>

theorem direct_path_ancestors:
  assumes "i < 2 ^ d" and "d < 30"
  shows "direct_path i (full_size d) = Some (map (\<lambda>j. node_at j (anc i (Suc j))) [0..<d])"
  using assms by (rule direct_path_full)

theorem direct_path_ancestors_witness: "direct_path 2 (full_size 2) = Some [2, 1]"
  using direct_path_ancestors [of 2 2] by (simp add: upt_rec node_at_def anc_def)

text \<open>
  C18: the common direct path of two leaves, found by comparing their paths from the root, starts
  at the lowest common ancestor computed on the indices.
\<close>

theorem common_direct_path_from_lca:
  assumes "i < 2 ^ d" and "j < 2 ^ d" and "i \<noteq> j" and "d < 30"
  shows "\<exists>path. common_direct_path i j (full_size d) = Some (lowest_common_ancestor i j # path) \<and>
    (\<exists>pi pj. direct_path i (full_size d) = Some (pi @ lowest_common_ancestor i j # path) \<and>
       direct_path j (full_size d) = Some (pj @ lowest_common_ancestor i j # path))"
proof -
  let ?k = "lca_height i j - 1" and ?f = "\<lambda>i k. node_at k (anc i (Suc k))"
  have k: "?k < d" "0 < lca_height i j" "lca_height j i = lca_height i j"
    using lca_height_le [OF assms(1,2)] lca_height_pos [OF assms(3)] lca_height_commute [of i j] by simp_all
  have lca: "lowest_common_ancestor i j = ?f i ?k" "lowest_common_ancestor i j = ?f j ?k"
    using lowest_common_ancestor_eq [OF assms(3,1,2,4)] anc_lca_height [of i j] k(2) by simp_all
  have up: "[0..<d] = [0..<?k] @ ?k # [Suc ?k..<d]"
    using upt_add_eq_append [of 0 ?k "d - ?k"] k(1) by (simp add: upt_conv_Cons)
  have "anc j (Suc x) = anc i (Suc x)" if "lca_height i j \<le> x" for x
    using anc_eq_iff [of i "Suc x" j] that by simp
  then have tail: "map (?f j) [Suc ?k..<d] = map (?f i) [Suc ?k..<d]" using k(2) by auto
  have "common_direct_path i j (full_size d) = Some (lowest_common_ancestor i j # map (?f i) [Suc ?k..<d])"
    using common_direct_path_full [OF assms(1,2,4)] k(1) lca(1) by (simp add: upt_conv_Cons)
  moreover have "direct_path i (full_size d)
      = Some (map (?f i) [0..<?k] @ lowest_common_ancestor i j # map (?f i) [Suc ?k..<d])"
    using direct_path_full [OF assms(1,4)] lca(1) unfolding up by simp
  moreover have "direct_path j (full_size d)
      = Some (map (?f j) [0..<?k] @ lowest_common_ancestor i j # map (?f i) [Suc ?k..<d])"
    using direct_path_full [OF assms(2,4)] lca(2) tail unfolding up by simp
  ultimately show ?thesis by blast
qed

theorem common_direct_path_from_lca_witness:
  "\<exists>path. common_direct_path 0 3 (full_size 2) = Some (lowest_common_ancestor 0 3 # path)"
  using common_direct_path_from_lca [of 0 2 3] by auto

text \<open>C19: the loop that finds the level of a node ends for every index but the largest \<open>u32\<close>.\<close>

theorem level_terminates:
  assumes "x < 2 ^ 32 - 1"
  shows "level_loop x 0 = Some (level x) \<and> x mod 2 ^ level x = 2 ^ level x - 1 \<and> even (x div 2 ^ level x)"
proof -
  obtain k m where x: "x = node_at k m" using node_at_surj by blast
  have "2 ^ k \<le> Suc x" using node_at_level_bound [of k m] x by simp
  then have "(2::nat) ^ k < 2 ^ 32" using assms by linarith
  then have k: "k < 32" by (rule power_less_imp_less_exp [rotated]) simp
  have "x = 2 ^ k * (2 * m) + (2 ^ k - 1)" using x node_at_alt [of k m] by (simp add: mult.assoc)
  moreover have div: "x div 2 ^ k = 2 * m" using node_at_div [of k k m] x by simp
  ultimately have "x mod 2 ^ k = 2 ^ k - 1" by (simp add: modulo_nat_def mult.commute)
  then show ?thesis using div level_loop_returns [OF assms] level_node_at [OF k, of m] x by simp
qed

theorem level_terminates_witness: "level_loop 3 0 = Some (level 3) \<and> (3::nat) mod 2 ^ level 3 = 2 ^ level 3 - 1"
  using level_terminates [of 3] by simp

section \<open>Cryptographic values and leaf nodes\<close>

text \<open>
  C20: every 16-bit code point of an extension, credential, proposal or version survives the
  conversion to the enum and back, and the ciphersuites are exactly the code points that convert.
\<close>

theorem code_points_survive:
  "extension_type_into (extension_type_from v) = v \<and> credential_type_into (credential_type_from v) = v \<and>
   proposal_type_into (proposal_type_from v) = v \<and> protocol_version_into (protocol_version_from v) = v \<and>
   ciphersuite_try_from (ciphersuite_into cs) = Some cs \<and>
   (\<forall>cs'. ciphersuite_try_from v = Some cs' \<longrightarrow> ciphersuite_into cs' = v)"
  by (simp add: code_points_into_from ciphersuite_into_try_from)

theorem code_points_survive_witness:
  "ciphersuite_try_from 3 = Some MLS_128_DHKEMX25519_CHACHA20POLY1305_SHA256_Ed25519 \<and>
   ciphersuite_into MLS_128_DHKEMX25519_CHACHA20POLY1305_SHA256_Ed25519 = 3"
proof -
  have "ciphersuite_try_from 3 = Some MLS_128_DHKEMX25519_CHACHA20POLY1305_SHA256_Ed25519"
    by (simp add: ciphersuite_try_from_def)
  then show ?thesis using code_points_survive [of 3] by blast
qed

text \<open>
  C21: the comparison of two MACs looks only at their common prefix: it is equality for MACs of
  the same length, and a MAC that is cut short, even to nothing, compares equal.
\<close>

theorem mac_comparison_is_prefix:
  "mac_eq a b \<longleftrightarrow> (\<exists>rest. a = b @ rest) \<or> (\<exists>rest. b = a @ rest)"
proof -
  have "take (min (length a) (length b)) a = take (min (length a) (length b)) b \<longleftrightarrow>
      (\<exists>rest. a = b @ rest) \<or> (\<exists>rest. b = a @ rest)"
  proof (cases "length a \<le> length b")
    case True
    then have "take (length a) b = a \<longleftrightarrow> (\<exists>rest. b = a @ rest)"
      by (metis append_eq_conv_conj append_take_drop_id)
    then show ?thesis using True by (auto simp: min_absorb1)
  next
    case False
    then have "take (length b) a = b \<longleftrightarrow> (\<exists>rest. a = b @ rest)"
      by (metis append_eq_conv_conj append_take_drop_id)
    then show ?thesis using False by (auto simp: min_absorb2)
  qed
  then show ?thesis by (simp add: mac_eq_def equal_ct_iff)
qed

text \<open>
  C22: applying a reuse guard to a nonce twice gives the nonce back, two guards give two
  different nonces, and the last eight bytes are untouched.
\<close>

theorem reuse_guard_roundtrip:
  assumes "length nonce = nonce_bytes" and "length guard = reuse_guard_bytes"
    and "length guard' = reuse_guard_bytes"
  shows "xor_with_reuse_guard (xor_with_reuse_guard nonce guard) guard = nonce \<and>
    (xor_with_reuse_guard nonce guard = xor_with_reuse_guard nonce guard' \<longleftrightarrow> guard = guard') \<and>
    drop 4 (xor_with_reuse_guard nonce guard) = drop 4 nonce"
proof -
  obtain n0 n1 n2 n3 rest where n: "nonce = n0 # n1 # n2 # n3 # rest"
    using assms(1) by (auto simp: nonce_bytes_def length_Suc_conv numeral_eq_Suc)
  obtain a0 a1 a2 a3 b0 b1 b2 b3 where g: "guard = [a0, a1, a2, a3]" "guard' = [b0, b1, b2, b3]"
    using assms(2,3) by (auto simp: reuse_guard_bytes_def length_Suc_conv numeral_eq_Suc)
  have twice: "(x XOR y) XOR y = x" for x y :: "8 word" by (simp add: xor.assoc)
  have cancel: "x XOR y = x XOR z \<longleftrightarrow> y = z" for x y z :: "8 word" by (metis twice xor.commute)
  have once: "xor_with_reuse_guard nonce guard
      = [n0 XOR a0, n1 XOR a1, n2 XOR a2, n3 XOR a3] @ rest"
    using xor_with_reuse_guard_eq [OF assms(1,2)] by (simp add: n g)
  have len: "length (xor_with_reuse_guard nonce guard) = nonce_bytes" using assms by simp
  show ?thesis
    using once xor_with_reuse_guard_eq [OF len assms(2)] xor_with_reuse_guard_eq [OF assms(1,3)]
    by (simp add: n g twice cancel)
qed

theorem reuse_guard_roundtrip_witness:
  "xor_with_reuse_guard (xor_with_reuse_guard (replicate 12 7) [1, 2, 3, 4]) [1, 2, 3, 4]
     = replicate 12 7"
  using reuse_guard_roundtrip [of "replicate 12 7" "[1, 2, 3, 4]" "[0, 0, 0, 0]"]
  by (simp add: nonce_bytes_def reuse_guard_bytes_def)

text \<open>
  C23: a leaf node that is signed for a place in the tree verifies when it is received at that
  place, and verification returns the leaf unchanged.
\<close>

theorem leaf_signature_roundtrip:
  assumes "leaf_tbs_sign C signer tbs = Inr leaf"
    and "tree_info_matches (leaf_source (tbs_payload tbs)) pos (tbs_tree_info tbs)"
    and "\<And>m s. signer m = Some s \<Longrightarrow> verify_signature pk m s"
  shows "verifiable_verify C verify_signature pk
      (add_tree_position pos (into_verifiable_leaf_node leaf)) = Inr leaf"
  using assms by (rule sign_verify_roundtrip)

theorem leaf_signature_roundtrip_witness:
  "\<exists>leaf. leaf_tbs_sign sample_codec Some
       \<lparr>tbs_payload = sample_payload 1,
        tbs_tree_info = TbsUpdate \<lparr>position_group_id = [1], position_leaf_index = 1\<rparr>\<rparr> = Inr leaf \<and>
     verifiable_verify sample_codec (\<lambda>pk m s. s = m) [1]
       (add_tree_position \<lparr>position_group_id = [1], position_leaf_index = 1\<rparr>
          (into_verifiable_leaf_node leaf)) = Inr leaf"
proof -
  let ?pos = "\<lparr>position_group_id = [1], position_leaf_index = 1\<rparr> :: tree_position"
  let ?tbs = "\<lparr>tbs_payload = sample_payload 1, tbs_tree_info = TbsUpdate ?pos\<rparr>"
  obtain leaf where leaf: "leaf_tbs_sign sample_codec Some ?tbs = Inr leaf"
    by (simp add: leaf_tbs_sign_def leaf_tbs_serialize_def sample_codec_def)
  show ?thesis
    using leaf leaf_signature_roundtrip [OF leaf, of ?pos "\<lambda>pk m s. s = m" "[1]"]
    by (simp add: sample_payload_def)
qed



text \<open>
  C25: adding or replacing an extension keeps the types in the list distinct, returns the
  extension it replaced, and changes the lookup of no other type.
\<close>

theorem add_or_replace_lookup:
  assumes "unique_extensions exts" and "extensions_add_or_replace exts e = (replaced, exts')"
  shows "replaced = find_by_type exts (extension_type_of e) \<and> unique_extensions exts' \<and>
    (\<forall>ty. find_by_type exts' ty = (if ty = extension_type_of e then Some e else find_by_type exts ty))"
  using extensions_add_or_replace_spec [OF assms] by blast

theorem add_or_replace_lookup_witness:
  "find_by_type (snd (extensions_add_or_replace [ApplicationIdExtension [1], ExternalPubExtension [2]]
     (ApplicationIdExtension [3]))) ExternalPub = Some (ExternalPubExtension [2])"
proof -
  let ?exts = "[ApplicationIdExtension [1], ExternalPubExtension [2]]"
  have u: "unique_extensions ?exts" by (simp add: unique_extensions_def)
  show ?thesis
    using add_or_replace_lookup [OF u prod.collapse [symmetric], of "ApplicationIdExtension [3]"]
    by (simp add: find_by_type_def)
qed

text \<open>
  C26: a lifetime made at time \<open>now\<close> for \<open>t\<close> seconds is valid at that time exactly if \<open>t\<close> is
  positive, and its range is acceptable exactly up to the default lifetime, as long as the 64-bit
  arithmetic does not wrap.
\<close>

theorem lifetime_bounds:
  fixes now t :: "64 word"
  assumes "3600 \<le> now" and "unat now + unat t < 2 ^ 64"
  shows "(lifetime_is_valid (Some now) (lifetime_new now t) \<longleftrightarrow> 0 < t) \<and>
    (has_acceptable_range (lifetime_new now t) \<longleftrightarrow> t \<le> default_key_package_lifetime_seconds)"
  using lifetime_new_valid [OF assms] by blast

theorem lifetime_bounds_witness:
  "lifetime_is_valid (Some 1000000) (lifetime_new 1000000 60) \<and> has_acceptable_range (lifetime_new 1000000 60)"
  using lifetime_bounds [of 1000000 60] by (simp add: default_key_package_lifetime_seconds_def)

section \<open>Messages and the key schedule\<close>

text \<open>
  C27: an encrypted message decrypts. A receiver with the sender data secret of the epoch and a secret
  tree from the same encryption secret opens the sender data of the message, finds the leaf of the
  sender there, and, where the key is available and inside its window, gets exactly the content and
  the authentication data the sender encrypted.
\<close>

theorem private_message_roundtrip:
  assumes "kdf_ok P cs" and "aead_ok P" and "codec_ok F" and "sender_data_codec_ok Q"
    and "tag_fits ac" and "ac_wire_format ac = WirePrivateMessage"
    and "fc_sender (ac_content ac) = SenderMember (st_own_index (ms_secret_tree sms))"
    and "secret_tree_inv P cs cfg s h (ms_secret_tree sms)" "secret_tree_inv P cs cfg' s h (ms_secret_tree rms)"
    and "st_own_index (ms_secret_tree sms) < 2 ^ h"
    and "ms_sender_data_secret rms = ms_sender_data_secret sms"
    and "try_from_authenticated_content P F Q guard ac cs padding_size sms = (Inr m, sms')"
  shows "\<exists>sd. sender_data P Q cs rms m = Inr sd \<and> sd_leaf_index sd = st_own_index (ms_secret_tree sms) \<and>
    ((st_own_index (ms_secret_tree sms), secret_type_from (prm_content_type m), sd_generation sd)
        \<in> st_available h (ms_secret_tree rms) \<and>
      in_window cfg' (receiving_ratchet P cs s h (secret_type_from (prm_content_type m))
        (st_own_index (ms_secret_tree sms)) (ms_secret_tree rms)) (sd_generation sd) \<longrightarrow>
      fst (to_verifiable_content P F Q cs cfg' (sd_leaf_index sd) sd m rms) =
        Inr (verifiable_content_new WirePrivateMessage (ac_content ac) (Some (ms_serialized_context rms)) (ac_auth ac)))"
  by (rule private_message_decrypts [OF assms]) blast

theorem private_message_roundtrip_witness:
  "\<exists>m sms' sd. try_from_authenticated_content sample_provider sample_framing sample_private (Inr [1, 2, 3, 4])
      sample_content sample_suite 0 (sample_secrets 0) = (Inr m, sms') \<and>
    sender_data sample_provider sample_private sample_suite (sample_secrets 1) m = Inr sd \<and>
    fst (to_verifiable_content sample_provider sample_framing sample_private sample_suite
      sender_ratchet_configuration_default 0 sd m (sample_secrets 1)) =
      Inr (verifiable_content_new WirePrivateMessage (ac_content sample_content) (Some [7]) (ac_auth sample_content))"
proof -
  let ?t = "ms_secret_tree (sample_secrets 0)" and ?u = "ms_secret_tree (sample_secrets 1)"
  have own: "st_own_index ?t = 0" "st_own_index ?u = 1"
    unfolding sample_secrets_sel by (rule sample_tree_inv; simp)+
  have inv: "secret_tree_inv sample_provider sample_suite sender_ratchet_configuration_default [1] 1 ?t"
    "secret_tree_inv sample_provider sample_suite sender_ratchet_configuration_default [1] 1 ?u"
    unfolding sample_secrets_sel by (rule sample_tree_inv; simp)+
  have fresh: "sender_ratchets ApplicationSecret ?u ! 0 = None"
    unfolding sample_secrets_sel by (rule sample_tree_fresh) simp
  obtain m sms' where m: "try_from_authenticated_content sample_provider sample_framing sample_private
      (Inr [1, 2, 3, 4]) sample_content sample_suite 0 (sample_secrets 0) = (Inr m, sms')"
    and ty: "prm_content_type m = ContentApplication"
    and gen: "\<And>sd. sender_data sample_provider sample_private sample_suite (sample_secrets 1) m = Inr sd \<Longrightarrow>
      sd_generation sd = 0"
    using sample_encrypted by blast
  have content: "tag_fits sample_content" "ac_wire_format sample_content = WirePrivateMessage"
    "fc_sender (ac_content sample_content) = SenderMember (st_own_index ?t)"
    unfolding own by (simp_all add: sample_content_def tag_fits_def)
  have less: "st_own_index ?t < 2 ^ 1" unfolding own by simp
  have same: "ms_sender_data_secret (sample_secrets 1) = ms_sender_data_secret (sample_secrets 0)" by simp
  obtain sd where sd: "sender_data sample_provider sample_private sample_suite (sample_secrets 1) m = Inr sd"
    "sd_leaf_index sd = 0"
    and open_m: "(0, secret_type_from (prm_content_type m), sd_generation sd) \<in> st_available 1 ?u \<and>
      in_window sender_ratchet_configuration_default (receiving_ratchet sample_provider sample_suite [1] 1
        (secret_type_from (prm_content_type m)) 0 ?u) (sd_generation sd) \<longrightarrow>
      fst (to_verifiable_content sample_provider sample_framing sample_private sample_suite
        sender_ratchet_configuration_default (sd_leaf_index sd) sd m (sample_secrets 1)) =
      Inr (verifiable_content_new WirePrivateMessage (ac_content sample_content)
        (Some (ms_serialized_context (sample_secrets 1))) (ac_auth sample_content))"
    using private_message_roundtrip [OF sample_kdf_ok sample_aead_ok sample_codec_ok sample_sender_data_codec_ok
        content inv less same m] unfolding own by blast
  have "(0, ApplicationSecret, 0) \<in> st_available 1 ?u" using fresh own(2) by (simp add: st_available_def)
  moreover have "in_window sender_ratchet_configuration_default
      (receiving_ratchet sample_provider sample_suite [1] 1 ApplicationSecret 0 ?u) 0"
    using fresh by (simp add: in_window_def receiving_ratchet_def decryption_ratchet_new_def
        initial_ratchet_secret_def sender_ratchet_configuration_default_def)
  ultimately show ?thesis using open_m m sd gen [OF sd(1)] ty by auto
qed



text \<open>
  C29: the key schedule runs forwards only. Whatever calls are made on a fresh schedule, after the
  context has been added no call gives the welcome secret or adds a context again, after the epoch
  secrets have been given every call is refused, and then no secret is left in the schedule.
\<close>

theorem key_schedule_one_pass:
  assumes "key_schedule_init cs P joiner psk = Inr ks" and "ks_run P cs calls ks = (rs, ks')"
  shows "(\<forall>i j ctx w. i < j \<and> j < length calls \<and> calls ! i = CallAddContext ctx \<longrightarrow>
        rs ! j \<noteq> GotWelcome w \<and> rs ! j \<noteq> GotContext) \<and>
    (\<forall>i j es. i < j \<and> j < length calls \<and> rs ! i = GotEpochSecrets es \<longrightarrow> (\<exists>e. rs ! j = GotError (InvalidState e))) \<and>
    (\<forall>es. GotEpochSecrets es \<in> set rs \<longrightarrow> ks_intermediate_secret ks' = None \<and> ks_epoch_secret ks' = None)"
  using schedule_run_order [OF assms] schedule_run_erased [OF assms] by blast

theorem key_schedule_one_pass_witness:
  "\<exists>ks rs ks' es e. key_schedule_init sample_suite sample_provider [1] [2] = Inr ks \<and>
    ks_run sample_provider sample_suite [CallAddContext [3], CallEpochSecrets, CallEpochSecrets] ks = (rs, ks') \<and>
    rs ! 1 = GotEpochSecrets es \<and> rs ! 2 = GotError (InvalidState e) \<and> ks_epoch_secret ks' = None"
proof -
  let ?calls = "[CallAddContext [3], CallEpochSecrets, CallEpochSecrets]"
  have "run_schedule sample_provider sample_suite [1] [2] [3] =
      Inr (derived sample_provider sample_suite (extracted sample_provider sample_suite [1] [2]) ''welcome'',
        secrets_of sample_provider sample_suite (epoch_of sample_provider sample_suite [1] [2] [3]),
        \<lparr>ks_ciphersuite = sample_suite, ks_intermediate_secret = None, ks_epoch_secret = None,
         ks_state = ScheduleDone\<rparr>)"
    by (rule run_schedule_ok [OF sample_kdf_ok sample_extract_ok]) simp
  then obtain ks ks1 ks2 es where init: "key_schedule_init sample_suite sample_provider [1] [2] = Inr ks"
    and add: "key_schedule_add_context sample_provider [3] ks = (Inr (), ks1)"
    and es: "key_schedule_epoch_secrets sample_provider sample_suite ks1 = (Inr es, ks2)"
    by (rule run_schedule_calls)
  obtain r ks3 where "ks_step sample_provider sample_suite CallEpochSecrets ks2 = (r, ks3)" by (metis prod.collapse)
  then have run: "ks_run sample_provider sample_suite ?calls ks = ([GotContext, GotEpochSecrets es, r], ks3)"
    using add es by (simp del: ks_step.simps(3) add: Let_def ks_step.simps(3) [of _ _ ks1])
  have "[GotContext, GotEpochSecrets es, r] ! 1 = GotEpochSecrets es" by simp
  moreover have "1 < (2::nat)" "2 < length ?calls" by simp_all
  ultimately have "\<exists>e. [GotContext, GotEpochSecrets es, r] ! 2 = GotError (InvalidState e)" "ks_epoch_secret ks3 = None"
    using key_schedule_one_pass [OF init run] by (blast, simp)
  then show ?thesis using init run by force
qed

text \<open>
  C30: an external committer and the members agree on the init secret: the members derive from the KEM
  output in the external init proposal and their external private key the secret that the committer
  exported for their external public key.
\<close>

theorem external_init_agreement:
  assumes "derive_external_keypair X (gc_ciphersuite gc) external_secret = Inr kp"
    and "init_secret_from_group_context X gc (kp_public_key kp) = Inr (init, kemo)"
    and "\<And>info ctx len kem s.
      hpke_setup_sender_and_export X (hpke_config (gc_ciphersuite gc)) (kp_public_key kp) info ctx len
        = Inr (kem, s) \<Longrightarrow>
      hpke_setup_receiver_and_export X (hpke_config (gc_ciphersuite gc)) kem (kp_private_key kp) info ctx len
        = Inr s"
  shows "init_secret_from_kem_output X (gc_ciphersuite gc) (gc_protocol_version gc) (kp_private_key kp) kemo
    = Inr init"
  using assms by (rule external_init_same_secret)

theorem external_init_agreement_witness:
  "\<exists>kp init kemo. derive_external_keypair sample_export sample_suite [1] = Inr kp \<and>
    init_secret_from_group_context sample_export sample_context (kp_public_key kp) = Inr (init, kemo) \<and>
    init_secret_from_kem_output sample_export sample_suite Mls10 (kp_private_key kp) kemo = Inr init"
proof -
  have cs: "gc_ciphersuite sample_context = sample_suite" "gc_protocol_version sample_context = Mls10"
    by (simp_all add: sample_context_def)
  have kp: "derive_external_keypair sample_export (gc_ciphersuite sample_context) [1] =
      Inr \<lparr>kp_public_key = [1], kp_private_key = [1]\<rparr>"
    by (simp add: derive_external_keypair_def sample_export_def)
  obtain init kem where init: "init_secret_from_group_context sample_export sample_context [1] = Inr (init, kem)"
    by (auto simp: init_secret_from_group_context_def sample_export_def Let_def)
  have "init_secret_from_kem_output sample_export (gc_ciphersuite sample_context) (gc_protocol_version sample_context)
      [1] kem = Inr init"
    using external_init_agreement [OF kp] init by (simp add: sample_export_def)
  then show ?thesis using kp init cs by auto
qed

text \<open>
  C31: the PSK secret is the chain of extractions of the protocol over the derived inputs of the
  keys in order, each with its own index and the number of keys; without keys it is the zero secret.
\<close>

theorem psk_secret_chain:
  assumes "kdf_ok P cs" and "extract_ok P cs" and "label_ok C psks" and "length psks < 2 ^ 16"
  shows "psk_secret_new P C cs psks =
    Inr (psk_chain P cs (map (\<lambda>(i, psk_id, psk). psk_input P C cs (length psks) i psk_id psk) (enumerate 0 psks)))"
  using assms by (rule psk_secret_new_ok)

theorem psk_secret_chain_witness:
  "\<exists>a b. psk_secret_new sample_provider (\<lambda>k i n. Some [of_nat (unat i), of_nat (unat n)]) sample_suite
      [(psk_a, [1]), (psk_b, [2])] =
    Inr (extracted sample_provider sample_suite b (extracted sample_provider sample_suite a (secret_zero sample_suite)))"
  using psk_secret_chain [OF sample_kdf_ok sample_extract_ok,
      of "\<lambda>k i n. Some [of_nat (unat i), of_nat (unat n)]" "[(psk_a, [1]), (psk_b, [2])]" sample_suite]
  by (auto simp: label_ok_def)



text \<open>
  C33: the message secrets of past epochs. After the epochs \<open>ended\<close> have been stored in turn, exactly
  the last \<open>m\<close> of them are available, each with its own secrets.
\<close>

theorem past_epoch_secrets:
  assumes "distinct (map et_epoch ended)" and "i < length ended"
  shows "secrets_for_epoch (et_epoch (ended ! i)) (mss_after m ms ended) =
    (if length ended \<le> i + m then Some (et_message_secrets (ended ! i)) else None)"
  using assms by (rule history_window)

theorem past_epoch_secrets_witness:
  "let t = (\<lambda>n. \<lparr>et_epoch = n, et_message_secrets = sample_secrets 0, et_leaves = []\<rparr>);
       store = mss_after 1 (sample_secrets 1) [t 0, t 1] in
   secrets_for_epoch 0 store = None \<and> secrets_for_epoch 1 store = Some (sample_secrets 0)"
proof -
  let ?t = "\<lambda>n. \<lparr>et_epoch = n, et_message_secrets = sample_secrets 0, et_leaves = []\<rparr>"
  have "distinct (map et_epoch [?t 0, ?t 1])" by simp
  note w = past_epoch_secrets [OF this, of _ 1 "sample_secrets 1"]
  show ?thesis using w [of 0] w [of 1] by (simp add: Let_def)
qed

section \<open>Key packages, proposals and commits\<close>

text \<open>
  C34: a key package that a client has built passes the validation of the other clients, as long as
  its lifetime has begun and not ended, its leaf supports its extensions and the two HPKE keys differ.
\<close>

theorem key_package_valid:
  assumes "key_package_new_from_keys C KC random_pair cs signer cwk life_time exts caps leaf_exts init_key
      = Inr (kp, pair)"
    and "\<And>m s. signer_sign signer m = Some s \<Longrightarrow>
      verify_signature (signature_algorithm cs) (cwk_signature_key cwk) m s"
    and "init_key \<noteq> kp_public_key pair"
    and "\<And>e. e \<in> set exts \<Longrightarrow>
      extension_type_is_default (extension_type_of e) \<or> extension_type_of e \<in> set (cap_extensions caps)"
    and "lifetime_is_valid now life_time"
  shows "key_package_validate C KC verify_signature now Mls10 kp = Inr kp \<and>
    leaf_encryption_key (leaf_payload (key_package_leaf_node kp)) = kp_public_key pair"
  using new_key_package_valid [where verify_signature = verify_signature, OF assms] by blast

theorem key_package_valid_witness:
  "\<exists>kp. sample_key_package = Inr (kp, \<lparr>kp_public_key = [2], kp_private_key = [2]\<rparr>) \<and>
    key_package_validate sample_codec sample_key_package_codec sample_check (Some 5) Mls10 kp = Inr kp"
proof -
  obtain kp where kp: "sample_key_package = Inr (kp, \<lparr>kp_public_key = [2], kp_private_key = [2]\<rparr>)"
    using sample_key_package_built by blast
  have "key_package_validate sample_codec sample_key_package_codec sample_check (Some 5) Mls10 kp = Inr kp \<and>
    leaf_encryption_key (leaf_payload (key_package_leaf_node kp)) = kp_public_key \<lparr>kp_public_key = [2], kp_private_key = [2]\<rparr>"
    by (rule key_package_valid [OF kp [unfolded sample_key_package_def]])
      (simp_all add: sample_check_def lifetime_is_valid_def)
  then show ?thesis using kp by blast
qed



text \<open>
  C36: what a committer keeps of the proposals it holds, in whatever order the map of members is
  visited: every add, in order and first, every PSK, group context extensions and custom proposal, the
  first external init, and for every leaf the last removal or, without a removal, the last update of
  another member; nothing else, and each once.
\<close>

theorem committer_keeps:
  assumes "inj_on qp_reference (set xs)" and "\<forall>x \<in> set xs. filterable x"
    and "\<forall>ks. set (hash_order ks) = set ks"
  shows "\<exists>q rest. filter_proposals_without_inline hash_order xs own_index =
      Inr (q, \<exists>x \<in> set xs. own_update own_index x) \<and>
    pq_queued_proposals q = first_refs (filter is_add xs) @ rest \<and> (\<forall>x \<in> set rest. \<not> is_add x) \<and>
    set (pq_queued_proposals q) = kept own_index xs \<and> distinct (pq_queued_proposals q)"
  using filter_kept [OF assms] pq_queued_distinct by blast

theorem committer_keeps_witness:
  "\<exists>q. filter_proposals_without_inline rev [sample_update 1, sample_update 2, sample_removal 2, sample_update 0] 0
      = Inr (q, True) \<and> set (pq_queued_proposals q) = {sample_update 1, sample_removal 2}"
proof -
  let ?xs = "[sample_update 1, sample_update 2, sample_removal 2, sample_update 0]"
  have inj: "inj_on qp_reference (set ?xs)" by (simp add: sample_update_def sample_removal_def)
  have ok: "\<forall>x \<in> set ?xs. filterable x" by (simp add: filterable_def sample_update_def sample_removal_def)
  have "kept 0 ?xs = {sample_update 1, sample_removal 2}" by (rule sample_kept)
  moreover have "\<exists>x \<in> set ?xs. own_update 0 x" by (simp add: own_update_def sample_update_def)
  moreover have "\<forall>ks. set (rev ks) = set (ks :: nat list)" by simp
  ultimately show ?thesis using committer_keeps [OF inj ok, of rev 0] by auto
qed

text \<open>
  C37: the queue a receiver builds for a commit. Each proposal in it is either inlined in the commit
  and attributed to the committer, or stored by the receiver under a reference of the commit; none
  removes the committer; every reference of the commit is resolved and every reference occurs once.
\<close>

theorem committed_queue:
  assumes "from_committed_proposals P F cs committed st s = Inr q"
  shows "pq_inv q \<and>
    (\<forall>x \<in> set (pq_queued_proposals q). \<not> is_self_removal (qp_proposal x) s \<and>
      (InlineProposal (qp_proposal x) \<in> set committed \<and> qp_sender x = s \<or>
       ProposalReference (qp_reference x) \<in> set committed \<and> x \<in> set st)) \<and>
    (\<forall>r. ProposalReference r \<in> set committed \<longrightarrow> r \<in> set (pq_references q)) \<and>
    (\<forall>p. InlineProposal p \<in> set committed \<longrightarrow>
      (\<exists>r \<in> set (pq_references q). proposal_ref_from_raw_proposal P F cs p = Inr r))"
  by (rule from_committed_facts [OF assms])

theorem committed_queue_witness:
  "\<exists>q. from_committed_proposals sample_provider sample_framing sample_suite
      [ProposalReference [1], InlineProposal (Remove 3)] [sample_update 1] (SenderMember 2) = Inr q \<and>
    [1] \<in> set (pq_references q)"
proof -
  obtain q where q: "from_committed_proposals sample_provider sample_framing sample_suite
      [ProposalReference [1], InlineProposal (Remove 3)] [sample_update 1] (SenderMember 2) = Inr q"
    using sample_committed by blast
  then show ?thesis using committed_queue [OF q] by simp
qed

text \<open>
  C38: a commit that covers the update of another member is refused. The committer keeps the update
  and puts it into the commit by value, and every receiver rejects a commit with an inlined update.
\<close>

theorem inlined_update_rejected:
  assumes "inj_on qp_reference (set xs)" and "\<forall>x \<in> set xs. filterable x"
    and "\<forall>ks. set (hash_order ks) = set ks"
    and "\<exists>x \<in> set xs. updates_of own_index k x" and "\<not> (\<exists>x \<in> set xs. removal_of k x)"
    and "filter_proposals_without_inline hash_order xs own_index = Inr (q, own_updates)"
    and "commit_proposals c = pq_commit_list q"
  shows "\<exists>e. commit_validate V cs sc version c = Inl e"
  by (rule covered_update_rejected [OF assms])

theorem inlined_update_rejected_witness:
  "\<exists>q e. filter_proposals_without_inline rev [sample_update 1, sample_removal 2] 0 = Inr (q, False) \<and>
    commit_validate sample_env sample_suite (ContextMember [5] 0) Mls10
      \<lparr>commit_proposals = pq_commit_list q, commit_path = None\<rparr> = Inl e"
proof -
  let ?xs = "[sample_update 1, sample_removal 2]"
  have inj: "inj_on qp_reference (set ?xs)" by (simp add: sample_update_def sample_removal_def)
  have ok: "\<forall>x \<in> set ?xs. filterable x" by (simp add: filterable_def sample_update_def sample_removal_def)
  have order: "\<forall>ks. set (rev ks) = set (ks :: nat list)" by simp
  have up: "\<exists>x \<in> set ?xs. updates_of 0 1 x" "\<not> (\<exists>x \<in> set ?xs. removal_of 1 x)" "\<not> (\<exists>x \<in> set ?xs. own_update 0 x)"
    by (simp_all add: updates_of_def removal_of_def own_update_def sample_update_def sample_removal_def)
  obtain q where q: "filter_proposals_without_inline rev ?xs 0 = Inr (q, False)"
    using filter_kept [OF inj ok order, of 0] up(3) by auto
  have "\<exists>e. commit_validate sample_env sample_suite (ContextMember [5] 0) Mls10
      \<lparr>commit_proposals = pq_commit_list q, commit_path = None\<rparr> = Inl e"
    by (rule inlined_update_rejected [OF inj ok order up(1,2) q]) simp
  then show ?thesis using q by blast
qed

end
